(* ===== verification/Prelude.thy ===== *)
theory Prelude
  imports Main "HOL-Library.Word" "HOL-Library.Monad_Syntax"
begin

text \<open>
  Shared vocabulary of the development.

  \<^item> Go's machine types: bytes, byte slices and the fixed-width words that
    cross the wire, with the little-endian conversions of package
    \<open>encoding/binary\<close> that \<^verbatim>\<open>protocol/message.go\<close> calls.
  \<^item> Errors: a Go \<open>error\<close> is a value of \<open>goerr\<close>; a call that can also
    panic returns an \<open>outcome\<close>.
  \<^item> Checked slicing and checked writes into a slice: Go panics out of
    range, so \<open>go_slice\<close> and \<open>put_at\<close> return options.
  \<^item> The part of \<open>strconv\<close> and \<open>strings\<close> the sources use: decimal
    printing and parsing, lower-casing, last occurrence of a character.
  \<^item> Reachability of a step relation and the locale \<open>invariant_system\<close>,
    whose instances are the state machines of the component theories.

  The collections \<open>go_simps\<close> and \<open>wire_simps\<close> carry the component proofs.
\<close>

unbundle bit_operations_syntax

named_theorems go_simps \<open>facts about Go's built-in operations\<close>
named_theorems wire_simps \<open>facts about byte layouts\<close>

type_synonym byte = "8 word"
type_synonym bytes = "byte list"
type_synonym uint32 = "32 word"
type_synonym uint64 = "64 word"
type_synonym duration = int \<comment> \<open>\<open>time.Duration\<close>, in nanoseconds; bounds are stated where they matter\<close>
type_synonym time = int \<comment> \<open>an instant, in nanoseconds\<close>

section \<open>Errors and panics\<close>

text \<open>
  \<open>EOF\<close> and \<open>UnexpectedEOF\<close> are the sentinels of package \<open>io\<close>;
  \<open>Errorf s\<close> is an error made by \<open>errors.New\<close> or \<open>fmt.Errorf\<close> with text \<open>s\<close>;
  \<open>Wrap s e\<close> is \<open>fmt.Errorf("s: %w", e)\<close>.
\<close>

datatype goerr = EOF | UnexpectedEOF | Errorf string | Wrap string goerr

fun Error_text :: "goerr \<Rightarrow> string" where
  "Error_text EOF = ''EOF''"
| "Error_text UnexpectedEOF = ''unexpected EOF''"
| "Error_text (Errorf s) = s"
| "Error_text (Wrap s e) = s @ '': '' @ Error_text e"

datatype 'a outcome = Ok 'a | Fail goerr | Panic

section \<open>Little-endian words\<close>

definition PutUint32 :: "uint32 \<Rightarrow> bytes" where
  "PutUint32 w = [ucast w, ucast (drop_bit 8 w), ucast (drop_bit 16 w), ucast (drop_bit 24 w)]"

definition Uint32 :: "bytes \<Rightarrow> uint32" where
  "Uint32 bs = (ucast (bs ! 0) :: uint32) OR push_bit 8 (ucast (bs ! 1))
     OR push_bit 16 (ucast (bs ! 2)) OR push_bit 24 (ucast (bs ! 3))"

definition PutUint64 :: "uint64 \<Rightarrow> bytes" where
  "PutUint64 w = [ucast w, ucast (drop_bit 8 w), ucast (drop_bit 16 w), ucast (drop_bit 24 w),
     ucast (drop_bit 32 w), ucast (drop_bit 40 w), ucast (drop_bit 48 w), ucast (drop_bit 56 w)]"

definition Uint64 :: "bytes \<Rightarrow> uint64" where
  "Uint64 bs = (ucast (bs ! 0) :: uint64) OR push_bit 8 (ucast (bs ! 1))
     OR push_bit 16 (ucast (bs ! 2)) OR push_bit 24 (ucast (bs ! 3))
     OR push_bit 32 (ucast (bs ! 4)) OR push_bit 40 (ucast (bs ! 5))
     OR push_bit 48 (ucast (bs ! 6)) OR push_bit 56 (ucast (bs ! 7))"

lemma length_PutUint32 [simp, wire_simps]: "length (PutUint32 w) = 4"
  by (simp add: PutUint32_def)

lemma length_PutUint64 [simp, wire_simps]: "length (PutUint64 w) = 8"
  by (simp add: PutUint64_def)

lemma bit_octet:
  "bit (push_bit k (ucast (ucast (drop_bit k w) :: byte)) :: 'a::len word) n
     \<longleftrightarrow> k \<le> n \<and> n < k + 8 \<and> bit w n \<and> n < LENGTH('a)"
  by (auto simp: bit_simps)

lemma Uint32_PutUint32 [simp, wire_simps]: "Uint32 (PutUint32 w) = w"
proof (rule bit_word_eqI)
  fix n assume "n < LENGTH(32)"
  then show "bit (Uint32 (PutUint32 w)) n = bit w n"
    using bit_octet [of 0 w n]
    by (auto simp: Uint32_def PutUint32_def bit_or_iff bit_octet)
qed

lemma bit_block:
  assumes "i < 8" "k < 8"
  shows "bit (push_bit (8 * j) (ucast (b :: byte)) :: uint64) (8 * k + i) \<longleftrightarrow> j = k \<and> bit b i"
proof -
  have "8 * k + i < 64" "i < 64" using assms by simp_all
  moreover have "bit b m \<Longrightarrow> m < 8" for m using bit_imp_le_length [of b m] by simp
  moreover have "8 * j \<le> 8 * k + i \<Longrightarrow> 8 * k + i - 8 * j < 8 \<Longrightarrow> j = k" using assms by simp
  ultimately show ?thesis by (cases "j = k") (auto simp: bit_push_bit_iff bit_ucast_iff)
qed

lemma bit_Uint64:
  assumes "i < 8" "k < 8"
  shows "bit (Uint64 bs) (8 * k + i) = bit (bs ! k) i"
proof -
  have b0: "bit (ucast (bs ! 0) :: uint64) (8 * k + i) \<longleftrightarrow> k = 0 \<and> bit (bs ! 0) i"
    using bit_block [OF assms, of 0 "bs ! 0"] by auto
  have b1: "bit (push_bit 8 (ucast (bs ! 1)) :: uint64) (8 * k + i) \<longleftrightarrow> k = 1 \<and> bit (bs ! 1) i"
    using bit_block [OF assms, of 1 "bs ! 1"] by auto
  have b2: "bit (push_bit 16 (ucast (bs ! 2)) :: uint64) (8 * k + i) \<longleftrightarrow> k = 2 \<and> bit (bs ! 2) i"
    using bit_block [OF assms, of 2 "bs ! 2"] by auto
  have b3: "bit (push_bit 24 (ucast (bs ! 3)) :: uint64) (8 * k + i) \<longleftrightarrow> k = 3 \<and> bit (bs ! 3) i"
    using bit_block [OF assms, of 3 "bs ! 3"] by auto
  have b4: "bit (push_bit 32 (ucast (bs ! 4)) :: uint64) (8 * k + i) \<longleftrightarrow> k = 4 \<and> bit (bs ! 4) i"
    using bit_block [OF assms, of 4 "bs ! 4"] by auto
  have b5: "bit (push_bit 40 (ucast (bs ! 5)) :: uint64) (8 * k + i) \<longleftrightarrow> k = 5 \<and> bit (bs ! 5) i"
    using bit_block [OF assms, of 5 "bs ! 5"] by auto
  have b6: "bit (push_bit 48 (ucast (bs ! 6)) :: uint64) (8 * k + i) \<longleftrightarrow> k = 6 \<and> bit (bs ! 6) i"
    using bit_block [OF assms, of 6 "bs ! 6"] by auto
  have b7: "bit (push_bit 56 (ucast (bs ! 7)) :: uint64) (8 * k + i) \<longleftrightarrow> k = 7 \<and> bit (bs ! 7) i"
    using bit_block [OF assms, of 7 "bs ! 7"] by auto
  have "k = 0 \<or> k = 1 \<or> k = 2 \<or> k = 3 \<or> k = 4 \<or> k = 5 \<or> k = 6 \<or> k = 7"
    using assms(2) by linarith
  then show ?thesis
    unfolding Uint64_def bit_or_iff b0 b1 b2 b3 b4 b5 b6 b7 by (elim disjE) simp_all
qed

lemma octet_Uint64: "k < 8 \<Longrightarrow> ucast (drop_bit (8 * k) (Uint64 bs)) = bs ! k"
  by (rule bit_word_eqI) (simp add: bit_ucast_iff bit_drop_bit_eq bit_Uint64)

lemma PutUint64_Uint64: "length bs = 8 \<Longrightarrow> PutUint64 (Uint64 bs) = bs"
proof -
  assume "length bs = 8"
  then have "bs = [bs ! 0, bs ! 1, bs ! 2, bs ! 3, bs ! 4, bs ! 5, bs ! 6, bs ! 7]"
    by (intro nth_equalityI) (auto simp: less_Suc_eq numeral_eq_Suc)
  then show ?thesis
    using octet_Uint64 [of 0 bs] octet_Uint64 [of 1 bs] octet_Uint64 [of 2 bs] octet_Uint64 [of 3 bs]
      octet_Uint64 [of 4 bs] octet_Uint64 [of 5 bs] octet_Uint64 [of 6 bs] octet_Uint64 [of 7 bs]
    by (simp add: PutUint64_def)
qed
lemma PutUint64_nth: "k < 8 \<Longrightarrow> PutUint64 w ! k = ucast (drop_bit (8 * k) w)"
  by (auto simp: PutUint64_def less_Suc_eq numeral_eq_Suc)

lemma Uint64_PutUint64 [simp, wire_simps]: "Uint64 (PutUint64 w) = w"
proof (rule bit_word_eqI)
  fix n assume n: "n < LENGTH(64)"
  then have "n div 8 < 8" "n mod 8 < 8" by simp_all
  then have "bit (Uint64 (PutUint64 w)) (8 * (n div 8) + n mod 8) = bit w (8 * (n div 8) + n mod 8)"
    by (simp only: bit_Uint64 PutUint64_nth bit_ucast_iff bit_drop_bit_eq) simp
  then show "bit (Uint64 (PutUint64 w)) n = bit w n" by simp
qed

text \<open>The conversion \<open>uint32(n)\<close> of a length truncates; below \<open>2 ^ 32\<close> it is lossless.\<close>

definition len32 :: "nat \<Rightarrow> bytes" where
  "len32 n = PutUint32 (word_of_nat n)"

lemma length_len32 [simp, wire_simps]: "length (len32 n) = 4"
  by (simp add: len32_def)

lemma unat_len32 [simp, wire_simps]: "n < 2 ^ 32 \<Longrightarrow> unat (Uint32 (len32 n)) = n"
  by (simp add: len32_def unat_of_nat)

section \<open>Checked slices\<close>

definition go_slice :: "'a list \<Rightarrow> nat \<Rightarrow> nat \<Rightarrow> 'a list option" where
  "go_slice xs lo hi = (if lo \<le> hi \<and> hi \<le> length xs then Some (take (hi - lo) (drop lo xs)) else None)"

text \<open>\<open>copy(buf[off:off+len(src)], src)\<close>: panics when the destination slice is out of range.\<close>

definition put_at :: "'a list \<Rightarrow> nat \<Rightarrow> 'a list \<Rightarrow> 'a list option" where
  "put_at buf off src =
     (if off + length src \<le> length buf
      then Some (take off buf @ src @ drop (off + length src) buf) else None)"

lemma go_slice_append [simp, go_simps]:
  "length pre = lo \<Longrightarrow> length mid = hi - lo \<Longrightarrow> lo \<le> hi \<Longrightarrow> go_slice (pre @ mid @ post) lo hi = Some mid"
  by (simp add: go_slice_def)

lemma go_slice_SomeD: "go_slice xs lo hi = Some ys \<Longrightarrow> length ys = hi - lo \<and> lo \<le> hi \<and> hi \<le> length xs"
  by (auto simp: go_slice_def split: if_splits)

lemma put_at_append [simp, go_simps]:
  "length pre = off \<Longrightarrow> length old = length src \<Longrightarrow>
   put_at (pre @ old @ post) off src = Some (pre @ src @ post)"
  by (simp add: put_at_def)

lemma put_at_length: "put_at buf off src = Some buf' \<Longrightarrow> length buf' = length buf"
  by (auto simp: put_at_def split: if_splits)

section \<open>Decimal numerals: \<open>strconv\<close>\<close>

fun digit :: "nat \<Rightarrow> char" where
  "digit d = char_of (48 + d)"

text \<open>\<open>strconv.FormatInt(n, 10)\<close> on a non-negative number.\<close>

fun FormatInt :: "nat \<Rightarrow> string" where
  "FormatInt n = (if n < 10 then [digit n] else FormatInt (n div 10) @ [digit (n mod 10)])"

declare FormatInt.simps [simp del]

definition is_digit :: "char \<Rightarrow> bool" where
  "is_digit c \<longleftrightarrow> 48 \<le> (of_char c :: nat) \<and> (of_char c :: nat) \<le> 57"

text \<open>\<open>strconv.ParseUint(s, 10, 64)\<close>: the digit loop and its two error returns.\<close>

fun parse_digits :: "nat \<Rightarrow> string \<Rightarrow> string + nat" where
  "parse_digits n [] = Inr n"
| "parse_digits n (c # cs) =
     (if \<not> is_digit c then Inl ''invalid syntax''
      else let n1 = n * 10 + (of_char c - 48)
           in if 2 ^ 64 \<le> n1 then Inl ''value out of range'' else parse_digits n1 cs)"

definition ParseUint :: "string \<Rightarrow> goerr + nat" where
  "ParseUint s =
     (case (if s = [] then Inl ''invalid syntax'' else parse_digits 0 s) of
        Inl why \<Rightarrow> Inl (Errorf (''strconv.ParseUint: parsing '' @ [CHR 0x22] @ s @ [CHR 0x22] @ '': '' @ why))
      | Inr n \<Rightarrow> Inr n)"

lemma of_char_digit [simp]: "d < 10 \<Longrightarrow> (of_char (digit d) :: nat) = 48 + d"
  by simp

lemma is_digit_digit [simp]: "d < 10 \<Longrightarrow> is_digit (digit d)"
  by (simp add: is_digit_def del: digit.simps)

declare digit.simps [simp del]

lemma FormatInt_nonempty [simp]: "FormatInt n \<noteq> []"
  by (subst FormatInt.simps) simp

lemma parse_digits_append:
  "parse_digits a s = Inr n \<Longrightarrow> parse_digits a (s @ t) = parse_digits n t"
  by (induction a s rule: parse_digits.induct) (auto simp: Let_def split: if_splits)

lemma parse_digits_FormatInt: "n < 2 ^ 64 \<Longrightarrow> parse_digits 0 (FormatInt n) = Inr n"
proof (induction n rule: FormatInt.induct)
  case (1 n)
  show ?case
  proof (cases "n < 10")
    case True
    with 1 show ?thesis by (subst FormatInt.simps) simp
  next
    case False
    with 1 have "parse_digits 0 (FormatInt (n div 10)) = Inr (n div 10)" by simp
    with False 1 show ?thesis
      by (subst FormatInt.simps) (simp add: parse_digits_append Let_def)
  qed
qed

lemma ParseUint_FormatInt [simp]: "n < 2 ^ 64 \<Longrightarrow> ParseUint (FormatInt n) = Inr n"
  by (simp add: ParseUint_def parse_digits_FormatInt)

lemma length_FormatInt: "n < 10 ^ k \<Longrightarrow> 0 < k \<Longrightarrow> length (FormatInt n) \<le> k"
proof (induction k arbitrary: n)
  case 0
  then show ?case by simp
next
  case (Suc k)
  show ?case
  proof (cases "n < 10")
    case True
    then show ?thesis by (subst FormatInt.simps) simp
  next
    case False
    with Suc.prems have "0 < k" by (cases k) auto
    moreover have "n div 10 < 10 ^ k" using Suc.prems by (simp add: div_less_iff_less_mult mult.commute)
    ultimately have "length (FormatInt (n div 10)) \<le> k" using Suc.IH by blast
    with False show ?thesis by (subst FormatInt.simps) simp
  qed
qed

lemma parse_digits_bound: "parse_digits a s = Inr n \<Longrightarrow> n < (a + 1) * 10 ^ length s"
proof (induction a s rule: parse_digits.induct)
  case (1 a)
  then show ?case by simp
next
  case (2 a c cs)
  let ?n1 = "a * 10 + (of_char c - 48)"
  from 2(2) have d: "is_digit c" and ok: "parse_digits ?n1 cs = Inr n" and "\<not> 2 ^ 64 \<le> ?n1"
    by (auto simp: Let_def split: if_splits)
  with 2(1) have "n < (?n1 + 1) * 10 ^ length cs" by (simp add: Let_def)
  also have "\<dots> \<le> ((a + 1) * 10) * 10 ^ length cs"
    using d by (intro mult_right_mono) (auto simp: is_digit_def)
  finally show ?case by (simp add: algebra_simps)
qed

lemma ParseUint_bound: "ParseUint s = Inr n \<Longrightarrow> n < 10 ^ length s"
  using parse_digits_bound [of 0 s n] by (auto simp: ParseUint_def split: if_splits sum.splits)

section \<open>Strings\<close>

text \<open>
  \<open>strings.ToLower\<close> on ASCII text; bytes outside \<open>A-Z\<close> are kept. Keys with
  multi-byte letters are outside what is modelled.
\<close>

definition lower_char :: "char \<Rightarrow> char" where
  "lower_char c = (let n = (of_char c :: nat) in if 65 \<le> n \<and> n \<le> 90 then char_of (n + 32) else c)"

definition ToLower :: "string \<Rightarrow> string" where
  "ToLower s = map lower_char s"

lemma of_char_less_256 [simp]: "(of_char c :: nat) < 256"
  using of_char_mod_256 [of c] by (metis mod_less_divisor zero_less_numeral)

lemma lower_char_idem [simp]: "lower_char (lower_char c) = lower_char c"
  by (simp add: lower_char_def Let_def)

lemma ToLower_idem [simp, go_simps]: "ToLower (ToLower s) = ToLower s"
  by (simp add: ToLower_def)

lemma length_ToLower [simp]: "length (ToLower s) = length s"
  by (simp add: ToLower_def)

definition HasPrefix :: "string \<Rightarrow> string \<Rightarrow> bool" where
  "HasPrefix s p \<longleftrightarrow> take (length p) s = p"

text \<open>\<open>strings.LastIndex(s, "/")\<close> with \<open>None\<close> for \<open>-1\<close>.\<close>

fun LastIndex :: "string \<Rightarrow> char \<Rightarrow> nat option" where
  "LastIndex [] c = None"
| "LastIndex (x # xs) c =
     (case LastIndex xs c of Some i \<Rightarrow> Some (Suc i) | None \<Rightarrow> if x = c then Some 0 else None)"

lemma LastIndex_None: "LastIndex s c = None \<longleftrightarrow> c \<notin> set s"
  by (induction s) (auto split: option.splits)

lemma LastIndex_Some:
  "LastIndex s c = Some i \<longleftrightarrow> i < length s \<and> s ! i = c \<and> c \<notin> set (drop (Suc i) s)"
proof (induction s arbitrary: i)
  case Nil
  then show ?case by simp
next
  case (Cons x xs)
  show ?case
  proof (cases i)
    case 0
    then show ?thesis using LastIndex_None [of xs c] by (auto split: option.splits)
  next
    case (Suc j)
    have "LastIndex (x # xs) c = Some (Suc j) \<longleftrightarrow> LastIndex xs c = Some j"
      by (auto split: option.splits)
    with Suc show ?thesis by (simp add: Cons.IH)
  qed
qed

section \<open>Step relations\<close>

inductive reach :: "('s \<Rightarrow> bool) \<Rightarrow> ('s \<Rightarrow> 's \<Rightarrow> bool) \<Rightarrow> 's \<Rightarrow> bool" for init step where
  reach_init: "init s \<Longrightarrow> reach init step s"
| reach_step: "reach init step s \<Longrightarrow> step s t \<Longrightarrow> reach init step t"

locale invariant_system =
  fixes init :: "'s \<Rightarrow> bool"
    and step :: "'s \<Rightarrow> 's \<Rightarrow> bool"
    and inv :: "'s \<Rightarrow> bool"
  assumes init_inv: "init s \<Longrightarrow> inv s"
    and step_inv: "step s t \<Longrightarrow> inv s \<Longrightarrow> inv t"
begin

lemma reach_inv: "reach init step s \<Longrightarrow> inv s"
  by (induction rule: reach.induct) (auto intro: init_inv step_inv)

end

end
