(* ===== verification/Metadata.thy ===== *)
theory Metadata
  imports Prelude "HOL-Library.AList"
begin

text \<open>
  Package \<^verbatim>\<open>metadata\<close> (\<^verbatim>\<open>metadata/metadata.go\<close>): the type \<open>MD\<close>, its operations, and
  the two context slots that carry it.

  A Go map has no iteration order. An \<open>MD\<close> is an association list with distinct
  keys whose order stands for the order one \<open>range\<close> loop happens to take, so a
  statement about every list is a statement about every iteration order. A nil
  map reads like an empty one; where the code tests for nil (the \<open>Metadata\<close> field of
  a message) an option carries the difference.

  The locale \<open>header_store\<close> is the contract the other packages rely on: reads and
  writes are case-insensitive and keep the order of appended values. It is
  interpreted on the operations of \<open>MD\<close>.
\<close>

type_synonym MD = "(string \<times> string list) list"

section \<open>Operations\<close>

definition md_index :: "MD \<Rightarrow> string \<Rightarrow> string list" where
  "md_index md k = (case map_of md k of Some vs \<Rightarrow> vs | None \<Rightarrow> [])"

definition copyOf :: "string list \<Rightarrow> string list" where
  "copyOf v = map id v"

fun New_loop :: "(string \<times> string) list \<Rightarrow> MD \<Rightarrow> MD" where
  "New_loop [] md = md"
| "New_loop ((k, v) # rest) md =
     (let key = ToLower k in New_loop rest (AList.update key (md_index md key @ [v]) md))"

definition New :: "(string \<times> string) list \<Rightarrow> MD" where
  "New m = New_loop m []"

fun Pairs_loop :: "string list \<Rightarrow> MD \<Rightarrow> MD" where
  "Pairs_loop (k # v # rest) md =
     (let key = ToLower k in Pairs_loop rest (AList.update key (md_index md key @ [v]) md))"
| "Pairs_loop _ md = md"

definition Pairs :: "string list \<Rightarrow> MD outcome" where
  "Pairs kv = (if length kv mod 2 \<noteq> 0 then Panic else Ok (Pairs_loop kv []))"

definition MD_Len :: "MD \<Rightarrow> nat" where
  "MD_Len md = length md"

fun Copy_loop :: "MD \<Rightarrow> MD \<Rightarrow> MD" where
  "Copy_loop [] out = out"
| "Copy_loop ((k, v) # rest) out = Copy_loop rest (AList.update k (copyOf v) out)"

definition MD_Copy :: "MD \<Rightarrow> MD" where
  "MD_Copy md = Copy_loop md []"

definition MD_Get :: "MD \<Rightarrow> string \<Rightarrow> string list" where
  "MD_Get md k = md_index md (ToLower k)"

definition MD_Set :: "MD \<Rightarrow> string \<Rightarrow> string list \<Rightarrow> MD" where
  "MD_Set md k vals = (if length vals = 0 then md else AList.update (ToLower k) vals md)"

definition MD_Append :: "MD \<Rightarrow> string \<Rightarrow> string list \<Rightarrow> MD" where
  "MD_Append md k vals =
     (if length vals = 0 then md
      else let k' = ToLower k in AList.update k' (md_index md k' @ vals) md)"

definition MD_Delete :: "MD \<Rightarrow> string \<Rightarrow> MD" where
  "MD_Delete md k = AList.delete (ToLower k) md"

fun Join_md :: "MD \<Rightarrow> MD \<Rightarrow> MD" where
  "Join_md [] out = out"
| "Join_md ((k, v) # rest) out = Join_md rest (AList.update k (md_index out k @ v) out)"

fun Join_loop :: "MD list \<Rightarrow> MD \<Rightarrow> MD" where
  "Join_loop [] out = out"
| "Join_loop (md # mds) out = Join_loop mds (Join_md md out)"

definition Join :: "MD list \<Rightarrow> MD" where
  "Join mds = Join_loop mds []"

section \<open>Context slots\<close>

record rawMD =
  raw_md :: MD
  added :: "string list list"

text \<open>The two values the package stores in a \<open>context.Context\<close>.\<close>

record Context =
  out_md :: "rawMD option"
  in_md :: "MD option"

definition NewOutgoingContext :: "'c Context_scheme \<Rightarrow> MD \<Rightarrow> 'c Context_scheme" where
  "NewOutgoingContext ctx md = ctx\<lparr>out_md := Some \<lparr>raw_md = md, added = []\<rparr>\<rparr>"

fun lower_keys :: "string list \<Rightarrow> string list" where
  "lower_keys (k # v # rest) = ToLower k # v # lower_keys rest"
| "lower_keys rest = []"

definition AppendToOutgoingContext ::
  "'c Context_scheme \<Rightarrow> string list \<Rightarrow> 'c Context_scheme outcome" where
  "AppendToOutgoingContext ctx kv =
     (if length kv mod 2 = 1 then Panic
      else let md = (case out_md ctx of Some r \<Rightarrow> r | None \<Rightarrow> \<lparr>raw_md = [], added = []\<rparr>);
               kvCopy = lower_keys kv
           in Ok (ctx\<lparr>out_md := Some \<lparr>raw_md = raw_md md, added = added md @ [kvCopy]\<rparr>\<rparr>))"

fun lower_copy :: "MD \<Rightarrow> MD \<Rightarrow> MD" where
  "lower_copy [] out = out"
| "lower_copy ((k, v) # rest) out = lower_copy rest (AList.update (ToLower k) (copyOf v) out)"

fun added_loop :: "string list list \<Rightarrow> MD \<Rightarrow> MD outcome" where
  "added_loop [] out = Ok out"
| "added_loop (a # rest) out =
     (if length a mod 2 = 1 then Panic else added_loop rest (Pairs_loop a out))"

text \<open>The result is \<open>None\<close> when the context has no outgoing metadata (\<open>nil, false\<close>).\<close>

definition FromOutgoingContext :: "'c Context_scheme \<Rightarrow> MD option outcome" where
  "FromOutgoingContext ctx =
     (case out_md ctx of
        None \<Rightarrow> Ok None
      | Some raw \<Rightarrow>
          (case added_loop (added raw) (lower_copy (raw_md raw) []) of
             Ok out \<Rightarrow> Ok (Some out)
           | Fail e \<Rightarrow> Fail e
           | Panic \<Rightarrow> Panic))"

definition NewInComingContext :: "'c Context_scheme \<Rightarrow> MD \<Rightarrow> 'c Context_scheme" where
  "NewInComingContext ctx md = ctx\<lparr>in_md := Some md\<rparr>"

definition FromInComingContext :: "'c Context_scheme \<Rightarrow> MD option" where
  "FromInComingContext ctx =
     (case in_md ctx of None \<Rightarrow> None | Some md \<Rightarrow> Some (lower_copy md []))"

section \<open>Well-formed metadata\<close>

text \<open>A Go map has one entry per key; keys made by the package's own writers are lower case.\<close>

definition md_map :: "MD \<Rightarrow> bool" where
  "md_map md \<longleftrightarrow> distinct (map fst md)"

definition md_lower :: "MD \<Rightarrow> bool" where
  "md_lower md \<longleftrightarrow> md_map md \<and> (\<forall>k \<in> fst ` set md. ToLower k = k)"

lemma md_index_update [simp]:
  "md_index (AList.update k vs md) k' = (if k = k' then vs else md_index md k')"
  by (simp add: md_index_def update_conv')

lemma md_index_delete [simp]:
  "md_index (AList.delete k md) k' = (if k = k' then [] else md_index md k')"
  by (simp add: md_index_def delete_conv')

lemma md_index_Nil [simp]: "md_index [] k = []"
  by (simp add: md_index_def)

lemma md_index_Cons [simp]: "md_index ((k, vs) # md) k' = (if k = k' then vs else md_index md k')"
  by (simp add: md_index_def)

lemma copyOf_id [simp]: "copyOf v = v"
  by (simp add: copyOf_def)

lemma md_map_Nil [simp, intro]: "md_map []"
  by (simp add: md_map_def)

lemma md_map_update [simp, intro]: "md_map md \<Longrightarrow> md_map (AList.update k vs md)"
  by (simp add: md_map_def distinct_update)

lemma md_lower_Nil [simp, intro]: "md_lower []"
  by (simp add: md_lower_def)

lemma md_lower_update [simp, intro]:
  "md_lower md \<Longrightarrow> md_lower (AList.update (ToLower k) vs md)"
  using dom_update [of "ToLower k" vs md] by (auto simp: md_lower_def)

lemma md_lower_update_lower: "md_lower md \<Longrightarrow> ToLower k = k \<Longrightarrow> md_lower (AList.update k vs md)"
  using md_lower_update [of md k vs] by (simp only:)

lemma md_lower_map [dest]: "md_lower md \<Longrightarrow> md_map md"
  by (simp add: md_lower_def)

lemma update_fresh: "k \<notin> fst ` set md \<Longrightarrow> AList.update k vs md = md @ [(k, vs)]"
  by (induction md) auto

section \<open>The header-store contract\<close>

locale header_store =
  fixes get :: "'m \<Rightarrow> string \<Rightarrow> string list"
    and set_vals :: "'m \<Rightarrow> string \<Rightarrow> string list \<Rightarrow> 'm"
    and append_vals :: "'m \<Rightarrow> string \<Rightarrow> string list \<Rightarrow> 'm"
    and delete :: "'m \<Rightarrow> string \<Rightarrow> 'm"
    and norm :: "string \<Rightarrow> string"
  assumes get_set: "vals \<noteq> [] \<Longrightarrow>
      get (set_vals m k vals) k' = (if norm k = norm k' then vals else get m k')"
    and set_nothing: "set_vals m k [] = m"
    and get_append: "get (append_vals m k vals) k' = (if norm k = norm k' then get m k @ vals else get m k')"
    and get_delete: "get (delete m k) k' = (if norm k = norm k' then [] else get m k')"
    and get_norm: "norm k = norm k' \<Longrightarrow> get m k = get m k'"
begin

text \<open>Appending pairs one by one collects, per key, their values in order.\<close>

lemma get_fold_append:
  "get (fold (\<lambda>(k, v) m. append_vals m k [v]) kvs m) k' =
     get m k' @ map snd (filter (\<lambda>(k, v). norm k = norm k') kvs)"
proof (induction kvs arbitrary: m)
  case Nil
  then show ?case by simp
next
  case (Cons kv kvs)
  then show ?case by (cases kv) (auto simp: get_append dest: get_norm)
qed

lemma delete_then_append: "get (append_vals (delete m k) k vals) k' = (if norm k = norm k' then vals else get m k')"
  by (simp add: get_append get_delete)

lemma set_overrides: "vals \<noteq> [] \<Longrightarrow> get (set_vals (append_vals m k old) k vals) k = vals"
  by (simp add: get_set)

end

interpretation md_store: header_store MD_Get MD_Set MD_Append MD_Delete ToLower
  by unfold_locales (auto simp: MD_Get_def MD_Set_def MD_Append_def MD_Delete_def Let_def)

section \<open>Properties\<close>

fun pairs_of :: "string list \<Rightarrow> (string \<times> string) list" where
  "pairs_of (k # v # rest) = (k, v) # pairs_of rest"
| "pairs_of _ = []"

lemma Pairs_loop_fold: "Pairs_loop kv md = fold (\<lambda>(k, v) m. MD_Append m k [v]) (pairs_of kv) md"
  by (induction kv md rule: Pairs_loop.induct) (auto simp: MD_Append_def Let_def)

lemma New_loop_fold: "New_loop m md = fold (\<lambda>(k, v) m. MD_Append m k [v]) m md"
  by (induction m md rule: New_loop.induct) (auto simp: MD_Append_def Let_def)

lemma MD_Get_Pairs_loop:
  "MD_Get (Pairs_loop kv md) k =
     MD_Get md k @ map snd (filter (\<lambda>(k', v). ToLower k' = ToLower k) (pairs_of kv))"
  by (simp only: Pairs_loop_fold md_store.get_fold_append)

lemma md_lower_Pairs_loop: "md_lower md \<Longrightarrow> md_lower (Pairs_loop kv md)"
  by (induction kv md rule: Pairs_loop.induct) (simp_all add: Let_def)

lemma md_lower_New_loop: "md_lower md \<Longrightarrow> md_lower (New_loop m md)"
  by (induction m md rule: New_loop.induct) (simp_all add: Let_def)

lemma md_lower_New [simp, intro]: "md_lower (New m)"
  by (simp add: New_def md_lower_New_loop)

lemma md_lower_lower_copy: "md_lower out \<Longrightarrow> md_lower (lower_copy md out)"
  by (induction md out rule: lower_copy.induct) simp_all

lemma md_lower_Append [simp, intro]: "md_lower md \<Longrightarrow> md_lower (MD_Append md k vs)"
  by (simp add: MD_Append_def Let_def)

lemma md_lower_Set [simp, intro]: "md_lower md \<Longrightarrow> md_lower (MD_Set md k vs)"
  by (simp add: MD_Set_def)

text \<open>Copying an already lower-case map into a fresh one changes nothing.\<close>

lemma lower_copy_fresh:
  "md_lower md \<Longrightarrow> fst ` set md \<inter> fst ` set out = {} \<Longrightarrow> lower_copy md out = out @ md"
proof (induction md out rule: lower_copy.induct)
  case (1 out)
  then show ?case by simp
next
  case (2 k v rest out)
  then have "ToLower k = k" "k \<notin> fst ` set out" "k \<notin> fst ` set rest" "md_lower rest"
    by (auto simp: md_lower_def md_map_def)
  with 2 show ?case by (auto simp: update_fresh)
qed

lemma lower_copy_id [simp]: "md_lower md \<Longrightarrow> lower_copy md [] = md"
  by (simp add: lower_copy_fresh)

lemma Copy_loop_fresh:
  "md_map md \<Longrightarrow> fst ` set md \<inter> fst ` set out = {} \<Longrightarrow> Copy_loop md out = out @ md"
proof (induction md out rule: Copy_loop.induct)
  case (1 out)
  then show ?case by simp
next
  case (2 k v rest out)
  then have "k \<notin> fst ` set out" "k \<notin> fst ` set rest" "md_map rest"
    by (auto simp: md_map_def)
  with 2 show ?case by (auto simp: update_fresh)
qed

lemma md_index_Join_md:
  "md_map md \<Longrightarrow> md_index (Join_md md out) k = md_index out k @ md_index md k"
proof (induction md out rule: Join_md.induct)
  case (1 out)
  then show ?case by simp
next
  case (2 k' v rest out)
  then have "k' \<notin> fst ` set rest" "md_map rest" by (auto simp: md_map_def)
  then have "md_index rest k' = []" by (simp add: md_index_def map_of_eq_None_iff [THEN iffD2])
  with 2 \<open>md_map rest\<close> show ?case by auto
qed

lemma md_index_Join_loop:
  "\<forall>md \<in> set mds. md_map md \<Longrightarrow>
   md_index (Join_loop mds out) k = md_index out k @ concat (map (\<lambda>md. md_index md k) mds)"
  by (induction mds out rule: Join_loop.induct) (auto simp: md_index_Join_md)

lemma md_index_Join:
  "\<forall>md \<in> set mds. md_map md \<Longrightarrow> md_index (Join mds) k = concat (map (\<lambda>md. md_index md k) mds)"
  by (simp add: Join_def md_index_Join_loop)

lemma md_lower_Join_md: "md_lower md \<Longrightarrow> md_lower out \<Longrightarrow> md_lower (Join_md md out)"
proof (induction md out rule: Join_md.induct)
  case (1 out)
  then show ?case by simp
next
  case (2 k v rest out)
  from 2(2) have "ToLower k = k" "md_lower rest" by (auto simp: md_lower_def md_map_def)
  then have "md_lower (AList.update k (md_index out k @ v) out)"
    using 2(3) by (blast intro: md_lower_update_lower)
  with 2(1) \<open>md_lower rest\<close> show ?case by simp
qed

lemma md_lower_Join_loop:
  "\<forall>md \<in> set mds. md_lower md \<Longrightarrow> md_lower out \<Longrightarrow> md_lower (Join_loop mds out)"
  by (induction mds out rule: Join_loop.induct) (auto simp: md_lower_Join_md)

lemma md_lower_Join: "\<forall>md \<in> set mds. md_lower md \<Longrightarrow> md_lower (Join mds)"
  by (simp add: Join_def md_lower_Join_loop)

text \<open>
  \<open>Pairs\<close> panics exactly on an odd number of arguments; otherwise it builds a
  map with lower-case keys in which a look-up, in any letter case, gives the values of
  all pairs whose key matches case-insensitively, in argument order.
\<close>

theorem Pairs_collects:
  "case Pairs kv of
     Panic \<Rightarrow> odd (length kv)
   | Fail e \<Rightarrow> False
   | Ok md \<Rightarrow> even (length kv) \<and> md_lower md
       \<and> (\<forall>k. MD_Get md k = map snd (filter (\<lambda>(k', v). ToLower k' = ToLower k) (pairs_of kv)))"
  using MD_Get_Pairs_loop [of kv "[]"] md_lower_Pairs_loop [of "[]" kv]
  by (cases "even (length kv)") (simp_all add: Pairs_def MD_Get_def odd_iff_mod_2_eq_one)

text \<open>Successive calls of \<open>AppendToOutgoingContext\<close>.\<close>

fun append_all :: "'c Context_scheme \<Rightarrow> string list list \<Rightarrow> 'c Context_scheme outcome" where
  "append_all ctx [] = Ok ctx"
| "append_all ctx (kv # kvs) =
     (case AppendToOutgoingContext ctx kv of
        Ok ctx' \<Rightarrow> append_all ctx' kvs | Fail e \<Rightarrow> Fail e | Panic \<Rightarrow> Panic)"

lemma append_all_out:
  "\<forall>kv \<in> set kvs. even (length kv) \<Longrightarrow> out_md ctx = Some r \<Longrightarrow>
   append_all ctx kvs = Ok (ctx\<lparr>out_md := Some \<lparr>raw_md = raw_md r, added = added r @ map lower_keys kvs\<rparr>\<rparr>)"
proof (induction kvs arbitrary: ctx r)
  case Nil
  then have "ctx\<lparr>out_md := Some r\<rparr> = ctx" by (cases ctx) simp
  with Nil show ?case by (cases r) simp
next
  case (Cons kv kvs)
  then show ?case by (simp add: AppendToOutgoingContext_def even_iff_mod_2_eq_zero)
qed

lemma length_lower_keys [simp]: "even (length kv) \<Longrightarrow> length (lower_keys kv) = length kv"
  by (induction kv rule: lower_keys.induct) simp_all

lemma Pairs_loop_lower_keys: "Pairs_loop (lower_keys kv) md = Pairs_loop kv md"
  by (induction kv md rule: Pairs_loop.induct) (simp_all add: Let_def)

lemma added_loop_fold:
  "\<forall>kv \<in> set kvs. even (length kv) \<Longrightarrow>
   added_loop (map lower_keys kvs) md = Ok (fold Pairs_loop kvs md)"
  by (induction kvs arbitrary: md) (simp_all add: Pairs_loop_lower_keys even_iff_mod_2_eq_zero)

lemma MD_Get_fold_Pairs_loop:
  "MD_Get (fold Pairs_loop kvs md) k =
     MD_Get md k @ map snd (filter (\<lambda>(k', v). ToLower k' = ToLower k) (concat (map pairs_of kvs)))"
  by (induction kvs arbitrary: md) (simp_all add: MD_Get_Pairs_loop)

lemma md_lower_fold_Pairs_loop: "md_lower md \<Longrightarrow> md_lower (fold Pairs_loop kvs md)"
  by (induction kvs arbitrary: md) (simp_all add: md_lower_Pairs_loop)



end
