(* ===== verification/Registry.thy ===== *)
theory Registry
  imports Metadata
begin

text \<open>
  The service registry of \<^verbatim>\<open>registry/registry.go\<close>: services by name, instances by
  address, each with the time of its last heartbeat.

  Maps are association lists as in \<open>Metadata\<close>, so that every iteration order is
  covered. The clock is an argument: each operation takes the instants its calls of
  \<open>time.Now\<close> return. The mutex makes the operations atomic, so an execution is a sequence
  of steps (\<open>reg_step\<close>). The abstract view \<open>instances\<close> is a flat map from service and
  address to the instance; the locale \<open>service_directory\<close> is what the TCP front end
  relies on.
\<close>

record ServiceInfo =
  Name :: string
  Addr :: string
  Info_Metadata :: "(string \<times> string) list"
  StartTime :: time
  LastPing :: time

type_synonym services = "(string \<times> ServiceInfo) list"

record Registry =
  servers :: "(string \<times> services) list"
  reg_timeout :: duration

section \<open>Operations\<close>

definition NewRegistry :: "duration \<Rightarrow> Registry" where
  "NewRegistry d = \<lparr>servers = [], reg_timeout = d\<rparr>"

definition Register :: "time \<Rightarrow> time \<Rightarrow> string \<Rightarrow> string \<Rightarrow> (string \<times> string) list \<Rightarrow> Registry \<Rightarrow> Registry" where
  "Register now1 now2 serviceName addr md r =
     (let services = (case map_of (servers r) serviceName of Some s \<Rightarrow> s | None \<Rightarrow> []);
          info = \<lparr>Name = serviceName, Addr = addr, Info_Metadata = md, StartTime = now1, LastPing = now2\<rparr>
      in r\<lparr>servers := AList.update serviceName (AList.update addr info services) (servers r)\<rparr>)"

definition service_not_found :: "string \<Rightarrow> goerr" where
  "service_not_found serviceName = Errorf (''service '' @ serviceName @ '' not found'')"

definition addr_not_found :: "string \<Rightarrow> string \<Rightarrow> goerr" where
  "addr_not_found addr serviceName = Errorf (''addr '' @ addr @ '' not found for service '' @ serviceName)"

definition Unregister :: "string \<Rightarrow> string \<Rightarrow> Registry \<Rightarrow> goerr option \<times> Registry" where
  "Unregister serviceName addr r =
     (case map_of (servers r) serviceName of
        None \<Rightarrow> (Some (service_not_found serviceName), r)
      | Some services \<Rightarrow>
          (case map_of services addr of
             None \<Rightarrow> (Some (addr_not_found addr serviceName), r)
           | Some _ \<Rightarrow>
               (let services = AList.delete addr services in
                if length services = 0
                then (None, r\<lparr>servers := AList.delete serviceName (servers r)\<rparr>)
                else (None, r\<lparr>servers := AList.update serviceName services (servers r)\<rparr>))))"

definition Heartbeat :: "time \<Rightarrow> string \<Rightarrow> string \<Rightarrow> Registry \<Rightarrow> goerr option \<times> Registry" where
  "Heartbeat now serviceName addr r =
     (case map_of (servers r) serviceName of
        None \<Rightarrow> (Some (service_not_found serviceName), r)
      | Some services \<Rightarrow>
          (case map_of services addr of
             None \<Rightarrow> (Some (addr_not_found addr serviceName), r)
           | Some service \<Rightarrow>
               (None, r\<lparr>servers := AList.update serviceName
                         (AList.update addr (service\<lparr>LastPing := now\<rparr>) services) (servers r)\<rparr>)))"

definition IsExpired :: "time \<Rightarrow> string \<Rightarrow> string \<Rightarrow> Registry \<Rightarrow> bool" where
  "IsExpired now serviceName addr r =
     (case map_of (servers r) serviceName of
        None \<Rightarrow> True
      | Some services \<Rightarrow>
          (case map_of services addr of
             None \<Rightarrow> True
           | Some service \<Rightarrow> now - LastPing service > reg_timeout r))"

definition GetService :: "string \<Rightarrow> Registry \<Rightarrow> goerr + string list" where
  "GetService serviceName r =
     (case map_of (servers r) serviceName of
        None \<Rightarrow> Inl (Errorf (''no available services for '' @ serviceName))
      | Some services \<Rightarrow>
          if length services = 0 then Inl (Errorf (''no available services for '' @ serviceName))
          else Inr (map fst services))"

definition GetAllServices :: "Registry \<Rightarrow> string list" where
  "GetAllServices r = map fst (servers r)"

text \<open>One tick of the cleaner: the nested loops that delete while they range.\<close>

fun clean_services :: "time \<Rightarrow> duration \<Rightarrow> services \<Rightarrow> services" where
  "clean_services now d [] = []"
| "clean_services now d ((addr, svc) # rest) =
     (if now - LastPing svc > d then clean_services now d rest
      else (addr, svc) # clean_services now d rest)"

fun clean_servers :: "time \<Rightarrow> duration \<Rightarrow> (string \<times> services) list \<Rightarrow> (string \<times> services) list" where
  "clean_servers now d [] = []"
| "clean_servers now d ((svcName, services) # rest) =
     (let services = clean_services now d services in
      if length services = 0 then clean_servers now d rest
      else (svcName, services) # clean_servers now d rest)"

definition cleanExpiredServers :: "time \<Rightarrow> Registry \<Rightarrow> Registry" where
  "cleanExpiredServers now r = r\<lparr>servers := clean_servers now (reg_timeout r) (servers r)\<rparr>"

section \<open>Invariant and abstract view\<close>

text \<open>
  One entry per key at both levels, no service without instances, and every instance
  stored under its own name and address.
\<close>

definition inst_ok :: "string \<Rightarrow> services \<Rightarrow> bool" where
  "inst_ok svc s \<longleftrightarrow> s \<noteq> [] \<and> distinct (map fst s) \<and> (\<forall>(addr, info) \<in> set s. Name info = svc \<and> Addr info = addr)"

definition reg_ok :: "Registry \<Rightarrow> bool" where
  "reg_ok r \<longleftrightarrow> distinct (map fst (servers r)) \<and> (\<forall>(svc, s) \<in> set (servers r). inst_ok svc s)"

type_synonym directory = "string \<times> string \<Rightarrow> ServiceInfo option"

definition instances :: "Registry \<Rightarrow> directory" where
  "instances r = (\<lambda>(svc, addr). case map_of (servers r) svc of None \<Rightarrow> None | Some s \<Rightarrow> map_of s addr)"

lemma reg_okD: "reg_ok r \<Longrightarrow> map_of (servers r) svc = Some s \<Longrightarrow> inst_ok svc s"
  using map_of_SomeD by (fastforce simp: reg_ok_def)

lemma set_update_subset: "set (AList.update k v xs) \<subseteq> insert (k, v) (set xs)"
  by (induction xs) auto

lemma set_delete_subset: "set (AList.delete k xs) \<subseteq> set xs"
  by (auto simp: AList.delete_eq)

lemma reg_ok_update:
  "reg_ok r \<Longrightarrow> inst_ok svc s \<Longrightarrow> reg_ok (r\<lparr>servers := AList.update svc s (servers r)\<rparr>)"
  using set_update_subset [of svc s "servers r"] by (auto simp: reg_ok_def distinct_update)

lemma reg_ok_delete: "reg_ok r \<Longrightarrow> reg_ok (r\<lparr>servers := AList.delete svc (servers r)\<rparr>)"
  using set_delete_subset [of svc "servers r"] by (auto simp: reg_ok_def distinct_delete)

lemma inst_ok_update:
  "s = [] \<or> inst_ok svc s \<Longrightarrow> Name info = svc \<Longrightarrow> Addr info = addr \<Longrightarrow> inst_ok svc (AList.update addr info s)"
  using set_update_subset [of addr info s] by (auto simp: inst_ok_def distinct_update update_nonempty)

lemma inst_ok_delete: "inst_ok svc s \<Longrightarrow> AList.delete addr s \<noteq> [] \<Longrightarrow> inst_ok svc (AList.delete addr s)"
  using set_delete_subset [of addr s] by (auto simp: inst_ok_def distinct_delete)

lemma instances_update [simp]:
  "instances (r\<lparr>servers := AList.update svc s (servers r)\<rparr>) (svc', a) =
     (if svc = svc' then map_of s a else instances r (svc', a))"
  by (simp add: instances_def update_conv')

lemma instances_delete [simp]:
  "instances (r\<lparr>servers := AList.delete svc (servers r)\<rparr>) (svc', a) =
     (if svc = svc' then None else instances r (svc', a))"
  by (simp add: instances_def delete_conv')

lemma clean_services_filter: "clean_services now d s = filter (\<lambda>(_, i). \<not> now - LastPing i > d) s"
  by (induction s rule: clean_services.induct) auto

lemma inst_ok_clean: "inst_ok svc s \<Longrightarrow> clean_services now d s \<noteq> [] \<Longrightarrow> inst_ok svc (clean_services now d s)"
  by (auto simp: inst_ok_def clean_services_filter distinct_map_filter)

lemma fst_clean_servers: "fst ` set (clean_servers now d ss) \<subseteq> fst ` set ss"
  by (induction ss rule: clean_servers.induct) (auto simp: Let_def)

lemma clean_servers_ok:
  "distinct (map fst ss) \<Longrightarrow> \<forall>(svc, s) \<in> set ss. inst_ok svc s \<Longrightarrow>
   distinct (map fst (clean_servers now d ss)) \<and> (\<forall>(svc, s) \<in> set (clean_servers now d ss). inst_ok svc s)"
proof (induction ss rule: clean_servers.induct)
  case (1 now d)
  then show ?case by simp
next
  case (2 now d svc s rest)
  then show ?case using fst_clean_servers [of now d rest] by (auto simp: Let_def inst_ok_clean)
qed

lemma map_of_clean_services:
  "distinct (map fst s) \<Longrightarrow> map_of (clean_services now d s) a =
     (case map_of s a of None \<Rightarrow> None | Some i \<Rightarrow> if now - LastPing i > d then None else Some i)"
proof (induction now d s rule: clean_services.induct)
  case (1 now d)
  then show ?case by simp
next
  case (2 now d addr svc rest)
  then have "map_of rest addr = None" by (simp add: map_of_eq_None_iff)
  with 2 show ?case by auto
qed

lemma map_of_clean_servers:
  "distinct (map fst ss) \<Longrightarrow> map_of (clean_servers now d ss) svc =
     (case map_of ss svc of None \<Rightarrow> None
      | Some s \<Rightarrow> if clean_services now d s = [] then None else Some (clean_services now d s))"
proof (induction now d ss rule: clean_servers.induct)
  case (1 now d)
  then show ?case by simp
next
  case (2 now d svcName s rest)
  then have "map_of rest svcName = None" by (simp add: map_of_eq_None_iff)
  with 2 show ?case by (auto simp: Let_def)
qed

section \<open>Refinement of a flat directory\<close>

datatype reg_op =
    RegisterOp time time string string "(string \<times> string) list"
  | UnregisterOp string string
  | HeartbeatOp time string string
  | CleanOp time

fun run_op :: "reg_op \<Rightarrow> Registry \<Rightarrow> goerr option \<times> Registry" where
  "run_op (RegisterOp now1 now2 svc addr md) r = (None, Register now1 now2 svc addr md r)"
| "run_op (UnregisterOp svc addr) r = Unregister svc addr r"
| "run_op (HeartbeatOp now svc addr) r = Heartbeat now svc addr r"
| "run_op (CleanOp now) r = (None, cleanExpiredServers now r)"

fun flat_op :: "duration \<Rightarrow> reg_op \<Rightarrow> directory \<Rightarrow> directory" where
  "flat_op d (RegisterOp now1 now2 svc addr md) m =
     m((svc, addr) \<mapsto> \<lparr>Name = svc, Addr = addr, Info_Metadata = md, StartTime = now1, LastPing = now2\<rparr>)"
| "flat_op d (UnregisterOp svc addr) m = m((svc, addr) := None)"
| "flat_op d (HeartbeatOp now svc addr) m =
     (case m (svc, addr) of None \<Rightarrow> m | Some i \<Rightarrow> m((svc, addr) \<mapsto> i\<lparr>LastPing := now\<rparr>))"
| "flat_op d (CleanOp now) m =
     (\<lambda>k. case m k of None \<Rightarrow> None | Some i \<Rightarrow> if now - LastPing i > d then None else Some i)"

text \<open>The error an operation reports, read off the flat directory.\<close>

definition missing :: "string \<Rightarrow> string \<Rightarrow> directory \<Rightarrow> goerr option" where
  "missing svc addr m =
     (if \<forall>a. m (svc, a) = None then Some (service_not_found svc)
      else if m (svc, addr) = None then Some (addr_not_found addr svc) else None)"

fun flat_error :: "reg_op \<Rightarrow> directory \<Rightarrow> goerr option" where
  "flat_error (UnregisterOp svc addr) m = missing svc addr m"
| "flat_error (HeartbeatOp now svc addr) m = missing svc addr m"
| "flat_error op m = None"

lemma reg_ok_run_op: "reg_ok r \<Longrightarrow> reg_ok (snd (run_op op r))"
proof (induction op r rule: run_op.induct)
  case (1 now1 now2 svc addr md r)
  then show ?case
    by (auto simp: Register_def Let_def inst_ok_def [of svc "[_]"] split: option.splits
        intro!: reg_ok_update inst_ok_update dest: reg_okD)
next
  case (2 svc addr r)
  then show ?case
    by (auto simp: Unregister_def Let_def split: option.splits intro!: reg_ok_update reg_ok_delete inst_ok_delete dest: reg_okD)
next
  case (3 now svc addr r)
  then show ?case
    using map_of_SomeD by (fastforce simp: Heartbeat_def inst_ok_def split: option.splits
        intro!: reg_ok_update inst_ok_update dest: reg_okD)
next
  case (4 now r)
  then show ?case using clean_servers_ok [of "servers r"] by (simp add: cleanExpiredServers_def reg_ok_def)
qed

lemma no_instance:
  "reg_ok r \<Longrightarrow> (\<forall>a. instances r (svc, a) = None) \<longleftrightarrow> map_of (servers r) svc = None"
proof (cases "map_of (servers r) svc")
  case (Some s)
  moreover assume "reg_ok r"
  ultimately have "s \<noteq> []" using reg_okD by (fastforce simp: inst_ok_def)
  then have "map_of s (fst (hd s)) \<noteq> None" by (cases s) auto
  with Some show ?thesis by (auto simp: instances_def)
qed (simp add: instances_def)

lemma run_op_error: "reg_ok r \<Longrightarrow> fst (run_op op r) = flat_error op (instances r)"
proof (induction op r rule: run_op.induct)
  case (2 svc addr r)
  then show ?case unfolding run_op.simps flat_error.simps missing_def no_instance [OF 2]
    by (auto simp: Unregister_def instances_def Let_def split: option.splits)
next
  case (3 now svc addr r)
  then show ?case unfolding run_op.simps flat_error.simps missing_def no_instance [OF 3]
    by (auto simp: Heartbeat_def instances_def split: option.splits)
qed simp_all

lemma instances_Register:
  "instances (Register now1 now2 svc addr md r) = flat_op d (RegisterOp now1 now2 svc addr md) (instances r)"
  by (rule ext) (auto simp: Register_def Let_def instances_def update_conv' split: option.splits if_splits)

lemma instances_Unregister:
  assumes "reg_ok r"
  shows "instances (snd (Unregister svc addr r)) = (instances r)((svc, addr) := None)"
proof
  fix k :: "string \<times> string"
  obtain svc' a where k: "k = (svc', a)" by (cases k)
  show "instances (snd (Unregister svc addr r)) k = ((instances r)((svc, addr) := None)) k"
  proof (cases "map_of (servers r) svc")
    case None
    then show ?thesis by (auto simp: k Unregister_def instances_def)
  next
    case (Some s)
    have "map_of (AList.delete addr s) a' = (if a' = addr then None else map_of s a')" for a'
      by (simp add: delete_conv')
    moreover have "AList.delete addr s = [] \<Longrightarrow> a' \<noteq> addr \<Longrightarrow> map_of s a' = None" for a'
      using calculation [of a'] by simp
    ultimately show ?thesis
      using Some by (auto simp: k Unregister_def Let_def instances_def update_conv' delete_conv' split: option.split)
  qed
qed

lemma instances_Heartbeat:
  "instances (snd (Heartbeat now svc addr r)) = flat_op d (HeartbeatOp now svc addr) (instances r)"
  by (rule ext) (auto simp: Heartbeat_def instances_def update_conv' split: option.splits if_splits)

lemma instances_clean:
  assumes "reg_ok r"
  shows "instances (cleanExpiredServers now r) = flat_op (reg_timeout r) (CleanOp now) (instances r)"
proof
  fix k :: "string \<times> string"
  obtain svc a where k: "k = (svc, a)" by (cases k)
  have d: "distinct (map fst (servers r))" using assms by (simp add: reg_ok_def)
  show "instances (cleanExpiredServers now r) k = flat_op (reg_timeout r) (CleanOp now) (instances r) k"
  proof (cases "map_of (servers r) svc")
    case None
    with d show ?thesis by (simp add: k cleanExpiredServers_def instances_def map_of_clean_servers)
  next
    case (Some s)
    have s: "distinct (map fst s)" using reg_okD [OF assms Some] by (simp add: inst_ok_def)
    have "clean_services now (reg_timeout r) s = [] \<Longrightarrow>
        (case map_of s a of None \<Rightarrow> None | Some i \<Rightarrow> if now - LastPing i > reg_timeout r then None else Some i) = None"
      using map_of_clean_services [OF s, of now "reg_timeout r" a] by simp
    with Some d s show ?thesis
      by (auto simp: k cleanExpiredServers_def instances_def map_of_clean_servers map_of_clean_services)
  qed
qed

lemma instances_run_op:
  "reg_ok r \<Longrightarrow> instances (snd (run_op op r)) = flat_op (reg_timeout r) op (instances r)"
  by (cases op) (simp_all add: instances_Register [where d = "reg_timeout r"] instances_Unregister
      instances_Heartbeat [where d = "reg_timeout r"] instances_clean del: flat_op.simps(1,3,4))

lemma timeout_run_op [simp]: "reg_timeout (snd (run_op op r)) = reg_timeout r"
  by (cases op) (auto simp: Register_def Unregister_def Heartbeat_def cleanExpiredServers_def Let_def split: option.splits)

lemma GetService_instances:
  assumes "reg_ok r"
  shows "case GetService svc r of
      Inr addrs \<Rightarrow> addrs \<noteq> [] \<and> distinct addrs \<and> set addrs = {a. instances r (svc, a) \<noteq> None}
    | Inl e \<Rightarrow> e = Errorf (''no available services for '' @ svc) \<and> (\<forall>a. instances r (svc, a) = None)"
proof (cases "map_of (servers r) svc")
  case None
  then show ?thesis by (simp add: GetService_def instances_def)
next
  case (Some s)
  with assms have "inst_ok svc s" by (rule reg_okD)
  with Some show ?thesis
    by (auto simp: GetService_def instances_def inst_ok_def map_of_eq_None_iff dest: map_of_SomeD weak_map_of_SomeI)
qed

section \<open>Executions\<close>

lemma reg_ok_NewRegistry [simp]: "reg_ok (NewRegistry d)" "reg_timeout (NewRegistry d) = d"
  by (simp_all add: NewRegistry_def reg_ok_def)

inductive reg_step :: "Registry \<Rightarrow> Registry \<Rightarrow> bool" where
  "reg_step r (snd (run_op op r))"

inductive_cases reg_stepE: "reg_step r r'"

interpretation reg: invariant_system "\<lambda>r. r = NewRegistry d" reg_step
  "\<lambda>r. reg_ok r \<and> reg_timeout r = d" for d
  by unfold_locales (auto simp: reg_ok_NewRegistry reg_ok_run_op elim!: reg_stepE)

text \<open>
  What a client of a directory of leases may rely on. \<open>keeps d t k\<close> holds of operations
  that do not end a lease of \<open>k\<close> last renewed at \<open>t\<close>; \<open>silent k\<close> of those that do not
  renew it.
\<close>

fun keeps :: "duration \<Rightarrow> time \<Rightarrow> string \<times> string \<Rightarrow> reg_op \<Rightarrow> bool" where
  "keeps d t k (RegisterOp now1 now2 svc addr md) \<longleftrightarrow> k = (svc, addr) \<longrightarrow> now2 \<ge> t"
| "keeps d t k (UnregisterOp svc addr) \<longleftrightarrow> k \<noteq> (svc, addr)"
| "keeps d t k (HeartbeatOp now svc addr) \<longleftrightarrow> k = (svc, addr) \<longrightarrow> now \<ge> t"
| "keeps d t k (CleanOp now) \<longleftrightarrow> now - t \<le> d"

fun silent :: "string \<times> string \<Rightarrow> reg_op \<Rightarrow> bool" where
  "silent k (RegisterOp now1 now2 svc addr md) \<longleftrightarrow> k \<noteq> (svc, addr)"
| "silent k (HeartbeatOp now svc addr) \<longleftrightarrow> k \<noteq> (svc, addr)"
| "silent k op \<longleftrightarrow> True"

locale service_directory =
  fixes run :: "reg_op \<Rightarrow> 'r \<Rightarrow> 'r"
    and view :: "'r \<Rightarrow> directory"
    and ok :: "'r \<Rightarrow> bool"
    and ttl :: "'r \<Rightarrow> duration"
  assumes run_ok: "ok r \<Longrightarrow> ok (run op r)"
    and run_view: "ok r \<Longrightarrow> view (run op r) = flat_op (ttl r) op (view r)"
    and run_ttl: "ttl (run op r) = ttl r"
begin

lemma lease_kept_step:
  assumes "ok r" "keeps (ttl r) t k op" "\<exists>i. view r k = Some i \<and> t \<le> LastPing i"
  shows "\<exists>i. view (run op r) k = Some i \<and> t \<le> LastPing i"
  using assms run_view [OF assms(1), of op] by (cases op) (auto split: option.splits)

lemma lease_kept:
  "ok r \<Longrightarrow> \<forall>op \<in> set ops. keeps (ttl r) t k op \<Longrightarrow> \<exists>i. view r k = Some i \<and> t \<le> LastPing i \<Longrightarrow>
   ok (fold run ops r) \<and> (\<exists>i. view (fold run ops r) k = Some i \<and> t \<le> LastPing i)"
proof (induction ops arbitrary: r)
  case Nil
  then show ?case by simp
next
  case (Cons op ops)
  then have "\<exists>i. view (run op r) k = Some i \<and> t \<le> LastPing i" by (intro lease_kept_step) auto
  with Cons show ?case by (simp add: run_ok run_ttl)
qed

lemma silent_step:
  assumes "ok r" "silent k op" "\<forall>i. view r k = Some i \<longrightarrow> P (LastPing i)"
  shows "\<forall>i. view (run op r) k = Some i \<longrightarrow> P (LastPing i)"
  using assms(2,3) unfolding run_view [OF assms(1)] by (cases op) (auto split: option.splits)

lemma silent_fold:
  "ok r \<Longrightarrow> \<forall>op \<in> set ops. silent k op \<Longrightarrow> \<forall>i. view r k = Some i \<longrightarrow> P (LastPing i) \<Longrightarrow>
   ok (fold run ops r) \<and> ttl (fold run ops r) = ttl r \<and> (\<forall>i. view (fold run ops r) k = Some i \<longrightarrow> P (LastPing i))"
proof (induction ops arbitrary: r)
  case Nil
  then show ?case by simp
next
  case (Cons op ops)
  have "silent k op" using Cons.prems(2) by simp
  from silent_step [OF Cons.prems(1) this Cons.prems(3)]
  have "\<forall>i. view (run op r) k = Some i \<longrightarrow> P (LastPing i)" .
  from Cons.IH [OF run_ok [OF Cons.prems(1)] _ this] Cons.prems(2) show ?case by (simp add: run_ttl)
qed

lemma lease_ends:
  assumes "ok r" "\<forall>op \<in> set ops. silent k op" "\<forall>i. view r k = Some i \<longrightarrow> LastPing i \<le> t"
    and "CleanOp now \<in> set ops" "now - t > ttl r"
  shows "ok (fold run ops r) \<and> view (fold run ops r) k = None"
proof -
  obtain pre post where ops: "ops = pre @ CleanOp now # post" using split_list [OF assms(4)] by blast
  let ?r1 = "fold run pre r" and ?r2 = "run (CleanOp now) (fold run pre r)"
  have r1: "ok ?r1" "ttl ?r1 = ttl r" "\<forall>i. view ?r1 k = Some i \<longrightarrow> LastPing i \<le> t"
    using silent_fold [OF assms(1), of pre k "\<lambda>p. p \<le> t"] assms(2,3) by (simp_all add: ops)
  have "view ?r2 k = None"
    unfolding run_view [OF r1(1)] using r1 assms(5) by (cases "view ?r1 k") auto
  then show ?thesis
    using silent_fold [of ?r2 post k "\<lambda>_. False"] run_ok [OF r1(1)] assms(2) by (simp add: ops)
qed

end

interpretation dir: service_directory "\<lambda>op r. snd (run_op op r)" instances reg_ok reg_timeout
  by unfold_locales (simp_all add: reg_ok_run_op instances_run_op)

section \<open>Properties\<close>

text \<open>
  \<^bold>\<open>C10\<close>. The nested maps of the registry implement a flat directory of instances: in every
  state reachable from a new registry, each operation has exactly the effect of the
  flat one and reports exactly the errors the flat directory calls for, and
  \<open>GetService\<close> lists the registered addresses of the service without duplicates, with
  an error exactly when there is none.
\<close>

theorem registry_refines_directory:
  assumes "reach (\<lambda>r. r = NewRegistry d) reg_step r"
  shows "fst (run_op op r) = flat_error op (instances r)
    \<and> instances (snd (run_op op r)) = flat_op d op (instances r)
    \<and> (case GetService svc r of
         Inr addrs \<Rightarrow> addrs \<noteq> [] \<and> distinct addrs \<and> set addrs = {a. instances r (svc, a) \<noteq> None}
       | Inl e \<Rightarrow> e = Errorf (''no available services for '' @ svc) \<and> (\<forall>a. instances r (svc, a) = None))"
proof -
  from reg.reach_inv [OF assms] have "reg_ok r" "reg_timeout r = d" by simp_all
  then show ?thesis
    by (intro conjI run_op_error GetService_instances) (simp_all add: instances_run_op)
qed

lemma reach_Register: "reach (\<lambda>r. r = NewRegistry d) reg_step (Register t1 t2 svc addr md (NewRegistry d))"
proof (rule reach_step)
  show "reach (\<lambda>r. r = NewRegistry d) reg_step (NewRegistry d)" by (rule reach_init) simp
  show "reg_step (NewRegistry d) (Register t1 t2 svc addr md (NewRegistry d))"
    using reg_step.intros [of "NewRegistry d" "RegisterOp t1 t2 svc addr md"] by simp
qed

theorem registry_refines_directory_witness:
  "let r = Register 0 1 ''hello'' ''h1:80'' [] (NewRegistry 60) in
     fst (run_op (UnregisterOp ''hello'' ''h2:80'') r) = flat_error (UnregisterOp ''hello'' ''h2:80'') (instances r)
    \<and> instances (snd (run_op (UnregisterOp ''hello'' ''h2:80'') r)) = flat_op 60 (UnregisterOp ''hello'' ''h2:80'') (instances r)
    \<and> (case GetService ''hello'' r of
         Inr addrs \<Rightarrow> addrs \<noteq> [] \<and> distinct addrs \<and> set addrs = {a. instances r (''hello'', a) \<noteq> None}
       | Inl e \<Rightarrow> e = Errorf (''no available services for '' @ ''hello'') \<and> (\<forall>a. instances r (''hello'', a) = None))"
  unfolding Let_def by (rule registry_refines_directory [OF reach_Register])

text \<open>
  \<^bold>\<open>C11\<close>. A registration is a lease: after \<open>Register\<close> at time \<open>t\<close>, whatever other operations
  follow (other services, other addresses, later heartbeats, clean-ups no later than
  \<open>t\<close> plus the timeout) the address is listed by \<open>GetService\<close>, as long as it is not
  itself unregistered.
\<close>

theorem registration_kept:
  assumes "reg_ok r" and "\<forall>op \<in> set ops. keeps (reg_timeout r) t (svc, addr) op"
  shows "\<exists>addrs. GetService svc (fold (\<lambda>op r. snd (run_op op r)) ops (Register t0 t svc addr md r)) = Inr addrs
    \<and> addr \<in> set addrs"
proof -
  let ?r = "Register t0 t svc addr md r"
  have r: "reg_ok ?r" "reg_timeout ?r = reg_timeout r"
    using reg_ok_run_op [OF assms(1), of "RegisterOp t0 t svc addr md"]
      timeout_run_op [of "RegisterOp t0 t svc addr md" r] by simp_all
  have "\<exists>i. instances ?r (svc, addr) = Some i \<and> t \<le> LastPing i"
    by (simp add: instances_Register [where d = 0])
  from dir.lease_kept [OF r(1) _ this, of ops] assms(2) r(2)
  have "reg_ok (fold (\<lambda>op r. snd (run_op op r)) ops ?r)"
    "instances (fold (\<lambda>op r. snd (run_op op r)) ops ?r) (svc, addr) \<noteq> None" by auto
  then show ?thesis using GetService_instances [of "fold (\<lambda>op r. snd (run_op op r)) ops ?r" svc]
    by (cases "GetService svc (fold (\<lambda>op r. snd (run_op op r)) ops ?r)") auto
qed

theorem registration_kept_witness:
  "\<exists>addrs. GetService ''s'' (fold (\<lambda>op r. snd (run_op op r)) [CleanOp 50, UnregisterOp ''s'' ''b'', HeartbeatOp 55 ''s'' ''a'']
      (Register 0 0 ''s'' ''a'' [] (NewRegistry 60))) = Inr addrs \<and> ''a'' \<in> set addrs"
  by (rule registration_kept) simp_all

text \<open>
  \<^bold>\<open>C12\<close>. An instance that stops sending heartbeats disappears: once a clean-up runs later
  than its last ping plus the timeout, with no heartbeat or registration of it in
  the sequence, it is no longer listed and a look-up calls it expired.
\<close>

theorem silent_instance_removed:
  assumes "reg_ok r" and "\<forall>op \<in> set ops. silent (svc, addr) op"
    and "\<forall>i. instances r (svc, addr) = Some i \<longrightarrow> LastPing i \<le> t"
    and "CleanOp now \<in> set ops" and "now - t > reg_timeout r"
  shows "let r' = fold (\<lambda>op r. snd (run_op op r)) ops r in
    IsExpired later svc addr r' \<and> (case GetService svc r' of Inr addrs \<Rightarrow> addr \<notin> set addrs | Inl _ \<Rightarrow> True)"
proof -
  let ?r = "fold (\<lambda>op r. snd (run_op op r)) ops r"
  have r: "reg_ok ?r" "instances ?r (svc, addr) = None"
    using dir.lease_ends [OF assms] by simp_all
  then have "IsExpired later svc addr ?r" by (auto simp: IsExpired_def instances_def split: option.splits)
  with r show ?thesis using GetService_instances [OF r(1), of svc]
    by (cases "GetService svc ?r") (auto simp: Let_def)
qed

theorem silent_instance_removed_witness:
  "let r' = fold (\<lambda>op r. snd (run_op op r)) [RegisterOp 30 30 ''s'' ''b'' [], CleanOp 61]
       (Register 0 0 ''s'' ''a'' [] (NewRegistry 60)) in
    IsExpired 62 ''s'' ''a'' r' \<and> (case GetService ''s'' r' of Inr addrs \<Rightarrow> ''a'' \<notin> set addrs | Inl _ \<Rightarrow> True)"
proof (rule silent_instance_removed [where now = 61])
  show "reg_ok (Register 0 0 ''s'' ''a'' [] (NewRegistry 60))"
    using reg_ok_run_op [of "NewRegistry 60" "RegisterOp 0 0 ''s'' ''a'' []"] by simp
  show "\<forall>i. instances (Register 0 0 ''s'' ''a'' [] (NewRegistry 60)) (''s'', ''a'') = Some i \<longrightarrow> LastPing i \<le> 0"
    by (simp add: instances_Register [where d = 0])
qed (simp_all add: Register_def NewRegistry_def)

end
