(* ===== verification/Timeout.thy ===== *)
theory Timeout
  imports Prelude "HOL-Library.Signed_Division"
begin

text \<open>
  The \<^verbatim>\<open>zrpc-timeout\<close> header (\<^verbatim>\<open>protocol/timeout.go\<close>): a duration is sent as at most
  eight digits and a unit letter. Durations are 64-bit nanosecond counts; Go's
  division truncates (\<open>sdiv\<close>, \<open>smod\<close>) and its multiplication wraps (\<open>wrap64\<close>).
  The lemmas show that the encoder rounds up by less than one part in \<open>99999\<close>,
  always stays within the decoder's length limit, and that the decoder never
  overflows, whatever string it is given.
\<close>

section \<open>Definitions\<close>

definition TimeoutHeader :: string where
  "TimeoutHeader = ''zrpc-timeout''"

definition maxTimeoutValue :: int where
  "maxTimeoutValue = 100000000 - 1"

definition Nanosecond :: duration where "Nanosecond = 1"
definition Microsecond :: duration where "Microsecond = 1000 * Nanosecond"
definition Millisecond :: duration where "Millisecond = 1000 * Microsecond"
definition Second :: duration where "Second = 1000 * Millisecond"
definition Minute :: duration where "Minute = 60 * Second"
definition Hour :: duration where "Hour = 60 * Minute"

definition MaxInt64 :: int where "MaxInt64 = 2 ^ 63 - 1"

lemmas duration_units = Nanosecond_def Microsecond_def Millisecond_def Second_def Minute_def Hour_def

definition wrap64 :: "int \<Rightarrow> int" where
  "wrap64 x = signed_take_bit 63 x"

definition timeoutUnitToDuration :: "char \<Rightarrow> duration option" where
  "timeoutUnitToDuration u =
     (if u = CHR ''H'' then Some Hour
      else if u = CHR ''M'' then Some Minute
      else if u = CHR ''S'' then Some Second
      else if u = CHR ''m'' then Some Millisecond
      else if u = CHR ''u'' then Some Microsecond
      else if u = CHR ''n'' then Some Nanosecond
      else None)"

definition div_timeout :: "duration \<Rightarrow> duration \<Rightarrow> int" where
  "div_timeout d r = (if d smod r > 0 then d sdiv r + 1 else d sdiv r)"

definition EncodeTimeout :: "duration \<Rightarrow> string" where
  "EncodeTimeout t =
     (if t \<le> 0 then ''0n''
      else let d = div_timeout t Nanosecond in if d \<le> maxTimeoutValue then FormatInt (nat d) @ ''n''
      else let d = div_timeout t Microsecond in if d \<le> maxTimeoutValue then FormatInt (nat d) @ ''u''
      else let d = div_timeout t Millisecond in if d \<le> maxTimeoutValue then FormatInt (nat d) @ ''m''
      else let d = div_timeout t Second in if d \<le> maxTimeoutValue then FormatInt (nat d) @ ''S''
      else let d = div_timeout t Minute in if d \<le> maxTimeoutValue then FormatInt (nat d) @ ''M''
      else FormatInt (nat (div_timeout t Hour)) @ ''H'')"

definition maxHours :: int where
  "maxHours = MaxInt64 div Hour"

definition quoted :: "string \<Rightarrow> string" where
  "quoted s = [CHR 0x22] @ s @ [CHR 0x22]"

definition DecodeTimeout :: "string \<Rightarrow> goerr + duration" where
  "DecodeTimeout s =
     (if length s < 2 then Inl (Errorf (''timeout string is too short: '' @ quoted s))
      else if length s > 9 then Inl (Errorf (''timeout string is too long: '' @ quoted s))
      else case timeoutUnitToDuration (last s) of
             None \<Rightarrow> Inl (Errorf (''timeout unit is not recognized: '' @ quoted s))
           | Some d \<Rightarrow>
               (case ParseUint (butlast s) of
                  Inl e \<Rightarrow> Inl e
                | Inr t \<Rightarrow>
                    if d = Hour \<and> int t > maxHours then Inr MaxInt64
                    else Inr (wrap64 (d * wrap64 (int t)))))"

section \<open>Rounding\<close>

lemma wrap64_id: "- (2 ^ 63) \<le> x \<Longrightarrow> x < 2 ^ 63 \<Longrightarrow> wrap64 x = x"
  by (simp add: wrap64_def signed_take_bit_int_eq_self)

lemma div_timeout_ceil:
  "0 \<le> d \<Longrightarrow> 0 < r \<Longrightarrow> d \<le> div_timeout d r * r \<and> div_timeout d r * r < d + r"
proof -
  assume a: "0 \<le> d" "0 < r"
  then have "d sdiv r = d div r" "d smod r = d mod r"
    by (simp_all add: signed_divide_int_def signed_modulo_int_def sgn_if)
  moreover obtain q m where "d div r = q" "d mod r = m" and "d = q * r + m" "0 \<le> m" "m < r"
    using a div_mult_mod_eq [of d r] pos_mod_sign [of r d] pos_mod_bound [of r d] by metis
  ultimately show ?thesis by (auto simp: div_timeout_def algebra_simps)
qed

text \<open>Each unit of the encoder is tried only after the previous one gave more than eight digits.\<close>

lemma div_timeout_too_big:
  assumes "0 \<le> t" "0 < r" "\<not> div_timeout t r \<le> maxTimeoutValue"
  shows "99999999 * r < t"
proof -
  from assms(3) have "100000000 * r \<le> div_timeout t r * r"
    using \<open>0 < r\<close> by (intro mult_right_mono) (auto simp: maxTimeoutValue_def)
  moreover have "div_timeout t r * r < t + r" using div_timeout_ceil [of t r] assms(1,2) by blast
  ultimately show ?thesis by linarith
qed

lemma div_timeout_nonneg: "0 \<le> d \<Longrightarrow> 0 < r \<Longrightarrow> 0 \<le> div_timeout d r"
  by (simp add: div_timeout_def signed_divide_int_def sgn_if pos_imp_zdiv_nonneg_iff)

section \<open>Decoding an encoded number\<close>

lemma DecodeTimeout_FormatInt:
  assumes "n \<le> 99999999" "timeoutUnitToDuration u = Some d"
  shows "DecodeTimeout (FormatInt n @ [u]) =
    (if d = Hour \<and> int n > maxHours then Inr MaxInt64 else Inr (wrap64 (d * wrap64 (int n))))"
proof -
  have "length (FormatInt n) \<le> 8" using assms(1) length_FormatInt [of n 8] by simp
  moreover have "0 < length (FormatInt n)" by simp
  ultimately have "\<not> length (FormatInt n @ [u]) < 2" "\<not> length (FormatInt n @ [u]) > 9"
    by simp_all
  then show ?thesis using assms by (simp add: DecodeTimeout_def)
qed

lemma unit_product:
  assumes "timeoutUnitToDuration u = Some d" "d \<noteq> Hour \<or> int n \<le> maxHours" "n \<le> 99999999"
  shows "wrap64 (d * wrap64 (int n)) = d * int n \<and> 0 \<le> d * int n \<and> d * int n \<le> MaxInt64"
proof -
  have "wrap64 (int n) = int n" using assms(3) by (intro wrap64_id) simp_all
  moreover have "0 \<le> d * int n \<and> d * int n \<le> MaxInt64"
    using assms by (auto simp: timeoutUnitToDuration_def duration_units maxHours_def MaxInt64_def
        split: if_splits)
  ultimately show ?thesis by (simp add: wrap64_id MaxInt64_def)
qed

text \<open>One rounding step: the chosen unit is at most a thousand times the rejected one.\<close>

lemma encode_step:
  assumes t: "0 < t" "t \<le> MaxInt64" and u: "timeoutUnitToDuration u = Some d" "d \<noteq> Hour"
    and prev: "0 < p" "99999999 * p < t" "d \<le> 1000 * p"
    and fits: "div_timeout t d \<le> maxTimeoutValue"
  shows "\<exists>r. DecodeTimeout (FormatInt (nat (div_timeout t d)) @ [u]) = Inr r \<and> t \<le> r \<and> 99999 * (r - t) < t"
proof -
  have d: "0 < d" using u by (auto simp: timeoutUnitToDuration_def duration_units split: if_splits)
  let ?n = "nat (div_timeout t d)"
  have n: "int ?n = div_timeout t d" "?n \<le> 99999999"
    using div_timeout_nonneg [of t d] t d fits by (auto simp: maxTimeoutValue_def)
  have "DecodeTimeout (FormatInt ?n @ [u]) = Inr (d * int ?n)"
    using DecodeTimeout_FormatInt [OF n(2) u(1)] unit_product [OF u(1) _ n(2)] u(2) by simp
  moreover have "t \<le> d * int ?n" "d * int ?n < t + d"
    using div_timeout_ceil [of t d] t d n(1) by (simp_all add: mult.commute)
  ultimately show ?thesis using prev by auto
qed

lemma encode_nanoseconds:
  assumes t: "0 < t" "div_timeout t Nanosecond \<le> maxTimeoutValue"
  shows "DecodeTimeout (FormatInt (nat (div_timeout t Nanosecond)) @ ''n'') = Inr t"
proof -
  have eq: "div_timeout t Nanosecond = t"
    using div_timeout_ceil [of t Nanosecond] t by (simp add: Nanosecond_def)
  then have n: "nat t \<le> 99999999" using t by (simp add: maxTimeoutValue_def)
  have u: "timeoutUnitToDuration (CHR ''n'') = Some Nanosecond"
    by (simp add: timeoutUnitToDuration_def)
  show ?thesis
    using DecodeTimeout_FormatInt [OF n u] unit_product [OF u _ n] t eq
    by (simp add: Nanosecond_def Hour_def Minute_def Second_def Millisecond_def Microsecond_def)
qed

lemma encode_hours:
  assumes t: "0 < t" "t \<le> MaxInt64" "99999999 * Minute < t"
  shows "\<exists>r. DecodeTimeout (FormatInt (nat (div_timeout t Hour)) @ ''H'') = Inr r \<and> t \<le> r \<and> 99999 * (r - t) < t"
proof -
  let ?q = "div_timeout t Hour"
  have h: "0 < Hour" by (simp add: duration_units)
  have c: "t \<le> ?q * Hour" "?q * Hour < t + Hour" using div_timeout_ceil [of t Hour] t h by auto
  have q: "0 \<le> ?q" "?q \<le> 2562048"
    using div_timeout_nonneg [of t Hour] c t by (auto simp: duration_units MaxInt64_def)
  then have n: "nat ?q \<le> 99999999" "int (nat ?q) = ?q" by auto
  have u: "timeoutUnitToDuration (CHR ''H'') = Some Hour" by (simp add: timeoutUnitToDuration_def)
  show ?thesis
  proof (cases "?q > maxHours")
    case True
    then have "2562047 * Hour < t" using c by (simp add: maxHours_def MaxInt64_def duration_units)
    then have "99999 * (MaxInt64 - t) < t" by (simp add: duration_units MaxInt64_def)
    with True t DecodeTimeout_FormatInt [OF n(1) u] n(2) show ?thesis by simp
  next
    case False
    then have "DecodeTimeout (FormatInt (nat ?q) @ ''H'') = Inr (Hour * ?q)"
      using DecodeTimeout_FormatInt [OF n(1) u] unit_product [OF u _ n(1)] n(2) by simp
    with c t show ?thesis by (auto simp: duration_units algebra_simps)
  qed
qed

lemma EncodeTimeout_decodes:
  assumes t: "0 < t" "t \<le> MaxInt64"
  shows "\<exists>r. DecodeTimeout (EncodeTimeout t) = Inr r \<and> t \<le> r \<and> 99999 * (r - t) < t"
proof -
  note enc = EncodeTimeout_def Let_def
  note unit = timeoutUnitToDuration_def duration_units
  consider
      (n) "div_timeout t Nanosecond \<le> maxTimeoutValue"
    | (u) "\<not> div_timeout t Nanosecond \<le> maxTimeoutValue" "div_timeout t Microsecond \<le> maxTimeoutValue"
    | (m) "\<not> div_timeout t Nanosecond \<le> maxTimeoutValue" "\<not> div_timeout t Microsecond \<le> maxTimeoutValue"
          "div_timeout t Millisecond \<le> maxTimeoutValue"
    | (S) "\<not> div_timeout t Nanosecond \<le> maxTimeoutValue" "\<not> div_timeout t Microsecond \<le> maxTimeoutValue"
          "\<not> div_timeout t Millisecond \<le> maxTimeoutValue" "div_timeout t Second \<le> maxTimeoutValue"
    | (M) "\<not> div_timeout t Nanosecond \<le> maxTimeoutValue" "\<not> div_timeout t Microsecond \<le> maxTimeoutValue"
          "\<not> div_timeout t Millisecond \<le> maxTimeoutValue" "\<not> div_timeout t Second \<le> maxTimeoutValue"
          "div_timeout t Minute \<le> maxTimeoutValue"
    | (H) "\<not> div_timeout t Nanosecond \<le> maxTimeoutValue" "\<not> div_timeout t Microsecond \<le> maxTimeoutValue"
          "\<not> div_timeout t Millisecond \<le> maxTimeoutValue" "\<not> div_timeout t Second \<le> maxTimeoutValue"
          "\<not> div_timeout t Minute \<le> maxTimeoutValue"
    by blast
  then show ?thesis
  proof cases
    case n
    with t encode_nanoseconds [OF t(1) n] show ?thesis by (simp add: enc)
  next
    case u
    with t encode_step [OF t _ _ _ div_timeout_too_big [OF _ _ u(1)] _ u(2), of "CHR ''u''"]
    show ?thesis by (simp add: enc unit)
  next
    case m
    with t encode_step [OF t _ _ _ div_timeout_too_big [OF _ _ m(2)] _ m(3), of "CHR ''m''"]
    show ?thesis by (simp add: enc unit)
  next
    case S
    with t encode_step [OF t _ _ _ div_timeout_too_big [OF _ _ S(3)] _ S(4), of "CHR ''S''"]
    show ?thesis by (simp add: enc unit)
  next
    case M
    with t encode_step [OF t _ _ _ div_timeout_too_big [OF _ _ M(4)] _ M(5), of "CHR ''M''"]
    show ?thesis by (simp add: enc unit)
  next
    case H
    with t encode_hours [OF t div_timeout_too_big [OF _ _ H(5)]] show ?thesis
      by (simp add: enc unit)
  qed
qed

lemma DecodeTimeout_range:
  assumes "DecodeTimeout s = Inr d"
  shows "0 \<le> d \<and> d \<le> MaxInt64"
proof -
  from assms obtain u n where len: "length s \<le> 9" "2 \<le> length s"
    and u: "timeoutUnitToDuration (last s) = Some u" and n: "ParseUint (butlast s) = Inr n"
    and d: "d = (if u = Hour \<and> int n > maxHours then MaxInt64 else wrap64 (u * wrap64 (int n)))"
    by (auto simp: DecodeTimeout_def split: if_splits option.splits sum.splits)
  have "n < 10 ^ length (butlast s)" using n by (rule ParseUint_bound)
  also have "\<dots> \<le> 10 ^ 8" using len by (intro power_increasing) auto
  finally have "n \<le> 99999999" by simp
  with unit_product [OF u _ this] d show ?thesis by (auto simp: MaxInt64_def split: if_splits)
qed

section \<open>Properties\<close>

text \<open>
  \<^bold>\<open>C7\<close>. A positive timeout survives the header: decoding what \<open>EncodeTimeout\<close>
  printed succeeds, never shortens the timeout, and lengthens it by less than
  one part in 99999.
\<close>

theorem timeout_roundtrip:
  assumes "0 < t" and "t \<le> MaxInt64"
  shows "\<exists>r. DecodeTimeout (EncodeTimeout t) = Inr r \<and> t \<le> r \<and> 99999 * (r - t) < t"
  using EncodeTimeout_decodes [OF assms] .

theorem timeout_roundtrip_witness:
  "\<exists>r. DecodeTimeout (EncodeTimeout 1500000001) = Inr r \<and> 1500000001 \<le> r \<and> 99999 * (r - 1500000001) < (1500000001 :: int)"
  by (rule timeout_roundtrip) (simp_all add: MaxInt64_def)

text \<open>
  \<^bold>\<open>C8\<close>. Whatever string arrives, a duration that \<open>DecodeTimeout\<close> returns lies in the
  non-negative range of \<open>int64\<close>: the multiplication by the unit never wraps.
\<close>

theorem DecodeTimeout_no_overflow:
  assumes "DecodeTimeout s = Inr d"
  shows "0 \<le> d \<and> d \<le> MaxInt64"
  using DecodeTimeout_range [OF assms] .

theorem DecodeTimeout_no_overflow_witness:
  "DecodeTimeout ''99999999H'' = Inr MaxInt64 \<and> 0 \<le> MaxInt64 \<and> MaxInt64 \<le> MaxInt64"
proof -
  have "DecodeTimeout ''99999999H'' = Inr MaxInt64"
    by (simp add: DecodeTimeout_def timeoutUnitToDuration_def ParseUint_def is_digit_def maxHours_def
        MaxInt64_def duration_units)
  with DecodeTimeout_no_overflow [OF this] show ?thesis by simp
qed

end
