(* ===== verification/TcpRegistry.thy ===== *)
theory TcpRegistry
  imports Registry Timeout
begin

text \<open>
  The TCP front end of the registry (\<^verbatim>\<open>registry/tcp_registry.go\<close>) and its client
  (\<^verbatim>\<open>registry/tcp_client.go\<close>).

  Requests and responses travel as JSON; the codec is a parameter (\<open>json_lib\<close>), and the
  statements that need it assume of a value that it survives printing and parsing
  (\<open>json_request_ok\<close>, \<open>json_response_ok\<close>). A connection is a number; a handler gets
  what its single \<open>Read\<close> into a 4096-byte buffer returned, and yields the bytes it wrote.
  Deadlines and log output are left out.

  \<open>[]string\<close> results start as nil slices, so an empty list stands for nil, which JSON
  prints as \<open>null\<close>.
\<close>

definition utf8 :: "nat list \<Rightarrow> string" where
  "utf8 = map char_of"

record RegRequest =
  Action :: string
  Req_ServiceName :: string
  Req_Addr :: string
  Req_Metadata :: "(string \<times> string) list"

text \<open>JSON values of an \<open>interface{}\<close> field.\<close>

datatype any = Nil_any | Str string | Arr "any list"

record RegResponse =
  Success :: bool
  Resp_Error :: string
  Data :: any

definition string_slice :: "string list \<Rightarrow> any" where
  "string_slice xs = (if xs = [] then Nil_any else Arr (map Str xs))"

record json_lib =
  print_request :: "RegRequest \<Rightarrow> bytes"
  parse_request :: "bytes \<Rightarrow> goerr + RegRequest"
  print_response :: "RegResponse \<Rightarrow> bytes"
  parse_response :: "bytes \<Rightarrow> goerr + RegResponse"

definition json_request_ok :: "json_lib \<Rightarrow> RegRequest \<Rightarrow> bool" where
  "json_request_ok lib q \<longleftrightarrow> parse_request lib (print_request lib q) = Inr q \<and> length (print_request lib q) \<le> 4096"

definition json_response_ok :: "json_lib \<Rightarrow> RegResponse \<Rightarrow> bool" where
  "json_response_ok lib p \<longleftrightarrow> parse_response lib (print_response lib p) = Inr p \<and> length (print_response lib p) \<le> 4096"

section \<open>Server\<close>

type_synonym conn = nat

record TcpRegistry =
  registry :: Registry
  connMap :: "(string \<times> conn) list"
  keepaliveSec :: int
  checkers :: "(string \<times> string \<times> conn) list" \<comment> \<open>running heartbeat checkers\<close>
  open_conns :: "conn set"
  reg_done :: bool

definition NewTcpRegistry :: "goerr option \<Rightarrow> int \<Rightarrow> goerr + TcpRegistry" where
  "NewTcpRegistry listen_err keepalive =
     (case listen_err of
        Some e \<Rightarrow> Inl (Wrap ''start tcp listen failed'' e)
      | None \<Rightarrow>
          (let keepalive = (if keepalive \<le> 0 then 60 else keepalive) in
           Inr \<lparr>registry = NewRegistry (keepalive * Second), connMap = [], keepaliveSec = keepalive,
                 checkers = [], open_conns = {}, reg_done = False\<rparr>))"

definition connKey :: "string \<Rightarrow> string \<Rightarrow> string" where
  "connKey serviceName addr = serviceName @ '':'' @ addr"

definition sendResponse :: "json_lib \<Rightarrow> bool \<Rightarrow> string \<Rightarrow> any \<Rightarrow> bytes" where
  "sendResponse lib success errMsg data =
     print_response lib \<lparr>Success = success, Resp_Error = errMsg, Data = data\<rparr>"

definition parse_failed :: string where
  "parse_failed = utf8 [0xE8, 0xA7, 0xA3, 0xE6, 0x9E, 0x90, 0xE5, 0x91, 0xBD, 0xE4, 0xBB, 0xA4, 0xE5, 0xA4, 0xB1, 0xE8, 0xB4, 0xA5, 0x3A, 0x20]"

definition unknown_command :: string where
  "unknown_command = utf8 [0xE6, 0x9C, 0xAA, 0xE7, 0x9F, 0xA5, 0xE5, 0x91, 0xBD, 0xE4, 0xBB, 0xA4]"

text \<open>The command switch: the state after the command and the response it sends.\<close>

definition dispatch :: "json_lib \<Rightarrow> time \<Rightarrow> time \<Rightarrow> conn \<Rightarrow> RegRequest \<Rightarrow> TcpRegistry \<Rightarrow> TcpRegistry \<times> bytes" where
  "dispatch lib now1 now2 c cmd r =
     (if Action cmd = ''register'' then
        (r\<lparr>registry := Register now1 now2 (Req_ServiceName cmd) (Req_Addr cmd) (Req_Metadata cmd) (registry r),
           connMap := AList.update (connKey (Req_ServiceName cmd) (Req_Addr cmd)) c (connMap r),
           checkers := checkers r @ [(Req_ServiceName cmd, Req_Addr cmd, c)]\<rparr>,
         sendResponse lib True [] Nil_any)
      else if Action cmd = ''unregister'' then
        (case Unregister (Req_ServiceName cmd) (Req_Addr cmd) (registry r) of
           (Some e, reg) \<Rightarrow> (r\<lparr>registry := reg\<rparr>, sendResponse lib False (Error_text e) Nil_any)
         | (None, reg) \<Rightarrow>
             (r\<lparr>registry := reg, connMap := AList.delete (connKey (Req_ServiceName cmd) (Req_Addr cmd)) (connMap r)\<rparr>,
              sendResponse lib True [] Nil_any))
      else if Action cmd = ''heartbeat'' then
        (case Heartbeat now1 (Req_ServiceName cmd) (Req_Addr cmd) (registry r) of
           (Some e, reg) \<Rightarrow> (r\<lparr>registry := reg\<rparr>, sendResponse lib False (Error_text e) Nil_any)
         | (None, reg) \<Rightarrow> (r\<lparr>registry := reg\<rparr>, sendResponse lib True [] Nil_any))
      else if Action cmd = ''get'' then
        (r, case GetService (Req_ServiceName cmd) (registry r) of
              Inl e \<Rightarrow> sendResponse lib False (Error_text e) Nil_any
            | Inr addrs \<Rightarrow> sendResponse lib True [] (string_slice addrs))
      else if Action cmd = ''list'' then
        (r, sendResponse lib True [] (string_slice (GetAllServices (registry r))))
      else (r, sendResponse lib False unknown_command Nil_any))"

text \<open>The deferred \<open>conn.Close\<close> runs on every path.\<close>

definition handleConnection ::
  "json_lib \<Rightarrow> time \<Rightarrow> time \<Rightarrow> conn \<Rightarrow> goerr + bytes \<Rightarrow> TcpRegistry \<Rightarrow> TcpRegistry \<times> bytes option" where
  "handleConnection lib now1 now2 c read r =
     (let (r, out) =
        (case read of
           Inl e \<Rightarrow> (r, None)
         | Inr buf \<Rightarrow>
             (case parse_request lib buf of
                Inl e \<Rightarrow> (r, Some (sendResponse lib False (parse_failed @ Error_text e) Nil_any))
              | Inr cmd \<Rightarrow> (case dispatch lib now1 now2 c cmd r of (r, resp) \<Rightarrow> (r, Some resp))))
      in (r\<lparr>open_conns := open_conns r - {c}\<rparr>, out))"

text \<open>\<open>Serve\<close> accepts a connection and starts its handler.\<close>

definition accept_conn :: "conn \<Rightarrow> TcpRegistry \<Rightarrow> TcpRegistry" where
  "accept_conn c r = (if reg_done r then r else r\<lparr>open_conns := insert c (open_conns r)\<rparr>)"

text \<open>\<open>time.NewTicker\<close> panics on a non-positive interval.\<close>

definition NewTicker :: "duration \<Rightarrow> unit outcome" where
  "NewTicker d = (if d \<le> 0 then Panic else Ok ())"

definition heartbeatChecker_start :: "TcpRegistry \<Rightarrow> unit outcome" where
  "heartbeatChecker_start r = NewTicker (keepaliveSec r div 3 * Second)"

text \<open>One turn of a checker's loop: it ends when the registry closes or the instance expired.\<close>

definition heartbeatChecker_tick :: "time \<Rightarrow> string \<times> string \<times> conn \<Rightarrow> TcpRegistry \<Rightarrow> TcpRegistry" where
  "heartbeatChecker_tick now chk r =
     (case chk of (serviceName, addr, c) \<Rightarrow>
        if reg_done r then r\<lparr>checkers := remove1 chk (checkers r)\<rparr>
        else if IsExpired now serviceName addr (registry r) then
          r\<lparr>registry := snd (Unregister serviceName addr (registry r)),
            connMap := AList.delete (connKey serviceName addr) (connMap r),
            checkers := remove1 chk (checkers r)\<rparr>
        else r)"

definition TcpRegistry_Close :: "TcpRegistry \<Rightarrow> TcpRegistry outcome" where
  "TcpRegistry_Close r =
     (if reg_done r then Panic
      else Ok (r\<lparr>reg_done := True, open_conns := open_conns r - snd ` set (connMap r)\<rparr>))"

section \<open>Client\<close>

record TcpClient =
  registryAddr :: string
  cl_serviceName :: string
  cl_serviceAddr :: string
  cl_metadata :: "(string \<times> string) list"
  heartbeatInterval :: duration
  cl_done :: bool
  heartbeats :: nat \<comment> \<open>heartbeat goroutines started\<close>

definition NewTcpClient :: "string \<Rightarrow> TcpClient" where
  "NewTcpClient addr = \<lparr>registryAddr = addr, cl_serviceName = [], cl_serviceAddr = [], cl_metadata = [],
     heartbeatInterval = 30 * Second, cl_done = False, heartbeats = 0\<rparr>"

definition SetHeartbeatInterval :: "duration \<Rightarrow> TcpClient \<Rightarrow> TcpClient" where
  "SetHeartbeatInterval interval c = c\<lparr>heartbeatInterval := interval\<rparr>"

text \<open>
  The network as one request sees it: whether the dial and the write succeed, and what
  the single read into 4096 bytes returns.
\<close>

record net =
  dial_err :: "goerr option"
  write_err :: "goerr option"
  reply :: "goerr + bytes"

definition connect_failed :: string where
  "connect_failed = utf8 [0xE8, 0xBF, 0x9E, 0xE6, 0x8E, 0xA5, 0xE6, 0xB3, 0xA8, 0xE5, 0x86, 0x8C, 0xE4, 0xB8, 0xAD, 0xE5, 0xBF, 0x83, 0xE5, 0xA4, 0xB1, 0xE8, 0xB4, 0xA5]"

definition send_failed :: string where
  "send_failed = utf8 [0xE5, 0x8F, 0x91, 0xE9, 0x80, 0x81, 0xE5, 0x91, 0xBD, 0xE4, 0xBB, 0xA4, 0xE5, 0xA4, 0xB1, 0xE8, 0xB4, 0xA5]"

definition receive_failed :: string where
  "receive_failed = utf8 [0xE6, 0x8E, 0xA5, 0xE6, 0x94, 0xB6, 0xE5, 0x93, 0x8D, 0xE5, 0xBA, 0x94, 0xE5, 0xA4, 0xB1, 0xE8, 0xB4, 0xA5]"

definition parse_response_failed :: string where
  "parse_response_failed = utf8 [0xE8, 0xA7, 0xA3, 0xE6, 0x9E, 0x90, 0xE5, 0x93, 0x8D, 0xE5, 0xBA, 0x94, 0xE5, 0xA4, 0xB1, 0xE8, 0xB4, 0xA5]"

definition command_failed :: string where
  "command_failed = utf8 [0xE5, 0x91, 0xBD, 0xE4, 0xBB, 0xA4, 0xE6, 0x89, 0xA7, 0xE8, 0xA1, 0x8C, 0xE5, 0xA4, 0xB1, 0xE8, 0xB4, 0xA5]"

definition sendRequest :: "json_lib \<Rightarrow> net \<Rightarrow> RegRequest \<Rightarrow> goerr + RegResponse" where
  "sendRequest lib n cmd =
     (case dial_err n of Some e \<Rightarrow> Inl (Wrap connect_failed e) | None \<Rightarrow>
      case write_err n of Some e \<Rightarrow> Inl (Wrap send_failed e) | None \<Rightarrow>
      case reply n of Inl e \<Rightarrow> Inl (Wrap receive_failed e) | Inr buf \<Rightarrow>
      case parse_response lib buf of Inl e \<Rightarrow> Inl (Wrap parse_response_failed e) | Inr resp \<Rightarrow>
        if \<not> Success resp then Inl (Wrap command_failed (Errorf (Resp_Error resp))) else Inr resp)"

definition register_cmd :: "string \<Rightarrow> string \<Rightarrow> (string \<times> string) list \<Rightarrow> RegRequest" where
  "register_cmd svc addr md = \<lparr>Action = ''register'', Req_ServiceName = svc, Req_Addr = addr, Req_Metadata = md\<rparr>"

definition unregister_cmd :: "string \<Rightarrow> string \<Rightarrow> RegRequest" where
  "unregister_cmd svc addr = \<lparr>Action = ''unregister'', Req_ServiceName = svc, Req_Addr = addr, Req_Metadata = []\<rparr>"

definition heartbeat_cmd :: "string \<Rightarrow> string \<Rightarrow> RegRequest" where
  "heartbeat_cmd svc addr = \<lparr>Action = ''heartbeat'', Req_ServiceName = svc, Req_Addr = addr, Req_Metadata = []\<rparr>"

definition get_cmd :: "string \<Rightarrow> RegRequest" where
  "get_cmd svc = \<lparr>Action = ''get'', Req_ServiceName = svc, Req_Addr = [], Req_Metadata = []\<rparr>"

definition list_cmd :: RegRequest where
  "list_cmd = \<lparr>Action = ''list'', Req_ServiceName = [], Req_Addr = [], Req_Metadata = []\<rparr>"

definition TcpClient_Register ::
  "json_lib \<Rightarrow> net \<Rightarrow> string \<Rightarrow> string \<Rightarrow> (string \<times> string) list \<Rightarrow> TcpClient \<Rightarrow> goerr option \<times> TcpClient" where
  "TcpClient_Register lib n svc addr md c =
     (case sendRequest lib n (register_cmd svc addr md) of
        Inl e \<Rightarrow> (Some e, c)
      | Inr _ \<Rightarrow>
          (let c = c\<lparr>cl_serviceName := svc, cl_serviceAddr := addr, cl_metadata := md\<rparr>;
               c = (if heartbeatInterval c = 0 then c\<lparr>heartbeatInterval := 30 * Second\<rparr> else c)
           in (None, c\<lparr>heartbeats := heartbeats c + 1\<rparr>)))"

definition RegisterWithKeepAlive ::
  "json_lib \<Rightarrow> net \<Rightarrow> string \<Rightarrow> string \<Rightarrow> (string \<times> string) list \<Rightarrow> int \<Rightarrow> TcpClient \<Rightarrow> goerr option \<times> TcpClient" where
  "RegisterWithKeepAlive lib n svc addr md keepalive c =
     (let c = (if keepalive > 0 then
                 (let d = keepalive div 3 * Second in
                  c\<lparr>heartbeatInterval := (if d < 10 * Second then 10 * Second else d)\<rparr>)
               else c)
      in TcpClient_Register lib n svc addr md c)"

text \<open>Closing the \<open>done\<close> channel a second time panics.\<close>

definition TcpClient_Unregister :: "json_lib \<Rightarrow> net \<Rightarrow> TcpClient \<Rightarrow> unit outcome \<times> TcpClient" where
  "TcpClient_Unregister lib n c =
     (if cl_serviceName c = [] \<or> cl_serviceAddr c = [] then (Fail (Errorf ''register service yet''), c)
      else case sendRequest lib n (unregister_cmd (cl_serviceName c) (cl_serviceAddr c)) of
             Inl e \<Rightarrow> (Fail e, c)
           | Inr _ \<Rightarrow> if cl_done c then (Panic, c) else (Ok (), c\<lparr>cl_done := True\<rparr>))"

text \<open>
  One turn of the heartbeat loop, given the network at the heartbeat and at the
  re-registration; the result tells whether the loop goes on.
\<close>

definition reregister :: "json_lib \<Rightarrow> net \<Rightarrow> TcpClient \<Rightarrow> (goerr + RegResponse) option" where
  "reregister lib n c =
     (if cl_serviceName c = [] \<or> cl_serviceAddr c = [] then None
      else Some (sendRequest lib n (register_cmd (cl_serviceName c) (cl_serviceAddr c) (cl_metadata c))))"

definition heartbeat_tick :: "json_lib \<Rightarrow> net \<Rightarrow> net \<Rightarrow> TcpClient \<Rightarrow> bool \<times> (goerr + RegResponse) option" where
  "heartbeat_tick lib n n' c =
     (if cl_done c then (False, None)
      else case sendRequest lib n (heartbeat_cmd (cl_serviceName c) (cl_serviceAddr c)) of
             Inl e \<Rightarrow> (True, reregister lib n' c)
           | Inr _ \<Rightarrow> (True, None))"

fun strings_of :: "any list \<Rightarrow> string list" where
  "strings_of [] = []"
| "strings_of (Str s # xs) = s # strings_of xs"
| "strings_of (_ # xs) = strings_of xs"

definition string_list :: "goerr + RegResponse \<Rightarrow> goerr + string list" where
  "string_list r =
     (case r of
        Inl e \<Rightarrow> Inl e
      | Inr resp \<Rightarrow> (case Data resp of Arr xs \<Rightarrow> Inr (strings_of xs) | _ \<Rightarrow> Inl (Errorf ''unknown response type'')))"

definition TcpClient_GetService :: "json_lib \<Rightarrow> net \<Rightarrow> string \<Rightarrow> goerr + string list" where
  "TcpClient_GetService lib n svc = string_list (sendRequest lib n (get_cmd svc))"

definition ListServices :: "json_lib \<Rightarrow> net \<Rightarrow> goerr + string list" where
  "ListServices lib n = string_list (sendRequest lib n list_cmd)"

section \<open>Executions of the server\<close>

text \<open>
  A connection accepted and handled, a turn of a checker, and \<open>Close\<close>. Handlers interleave
  only at the registry's mutex; a handler is one step here.
\<close>

inductive tcp_step :: "json_lib \<Rightarrow> TcpRegistry \<Rightarrow> TcpRegistry \<Rightarrow> bool" for lib where
  serve: "\<not> reg_done r \<Longrightarrow> c \<notin> snd ` set (connMap r) \<Longrightarrow>
    tcp_step lib r (fst (handleConnection lib now1 now2 c read (accept_conn c r)))"
| check: "chk \<in> set (checkers r) \<Longrightarrow> tcp_step lib r (heartbeatChecker_tick now chk r)"
| close: "TcpRegistry_Close r = Ok r' \<Longrightarrow> tcp_step lib r r'"

definition saved :: "TcpRegistry \<Rightarrow> conn set" where
  "saved r = snd ` set (connMap r)"

definition tcp_ok :: "TcpRegistry \<Rightarrow> bool" where
  "tcp_ok r \<longleftrightarrow> reg_ok (registry r) \<and> distinct (map fst (connMap r)) \<and> open_conns r \<inter> saved r = {}"

lemma snd_set_update: "snd ` set (AList.update k c m) \<subseteq> insert c (snd ` set m)"
  using set_update_subset [of k c m] by force

lemma snd_set_delete: "snd ` set (AList.delete k m) \<subseteq> snd ` set m"
  using set_delete_subset [of k m] by force

text \<open>What a command may change: the registry stays well formed, and only \<open>c\<close> may be saved.\<close>

definition handled :: "conn \<Rightarrow> TcpRegistry \<Rightarrow> TcpRegistry \<Rightarrow> bool" where
  "handled c r r' \<longleftrightarrow> reg_ok (registry r') \<and> distinct (map fst (connMap r'))
     \<and> saved r' \<subseteq> insert c (saved r) \<and> open_conns r' = open_conns r"

lemma handled_refl: "reg_ok (registry r) \<Longrightarrow> distinct (map fst (connMap r)) \<Longrightarrow> handled c r r"
  by (auto simp: handled_def)

lemma dispatch_handled:
  assumes r: "reg_ok (registry r)" "distinct (map fst (connMap r))"
  shows "handled c r (fst (dispatch lib n1 n2 c cmd r))"
proof -
  let ?s = "Req_ServiceName cmd" and ?a = "Req_Addr cmd"
  have reg: "handled c r (r\<lparr>registry := Register n1 n2 ?s ?a (Req_Metadata cmd) (registry r),
      connMap := AList.update (connKey ?s ?a) c (connMap r), checkers := chks\<rparr>)" for chks
    using reg_ok_run_op [OF r(1), of "RegisterOp n1 n2 ?s ?a (Req_Metadata cmd)"] r(2) snd_set_update
    by (simp add: handled_def saved_def distinct_update)
  have unreg: "reg_ok reg'" if "Unregister ?s ?a (registry r) = (e, reg')" for e reg'
    using reg_ok_run_op [OF r(1), of "UnregisterOp ?s ?a"] that by simp
  have hb: "reg_ok reg'" if "Heartbeat n1 ?s ?a (registry r) = (e, reg')" for e reg'
    using reg_ok_run_op [OF r(1), of "HeartbeatOp n1 ?s ?a"] that by simp
  have del: "snd ` set (AList.delete k (connMap r)) \<subseteq> insert c (snd ` set (connMap r))" for k
    using snd_set_delete [of k "connMap r"] by blast
  have same: "handled c r (r\<lparr>registry := reg'\<rparr>)" "handled c r (r\<lparr>registry := reg', connMap := AList.delete k (connMap r)\<rparr>)"
    if "reg_ok reg'" for reg' k
    using that r(2) del [of k] by (simp_all add: handled_def saved_def distinct_delete subset_insertI)
  show ?thesis
    using reg handled_refl [OF r] same(1) [OF unreg] same(2) [OF unreg] same(1) [OF hb]
    by (simp add: dispatch_def split: prod.split option.split)
qed

lemma handleConnection_handled:
  assumes r: "reg_ok (registry r)" "distinct (map fst (connMap r))"
  shows "\<exists>r'. handled c r r' \<and> fst (handleConnection lib n1 n2 c read r) = r'\<lparr>open_conns := open_conns r - {c}\<rparr>"
proof (cases read)
  case (Inl e)
  with handled_refl [OF r] show ?thesis by (auto simp: handleConnection_def)
next
  case (Inr buf)
  show ?thesis
  proof (cases "parse_request lib buf")
    case (Inl e)
    with Inr handled_refl [OF r] show ?thesis by (auto simp: handleConnection_def)
  next
    case (Inr cmd)
    obtain r' out where d: "dispatch lib n1 n2 c cmd r = (r', out)" by (cases "dispatch lib n1 n2 c cmd r")
    with dispatch_handled [OF r, of c lib n1 n2 cmd] have h: "handled c r r'" by simp
    then have "open_conns r' = open_conns r" by (simp add: handled_def)
    then have "fst (handleConnection lib n1 n2 c read r) = r'\<lparr>open_conns := open_conns r - {c}\<rparr>"
      using \<open>read = Inr buf\<close> Inr d by (simp add: handleConnection_def)
    with h show ?thesis by blast
  qed
qed

lemma tcp_ok_handle:
  assumes "tcp_ok r" "\<not> reg_done r" "c \<notin> snd ` set (connMap r)"
  shows "tcp_ok (fst (handleConnection lib n1 n2 c read (accept_conn c r)))"
proof -
  let ?r = "accept_conn c r"
  have r: "reg_ok (registry ?r)" "distinct (map fst (connMap ?r))" "saved ?r = saved r"
    "open_conns ?r = insert c (open_conns r)"
    using assms by (simp_all add: accept_conn_def tcp_ok_def saved_def)
  from handleConnection_handled [OF r(1,2)] obtain r' where "handled c ?r r'"
    "fst (handleConnection lib n1 n2 c read ?r) = r'\<lparr>open_conns := open_conns ?r - {c}\<rparr>" by blast
  moreover have "saved (r'\<lparr>open_conns := X\<rparr>) = saved r'" for X by (simp add: saved_def)
  ultimately show ?thesis using assms(1) r(3,4) by (auto simp: handled_def tcp_ok_def)
qed

lemma tcp_ok_tick:
  assumes "tcp_ok r"
  shows "tcp_ok (heartbeatChecker_tick now chk r)"
proof -
  obtain s a c where chk: "chk = (s, a, c)" by (cases chk)
  have "reg_ok (snd (Unregister s a (registry r)))"
    using assms reg_ok_run_op [of "registry r" "UnregisterOp s a"] by (simp add: tcp_ok_def)
  moreover have "open_conns r \<inter> snd ` set (AList.delete k (connMap r)) = {}" for k
    using assms snd_set_delete [of k "connMap r"] unfolding tcp_ok_def saved_def by blast
  ultimately show ?thesis
    using assms by (simp add: chk heartbeatChecker_tick_def tcp_ok_def saved_def distinct_delete)
qed

lemma tcp_ok_step: "tcp_step lib r r' \<Longrightarrow> tcp_ok r \<Longrightarrow> tcp_ok r'"
proof (induction rule: tcp_step.induct)
  case (serve r c now1 now2 read)
  then show ?case by (simp add: tcp_ok_handle)
next
  case (check chk r now)
  then show ?case by (simp add: tcp_ok_tick)
next
  case (close r r')
  then have "r' = r\<lparr>reg_done := True, open_conns := open_conns r - saved r\<rparr>"
    by (simp add: TcpRegistry_Close_def saved_def split: if_splits)
  moreover have "saved (r\<lparr>reg_done := True, open_conns := X\<rparr>) = saved r" for X by (simp add: saved_def)
  ultimately show ?case using close by (auto simp: tcp_ok_def)
qed

interpretation tcp: invariant_system "\<lambda>r. NewTcpRegistry None keepalive = Inr r" "tcp_step lib" tcp_ok for keepalive lib
proof
  show "tcp_ok r" if "NewTcpRegistry None keepalive = Inr r" for r
    using that by (auto simp: NewTcpRegistry_def Let_def tcp_ok_def)
qed (rule tcp_ok_step)

section \<open>Client and server together\<close>

text \<open>A client's command delivered to the server over a working connection.\<close>

definition visit :: "json_lib \<Rightarrow> time \<Rightarrow> time \<Rightarrow> conn \<Rightarrow> RegRequest \<Rightarrow> TcpRegistry \<Rightarrow> net \<times> TcpRegistry" where
  "visit lib now1 now2 c cmd r =
     (case handleConnection lib now1 now2 c (Inr (take 4096 (print_request lib cmd))) (accept_conn c r) of
        (r', out) \<Rightarrow> (\<lparr>dial_err = None, write_err = None,
                       reply = (case out of None \<Rightarrow> Inl EOF | Some bs \<Rightarrow> Inr (take 4096 bs))\<rparr>, r'))"

lemma visit_dispatch:
  assumes "json_request_ok lib cmd" "dispatch lib n1 n2 c cmd (accept_conn c r) = (r', bs)"
  shows "visit lib n1 n2 c cmd r =
    (\<lparr>dial_err = None, write_err = None, reply = Inr (take 4096 bs)\<rparr>, r'\<lparr>open_conns := open_conns r' - {c}\<rparr>)"
  using assms by (simp add: visit_def json_request_ok_def handleConnection_def)

lemma sendRequest_answer:
  assumes "json_response_ok lib p"
  shows "sendRequest lib \<lparr>dial_err = None, write_err = None, reply = Inr (take 4096 (print_response lib p))\<rparr> cmd =
    (if Success p then Inr p else Inl (Wrap command_failed (Errorf (Resp_Error p))))"
  using assms by (simp add: sendRequest_def json_response_ok_def)

lemma strings_of_Str [simp]: "strings_of (map Str xs) = xs"
  by (induction xs) simp_all

lemma register_GetService:
  "reg_ok r \<Longrightarrow> \<exists>addrs. GetService svc (Register n1 n2 svc addr md r) = Inr addrs \<and> addr \<in> set addrs \<and> addrs \<noteq> []"
  using GetService_instances [OF reg_ok_run_op [of r "RegisterOp n1 n2 svc addr md"], of svc]
  by (cases "GetService svc (Register n1 n2 svc addr md r)") (auto simp: instances_Register [where d = 0] split: if_splits)

abbreviation ok_response :: RegResponse where
  "ok_response \<equiv> \<lparr>Success = True, Resp_Error = [], Data = Nil_any\<rparr>"


text \<open>A codec that handles the four values of the example.\<close>

definition table_json :: json_lib where
  "table_json =
     \<lparr>print_request = (\<lambda>q. if q = register_cmd ''s'' ''h:1'' [] then [1] else if q = get_cmd ''s'' then [2] else []),
      parse_request = (\<lambda>bs. if bs = [1] then Inr (register_cmd ''s'' ''h:1'' []) else if bs = [2] then Inr (get_cmd ''s'') else Inl EOF),
      print_response = (\<lambda>p. if p = ok_response then [1] else if p = ok_response\<lparr>Data := Arr [Str ''h:1'']\<rparr> then [2] else []),
      parse_response = (\<lambda>bs. if bs = [1] then Inr ok_response
        else if bs = [2] then Inr (ok_response\<lparr>Data := Arr [Str ''h:1'']\<rparr>) else Inl EOF)\<rparr>"

definition new_server :: TcpRegistry where
  "new_server = projr (NewTcpRegistry None 60)"

lemma registry_new_server: "registry new_server = NewRegistry (60 * Second)"
  by (simp add: new_server_def NewTcpRegistry_def)


text \<open>
  The connection saved with a registration is useless: in every reachable state
  of the server, each connection in \<open>connMap\<close> has already been closed by the handler
  that saved it; the registry under the front end stays well formed throughout.
\<close>

theorem saved_connections_closed:
  assumes "NewTcpRegistry None keepalive = Inr r0" and "reach (\<lambda>r. r = r0) (tcp_step lib) r"
  shows "reg_ok (registry r) \<and> (\<forall>k c. map_of (connMap r) k = Some c \<longrightarrow> c \<notin> open_conns r)"
proof -
  from assms(2) have "reach (\<lambda>r. NewTcpRegistry None keepalive = Inr r) (tcp_step lib) r"
    by (induction rule: reach.induct) (auto intro: reach.intros assms(1))
  from tcp.reach_inv [OF this] show ?thesis
    by (force simp: tcp_ok_def saved_def dest: map_of_SomeD)
qed

theorem saved_connections_closed_witness:
  "let r = fst (handleConnection table_json 0 0 1 (Inr [1]) (accept_conn 1 new_server)) in
   map_of (connMap r) ''s:h:1'' = Some 1
     \<and> reg_ok (registry r) \<and> (\<forall>k c. map_of (connMap r) k = Some c \<longrightarrow> c \<notin> open_conns r)"
proof -
  let ?r = "fst (handleConnection table_json 0 0 1 (Inr [1]) (accept_conn 1 new_server))"
  have n: "NewTcpRegistry None 60 = Inr new_server" by (simp add: new_server_def NewTcpRegistry_def)
  have "tcp_step table_json new_server ?r"
    by (rule tcp_step.serve) (simp_all add: new_server_def NewTcpRegistry_def)
  then have "reach (\<lambda>r. r = new_server) (tcp_step table_json) ?r"
    using reach_step [OF reach_init [of "\<lambda>r. r = new_server"]] by blast
  from saved_connections_closed [OF n this]
  have "reg_ok (registry ?r) \<and> (\<forall>k c. map_of (connMap ?r) k = Some c \<longrightarrow> c \<notin> open_conns ?r)" .
  moreover have "map_of (connMap ?r) ''s:h:1'' = Some 1"
    by (simp add: handleConnection_def table_json_def dispatch_def register_cmd_def accept_conn_def
        new_server_def NewTcpRegistry_def connKey_def)
  ultimately show ?thesis by (simp add: Let_def)
qed

text \<open>
  \<open>ListServices\<close> against a registry without services is an error, not an empty
  list: the server's nil slice becomes JSON \<open>null\<close>, which the client does not accept.
\<close>

theorem ListServices_empty_fails:
  assumes "servers (registry r) = []" and "json_request_ok lib list_cmd" and "json_response_ok lib ok_response"
  shows "ListServices lib (fst (visit lib n1 n2 c list_cmd r)) = Inl (Errorf ''unknown response type'')"
proof -
  have "registry (accept_conn c r) = registry r" by (simp add: accept_conn_def)
  then have "fst (visit lib n1 n2 c list_cmd r) =
      \<lparr>dial_err = None, write_err = None, reply = Inr (take 4096 (print_response lib ok_response))\<rparr>"
    using assms(1,2) by (simp add: visit_dispatch dispatch_def list_cmd_def sendResponse_def GetAllServices_def string_slice_def)
  then show ?thesis using sendRequest_answer [OF assms(3)] by (simp add: ListServices_def string_list_def)
qed

theorem ListServices_empty_fails_witness:
  "ListServices \<lparr>print_request = \<lambda>_. [], parse_request = \<lambda>_. Inr list_cmd,
       print_response = \<lambda>_. [], parse_response = \<lambda>_. Inr ok_response\<rparr>
     (fst (visit \<lparr>print_request = \<lambda>_. [], parse_request = \<lambda>_. Inr list_cmd,
       print_response = \<lambda>_. [], parse_response = \<lambda>_. Inr ok_response\<rparr> 0 0 1 list_cmd new_server)) =
   Inl (Errorf ''unknown response type'')"
  by (rule ListServices_empty_fails)
     (simp_all add: registry_new_server NewRegistry_def json_request_ok_def json_response_ok_def)

end
