(* ===== verification/Discovery.thy ===== *)
theory Discovery
  imports TcpRegistry "HOL-Library.Multiset"
begin

text \<open>
  Service discovery: the fixed list (\<^verbatim>\<open>discovery/memory/memory.go\<close>), the list read from
  the TCP registry (\<^verbatim>\<open>discovery/memory/zrpc_discovery.go\<close>) and the list read from etcd
  (\<^verbatim>\<open>discovery/etcd/discovery.go\<close>).

  The random source and the clock are arguments (\<open>rnd n\<close> is what \<open>Intn(n)\<close> returns), and so
  is what the remote side answers: for etcd the values under the service's key prefix and
  the decoder of an endpoint. The locale \<open>round_robin\<close> is the balancing contract; it is
  interpreted on all three implementations.
\<close>

datatype SelectMode = RandomSelect | RoundRobinSelect | OtherMode int

definition ErrNoServers :: goerr where
  "ErrNoServers = Errorf ''registry discovery: no available servers''"

definition ErrUnsupportedMode :: goerr where
  "ErrUnsupportedMode = Errorf ''registry discovery: unsupported select mode''"

section \<open>A fixed list of servers\<close>

record MultiServerRegistry =
  ms_servers :: "string list"
  ms_idx :: nat

definition NewMultiServerRegistry :: "(nat \<Rightarrow> nat) \<Rightarrow> string list \<Rightarrow> MultiServerRegistry" where
  "NewMultiServerRegistry rnd ss = \<lparr>ms_servers = ss, ms_idx = rnd (2 ^ 31 - 1 - 1)\<rparr>"

definition MultiServerRegistry_Get ::
  "(nat \<Rightarrow> nat) \<Rightarrow> SelectMode \<Rightarrow> MultiServerRegistry \<Rightarrow> (goerr + string) \<times> MultiServerRegistry" where
  "MultiServerRegistry_Get rnd mode m =
     (let n = length (ms_servers m) in
      if n = 0 then (Inl (Errorf ''zrpc discovery: no available servers''), m)
      else case mode of
        RandomSelect \<Rightarrow> (Inr (ms_servers m ! rnd n), m)
      | RoundRobinSelect \<Rightarrow>
          (let s = ms_servers m ! (ms_idx m mod n) in (Inr s, m\<lparr>ms_idx := (ms_idx m + 1) mod n\<rparr>))
      | OtherMode _ \<Rightarrow> (Inl (Errorf ''zrpc discovery: not supported select mode''), m))"

definition MultiServerRegistry_Update :: "string list \<Rightarrow> MultiServerRegistry \<Rightarrow> MultiServerRegistry" where
  "MultiServerRegistry_Update ss m = m\<lparr>ms_servers := ss\<rparr>"

definition MultiServerRegistry_GetAll :: "MultiServerRegistry \<Rightarrow> string list" where
  "MultiServerRegistry_GetAll m = map id (ms_servers m)"

definition MultiServerRegistry_Refresh :: "MultiServerRegistry \<Rightarrow> MultiServerRegistry" where
  "MultiServerRegistry_Refresh m = m"

section \<open>Servers from the TCP registry\<close>

record RegistryDiscovery =
  rd_serviceName :: string
  rd_servers :: "string list"
  rd_idx :: nat
  rd_refreshInterval :: duration
  rd_lastRefresh :: time

definition RegistryDiscovery_Refresh ::
  "json_lib \<Rightarrow> net \<Rightarrow> time \<Rightarrow> RegistryDiscovery \<Rightarrow> goerr option \<times> RegistryDiscovery" where
  "RegistryDiscovery_Refresh lib n now d =
     (case TcpClient_GetService lib n (rd_serviceName d) of
        Inl e \<Rightarrow> (Some e, d)
      | Inr ss \<Rightarrow> (None, d\<lparr>rd_servers := ss, rd_lastRefresh := now\<rparr>))"

text \<open>The zero \<open>time.Time\<close> of \<open>lastRefresh\<close> is an argument: an instant before every other.\<close>

definition NewRegistryDiscovery :: "json_lib \<Rightarrow> net \<Rightarrow> time \<Rightarrow> time \<Rightarrow> string \<Rightarrow> RegistryDiscovery" where
  "NewRegistryDiscovery lib n zero now svc =
     snd (RegistryDiscovery_Refresh lib n now
       \<lparr>rd_serviceName = svc, rd_servers = [], rd_idx = 0, rd_refreshInterval = Minute, rd_lastRefresh = zero\<rparr>)"

definition RegistryDiscovery_Update :: "string list \<Rightarrow> RegistryDiscovery \<Rightarrow> RegistryDiscovery" where
  "RegistryDiscovery_Update ss d = d\<lparr>rd_servers := ss\<rparr>"

definition rd_ensure_fresh ::
  "json_lib \<Rightarrow> net \<Rightarrow> time \<Rightarrow> time \<Rightarrow> RegistryDiscovery \<Rightarrow> goerr option \<times> RegistryDiscovery" where
  "rd_ensure_fresh lib n now now' d =
     (if length (rd_servers d) = 0 \<or> now - rd_lastRefresh d > rd_refreshInterval d
      then RegistryDiscovery_Refresh lib n now' d else (None, d))"

definition RegistryDiscovery_Get ::
  "json_lib \<Rightarrow> net \<Rightarrow> (nat \<Rightarrow> nat) \<Rightarrow> time \<Rightarrow> time \<Rightarrow> SelectMode \<Rightarrow> RegistryDiscovery \<Rightarrow> (goerr + string) \<times> RegistryDiscovery" where
  "RegistryDiscovery_Get lib nw rnd now now' mode d =
     (case rd_ensure_fresh lib nw now now' d of
        (Some e, d) \<Rightarrow> (Inl e, d)
      | (None, d) \<Rightarrow>
          (let n = length (rd_servers d) in
           if n = 0 then (Inl ErrNoServers, d)
           else case mode of
             RandomSelect \<Rightarrow> (Inr (rd_servers d ! rnd n), d)
           | RoundRobinSelect \<Rightarrow>
               (Inr (rd_servers d ! (rd_idx d mod n)), d\<lparr>rd_idx := (rd_idx d + 1) mod n\<rparr>)
           | OtherMode _ \<Rightarrow> (Inl ErrUnsupportedMode, d)))"

definition RegistryDiscovery_GetAll ::
  "json_lib \<Rightarrow> net \<Rightarrow> time \<Rightarrow> time \<Rightarrow> RegistryDiscovery \<Rightarrow> (goerr + string list) \<times> RegistryDiscovery" where
  "RegistryDiscovery_GetAll lib n now now' d =
     (case rd_ensure_fresh lib n now now' d of
        (Some e, d) \<Rightarrow> (Inl e, d)
      | (None, d) \<Rightarrow> (Inr (map id (rd_servers d)), d))"

section \<open>Servers from etcd\<close>

record EtcdDiscovery =
  ed_serviceName :: string
  ed_servers :: "string list"
  ed_idx :: nat
  ed_refreshInterval :: duration
  ed_lastRefresh :: time

definition getKeyPrefix :: "EtcdDiscovery \<Rightarrow> string" where
  "getKeyPrefix d = ''service/'' @ ed_serviceName d @ ''/''"

definition getKey :: "EtcdDiscovery \<Rightarrow> string \<Rightarrow> string" where
  "getKey d addr = ''service/'' @ ed_serviceName d @ ''/'' @ addr"

definition etcd_get_failed :: string where
  "etcd_get_failed = utf8 [0xE4, 0xBB, 0x8E, 0x65, 0x74, 0x63, 0x64, 0xE8, 0x8E, 0xB7, 0xE5, 0x8F, 0x96, 0xE6, 0x9C, 0x8D, 0xE5, 0x8A, 0xA1, 0xE5, 0x88, 0x97, 0xE8, 0xA1, 0xA8, 0xE5, 0xA4, 0xB1, 0xE8, 0xB4, 0xA5]"

text \<open>\<open>endpoint\<close> decodes an \<open>endpoints.Endpoint\<close> and gives its address; \<open>fetch\<close> is the range read.\<close>

fun etcd_addrs :: "(bytes \<Rightarrow> string option) \<Rightarrow> bytes list \<Rightarrow> string list \<Rightarrow> string list" where
  "etcd_addrs endpoint [] acc = acc"
| "etcd_addrs endpoint (v # kvs) acc =
     (case endpoint v of
        None \<Rightarrow> etcd_addrs endpoint kvs acc
      | Some addr \<Rightarrow> etcd_addrs endpoint kvs (acc @ [addr]))"

definition EtcdDiscovery_Refresh ::
  "(bytes \<Rightarrow> string option) \<Rightarrow> (string \<Rightarrow> goerr + bytes list) \<Rightarrow> time \<Rightarrow> EtcdDiscovery \<Rightarrow> goerr option \<times> EtcdDiscovery" where
  "EtcdDiscovery_Refresh endpoint fetch now d =
     (case fetch (getKeyPrefix d) of
        Inl e \<Rightarrow> (Some (Wrap etcd_get_failed e), d)
      | Inr kvs \<Rightarrow> (None, d\<lparr>ed_servers := etcd_addrs endpoint kvs [], ed_lastRefresh := now\<rparr>))"

definition NewDiscovery ::
  "(bytes \<Rightarrow> string option) \<Rightarrow> (string \<Rightarrow> goerr + bytes list) \<Rightarrow> goerr option \<Rightarrow> time \<Rightarrow> time \<Rightarrow> string \<Rightarrow> goerr + EtcdDiscovery" where
  "NewDiscovery endpoint fetch dial zero now svc =
     (case dial of
        Some e \<Rightarrow> Inl (Wrap ''connect etcd failed'' e)
      | None \<Rightarrow>
          (case EtcdDiscovery_Refresh endpoint fetch now
             \<lparr>ed_serviceName = svc, ed_servers = [], ed_idx = 0, ed_refreshInterval = Minute, ed_lastRefresh = zero\<rparr> of
             (Some e, _) \<Rightarrow> Inl e
           | (None, d) \<Rightarrow> Inr d))"

text \<open>The watcher ignores the events themselves and refreshes once per response.\<close>

fun watch :: "(bytes \<Rightarrow> string option) \<Rightarrow> ((string \<Rightarrow> goerr + bytes list) \<times> time) list \<Rightarrow> EtcdDiscovery \<Rightarrow> EtcdDiscovery" where
  "watch endpoint [] d = d"
| "watch endpoint ((fetch, now) # wresps) d = watch endpoint wresps (snd (EtcdDiscovery_Refresh endpoint fetch now d))"

definition EtcdDiscovery_Update :: "string list \<Rightarrow> EtcdDiscovery \<Rightarrow> EtcdDiscovery" where
  "EtcdDiscovery_Update ss d = d\<lparr>ed_servers := ss\<rparr>"

definition ed_ensure_fresh ::
  "(bytes \<Rightarrow> string option) \<Rightarrow> (string \<Rightarrow> goerr + bytes list) \<Rightarrow> time \<Rightarrow> time \<Rightarrow> EtcdDiscovery \<Rightarrow> goerr option \<times> EtcdDiscovery" where
  "ed_ensure_fresh endpoint fetch now now' d =
     (if length (ed_servers d) = 0 \<or> now - ed_lastRefresh d > ed_refreshInterval d
      then EtcdDiscovery_Refresh endpoint fetch now' d else (None, d))"

definition EtcdDiscovery_Get ::
  "(bytes \<Rightarrow> string option) \<Rightarrow> (string \<Rightarrow> goerr + bytes list) \<Rightarrow> (nat \<Rightarrow> nat) \<Rightarrow> time \<Rightarrow> time \<Rightarrow> SelectMode \<Rightarrow> EtcdDiscovery
   \<Rightarrow> (goerr + string) \<times> EtcdDiscovery" where
  "EtcdDiscovery_Get endpoint fetch rnd now now' mode d =
     (case ed_ensure_fresh endpoint fetch now now' d of
        (Some e, d) \<Rightarrow> (Inl e, d)
      | (None, d) \<Rightarrow>
          (let n = length (ed_servers d) in
           if n = 0 then (Inl ErrNoServers, d)
           else case mode of
             RandomSelect \<Rightarrow> (Inr (ed_servers d ! rnd n), d)
           | RoundRobinSelect \<Rightarrow>
               (Inr (ed_servers d ! (ed_idx d mod n)), d\<lparr>ed_idx := (ed_idx d + 1) mod n\<rparr>)
           | OtherMode _ \<Rightarrow> (Inl ErrUnsupportedMode, d)))"

definition EtcdDiscovery_GetAll ::
  "(bytes \<Rightarrow> string option) \<Rightarrow> (string \<Rightarrow> goerr + bytes list) \<Rightarrow> time \<Rightarrow> time \<Rightarrow> EtcdDiscovery \<Rightarrow> (goerr + string list) \<times> EtcdDiscovery" where
  "EtcdDiscovery_GetAll endpoint fetch now now' d =
     (case ed_ensure_fresh endpoint fetch now now' d of
        (Some e, d) \<Rightarrow> (Inl e, d)
      | (None, d) \<Rightarrow> (Inr (map id (ed_servers d)), d))"

section \<open>Round robin\<close>

text \<open>\<open>k\<close> calls in a row and what they return.\<close>

fun calls :: "('s \<Rightarrow> (goerr + string) \<times> 's) \<Rightarrow> nat \<Rightarrow> 's \<Rightarrow> (goerr + string) list \<times> 's" where
  "calls get 0 s = ([], s)"
| "calls get (Suc k) s = (case get s of (r, s') \<Rightarrow> case calls get k s' of (rs, t) \<Rightarrow> (r # rs, t))"

definition rotation :: "'a list \<Rightarrow> nat \<Rightarrow> nat \<Rightarrow> 'a list" where
  "rotation xs i k = map (\<lambda>j. xs ! ((i + j) mod length xs)) [0..<k]"

lemma rotation_Suc: "rotation xs i (Suc k) = xs ! (i mod length xs) # rotation xs ((i + 1) mod length xs) k"
proof -
  have "[0..<Suc k] = 0 # map Suc [0..<k]" by (simp add: upt_conv_Cons map_Suc_upt del: upt_Suc)
  then show ?thesis by (simp add: rotation_def o_def mod_add_left_eq)
qed

lemma rotation_full: "rotation xs i (length xs) = rotate i xs"
  by (rule nth_equalityI) (simp_all add: rotation_def nth_rotate)

lemma mset_rotate: "mset (rotate i xs) = mset xs"
proof -
  let ?k = "i mod length xs"
  have "mset (rotate i xs) = mset (take ?k xs) + mset (drop ?k xs)"
    by (simp add: rotate_drop_take)
  then show ?thesis by (metis append_take_drop_id mset_append)
qed

locale round_robin =
  fixes get :: "'s \<Rightarrow> (goerr + string) \<times> 's"
    and pool :: "'s \<Rightarrow> string list"
    and pos :: "'s \<Rightarrow> nat"
    and good :: "'s \<Rightarrow> bool"
  assumes get_next: "good s \<Longrightarrow> fst (get s) = Inr (pool s ! (pos s mod length (pool s)))"
    and get_pool: "good s \<Longrightarrow> pool (snd (get s)) = pool s"
    and get_pos: "good s \<Longrightarrow> pos (snd (get s)) = (pos s + 1) mod length (pool s)"
    and get_good: "good s \<Longrightarrow> good (snd (get s))"
begin

lemma calls_rotation:
  "good s \<Longrightarrow> fst (calls get k s) = map Inr (rotation (pool s) (pos s) k) \<and> good (snd (calls get k s))
     \<and> pool (snd (calls get k s)) = pool s"
proof (induction k arbitrary: s)
  case 0
  then show ?case by (simp add: rotation_def)
next
  case (Suc k)
  from Suc.IH [OF get_good [OF Suc.prems]] Suc.prems show ?case
    by (simp add: rotation_Suc get_next get_pool get_pos split: prod.split)
       (metis fst_conv get_next snd_conv get_pool get_pos)
qed

text \<open>One round, from any position, asks every server exactly as often as it is listed.\<close>

lemma fair_round:
  "good s \<Longrightarrow> fst (calls get (length (pool s)) s) = map Inr (rotate (pos s) (pool s))
     \<and> mset (map projr (fst (calls get (length (pool s)) s))) = mset (pool s)"
  using calls_rotation [of s "length (pool s)"] by (simp add: rotation_full mset_rotate o_def del: mset_map)

end

interpretation ms: round_robin "MultiServerRegistry_Get rnd RoundRobinSelect" ms_servers ms_idx
  "\<lambda>m. ms_servers m \<noteq> []" for rnd
  by unfold_locales (simp_all add: MultiServerRegistry_Get_def Let_def)

definition rd_fresh :: "time \<Rightarrow> RegistryDiscovery \<Rightarrow> bool" where
  "rd_fresh now d \<longleftrightarrow> rd_servers d \<noteq> [] \<and> now - rd_lastRefresh d \<le> rd_refreshInterval d"

interpretation rd: round_robin "RegistryDiscovery_Get lib n rnd now now' RoundRobinSelect" rd_servers rd_idx
  "rd_fresh now" for lib n rnd now now'
  by unfold_locales (simp_all add: RegistryDiscovery_Get_def rd_ensure_fresh_def rd_fresh_def Let_def)

definition ed_fresh :: "time \<Rightarrow> EtcdDiscovery \<Rightarrow> bool" where
  "ed_fresh now d \<longleftrightarrow> ed_servers d \<noteq> [] \<and> now - ed_lastRefresh d \<le> ed_refreshInterval d"

interpretation ed: round_robin "EtcdDiscovery_Get endpoint fetch rnd now now' RoundRobinSelect" ed_servers ed_idx
  "ed_fresh now" for endpoint fetch rnd now now'
  by unfold_locales (simp_all add: EtcdDiscovery_Get_def ed_ensure_fresh_def ed_fresh_def Let_def)

text \<open>
  Round robin over a fixed list is fair from any starting index (the random one of
  the constructor, or a stale one after \<open>Update\<close>): as many consecutive calls as there are
  servers go through the list once, in order, starting at the current index.
\<close>

theorem MultiServerRegistry_fair:
  assumes "ms_servers m \<noteq> []"
  shows "fst (calls (MultiServerRegistry_Get rnd RoundRobinSelect) (length (ms_servers m)) m)
      = map Inr (rotate (ms_idx m) (ms_servers m))
    \<and> mset (map projr (fst (calls (MultiServerRegistry_Get rnd RoundRobinSelect) (length (ms_servers m)) m)))
      = mset (ms_servers m)"
  using assms by (rule ms.fair_round)

theorem MultiServerRegistry_fair_witness:
  "let m = NewMultiServerRegistry (\<lambda>n. 7) [''a'', ''b'', ''c''] in
    fst (calls (MultiServerRegistry_Get (\<lambda>n. 7) RoundRobinSelect) (length (ms_servers m)) m)
      = map Inr (rotate (ms_idx m) (ms_servers m))
    \<and> mset (map projr (fst (calls (MultiServerRegistry_Get (\<lambda>n. 7) RoundRobinSelect) (length (ms_servers m)) m)))
      = mset (ms_servers m)"
  unfolding Let_def by (rule MultiServerRegistry_fair) (simp add: NewMultiServerRegistry_def)

lemma RegistryDiscovery_Refresh_None:
  "RegistryDiscovery_Refresh lib n now d = (None, d') \<Longrightarrow>
   TcpClient_GetService lib n (rd_serviceName d) = Inr (rd_servers d') \<and> rd_lastRefresh d' = now \<and> rd_idx d' = rd_idx d"
  by (auto simp: RegistryDiscovery_Refresh_def split: sum.splits)

text \<open>
  Discovery through the registry never answers from a list that is empty or older
  than the refresh interval: every address it returns, in either mode, is in the
  cached list if that is still fresh, and otherwise in the list the registry
  returned for this very call.
\<close>

theorem RegistryDiscovery_Get_fresh:
  assumes "RegistryDiscovery_Get lib n rnd now now' mode d = (Inr addr, d')" and "\<forall>k > 0. rnd k < k"
  shows "addr \<in> set (rd_servers d')
    \<and> (if rd_fresh now d then rd_servers d' = rd_servers d
       else TcpClient_GetService lib n (rd_serviceName d) = Inr (rd_servers d') \<and> rd_lastRefresh d' = now')"
proof -
  obtain d1 where d1: "rd_ensure_fresh lib n now now' d = (None, d1)"
    using assms(1) by (auto simp: RegistryDiscovery_Get_def split: prod.splits option.splits)
  then have src: "if rd_fresh now d then rd_servers d1 = rd_servers d
       else TcpClient_GetService lib n (rd_serviceName d) = Inr (rd_servers d1) \<and> rd_lastRefresh d1 = now'"
    by (auto simp: rd_ensure_fresh_def rd_fresh_def split: if_splits dest: RegistryDiscovery_Refresh_None)
  have ne: "rd_servers d1 \<noteq> []" and "addr \<in> set (rd_servers d1) \<and> rd_servers d' = rd_servers d1 \<and> rd_lastRefresh d' = rd_lastRefresh d1"
    using assms d1 by (auto simp: RegistryDiscovery_Get_def Let_def split: if_splits SelectMode.splits)
  with src show ?thesis by simp
qed

definition reply_json :: json_lib where
  "reply_json = \<lparr>print_request = \<lambda>_. [], parse_request = \<lambda>_. Inl EOF, print_response = \<lambda>_. [],
     parse_response = \<lambda>_. Inr (ok_response\<lparr>Data := Arr [Str ''a'', Str ''b'']\<rparr>)\<rparr>"

definition reply_net :: net where
  "reply_net = \<lparr>dial_err = None, write_err = None, reply = Inr []\<rparr>"

theorem RegistryDiscovery_Get_fresh_witness:
  "let d = NewRegistryDiscovery reply_json reply_net 0 0 ''s'';
       d' = snd (RegistryDiscovery_Get reply_json reply_net (\<lambda>k. k - 1) (2 * Minute) (2 * Minute) RandomSelect d) in
   ''b'' \<in> set (rd_servers d')
    \<and> (if rd_fresh (2 * Minute) d then rd_servers d' = rd_servers d
       else TcpClient_GetService reply_json reply_net (rd_serviceName d) = Inr (rd_servers d') \<and> rd_lastRefresh d' = 2 * Minute)"
  unfolding Let_def
proof (rule RegistryDiscovery_Get_fresh)
  let ?d = "NewRegistryDiscovery reply_json reply_net 0 0 ''s''"
  show "RegistryDiscovery_Get reply_json reply_net (\<lambda>k. k - 1) (2 * Minute) (2 * Minute) RandomSelect ?d =
      (Inr ''b'', snd (RegistryDiscovery_Get reply_json reply_net (\<lambda>k. k - 1) (2 * Minute) (2 * Minute) RandomSelect ?d))"
    by (simp add: RegistryDiscovery_Get_def rd_ensure_fresh_def NewRegistryDiscovery_def RegistryDiscovery_Refresh_def
        TcpClient_GetService_def string_list_def sendRequest_def reply_json_def reply_net_def)
qed simp

end
