(* ===== verification/ClientOption.thy ===== *)
theory ClientOption
  imports Discovery
begin

text \<open>
  The client's options (\<^verbatim>\<open>client_option.go\<close>). The types \<open>'m\<close> and \<open>'h\<close> are those of a
  middleware and of a stats handler. A \<open>ClientOption\<close> is a function on the option record that
  may panic. Of the TLS configuration only its presence is kept.
\<close>

record ('m, 'h) clientOption =
  clientMiddleware :: "'m option"
  co_chainMiddlewares :: "'m list"
  co_tls :: bool
  connectTimeout :: duration
  tcpKeepAlivePeriod :: duration
  idleTimeout :: duration
  maxPoolSize :: int
  co_maxReceiveMessageSize :: int
  co_maxSendMessageSize :: int
  co_heartbeatInterval :: duration
  heartbeatTimeout :: duration
  maxRetries :: int
  retryBackoff :: duration
  maxRetryBackoff :: duration
  balancerMode :: SelectMode
  co_registryAddr :: string
  etcdEndpoints :: "string list"
  co_statsHandlers :: "'h list"

type_synonym ('m, 'h) ClientOption = "('m, 'h) clientOption \<Rightarrow> ('m, 'h) clientOption outcome"

definition defaultClientMaxReceiveMessageSize :: int where
  "defaultClientMaxReceiveMessageSize = 1024 * 1024 * 5"

definition defaultClientMaxSendMessageSize :: int where
  "defaultClientMaxSendMessageSize = 2 ^ 31 - 1"

definition defaultConnectTimeout :: duration where
  "defaultConnectTimeout = 20 * Second"

definition defaultMaxPoolSize :: int where
  "defaultMaxPoolSize = 50"

definition defaultHeartbeatInterval :: duration where
  "defaultHeartbeatInterval = 30 * Second"

definition defaultHeartbeatTimeout :: duration where
  "defaultHeartbeatTimeout = 5 * Second"

definition defaultTCPKeepAlivePeriod :: duration where
  "defaultTCPKeepAlivePeriod = 15 * Second"

definition defaultMaxRetries :: int where
  "defaultMaxRetries = 2"

definition defaultRetryBackoff :: duration where
  "defaultRetryBackoff = 100 * Millisecond"

definition defaultMaxRetryBackoff :: duration where
  "defaultMaxRetryBackoff = 1 * Second"

definition defaultClientOption :: "('m, 'h) clientOption" where
  "defaultClientOption =
     \<lparr>clientMiddleware = None, co_chainMiddlewares = [], co_tls = False,
      connectTimeout = defaultConnectTimeout, tcpKeepAlivePeriod = defaultTCPKeepAlivePeriod,
      idleTimeout = 0, maxPoolSize = defaultMaxPoolSize,
      co_maxReceiveMessageSize = defaultClientMaxReceiveMessageSize,
      co_maxSendMessageSize = defaultClientMaxSendMessageSize,
      co_heartbeatInterval = defaultHeartbeatInterval, heartbeatTimeout = defaultHeartbeatTimeout,
      maxRetries = defaultMaxRetries, retryBackoff = defaultRetryBackoff,
      maxRetryBackoff = defaultMaxRetryBackoff, balancerMode = RoundRobinSelect,
      co_registryAddr = [], etcdEndpoints = [], co_statsHandlers = []\<rparr>"

definition DialWithMiddleware :: "'m \<Rightarrow> ('m, 'h) ClientOption" where
  "DialWithMiddleware mw opt =
     (case clientMiddleware opt of Some _ \<Rightarrow> Panic | None \<Rightarrow> Ok (opt\<lparr>clientMiddleware := Some mw\<rparr>))"

definition DialWithChainMiddleware :: "'m list \<Rightarrow> ('m, 'h) ClientOption" where
  "DialWithChainMiddleware mws opt = Ok (opt\<lparr>co_chainMiddlewares := co_chainMiddlewares opt @ mws\<rparr>)"

definition DialWithTLSConfig :: "bool \<Rightarrow> ('m, 'h) ClientOption" where
  "DialWithTLSConfig tls opt = Ok (opt\<lparr>co_tls := tls\<rparr>)"

definition DialWithConnectTimeout :: "duration \<Rightarrow> ('m, 'h) ClientOption" where
  "DialWithConnectTimeout period opt = Ok (opt\<lparr>connectTimeout := period\<rparr>)"

definition DialWithIdleTimeout :: "duration \<Rightarrow> ('m, 'h) ClientOption" where
  "DialWithIdleTimeout idle opt = Ok (opt\<lparr>idleTimeout := idle\<rparr>)"

definition DialWithTCPKeepAlive :: "duration \<Rightarrow> ('m, 'h) ClientOption" where
  "DialWithTCPKeepAlive period opt = Ok (opt\<lparr>tcpKeepAlivePeriod := period\<rparr>)"

definition DialWithMaxPoolSize :: "int \<Rightarrow> ('m, 'h) ClientOption" where
  "DialWithMaxPoolSize sz opt = Ok (opt\<lparr>maxPoolSize := sz\<rparr>)"

definition DialWithHeartbeatInterval :: "duration \<Rightarrow> ('m, 'h) ClientOption" where
  "DialWithHeartbeatInterval interval opt = Ok (opt\<lparr>co_heartbeatInterval := interval\<rparr>)"

definition DialWithHeartbeatTimeout :: "duration \<Rightarrow> ('m, 'h) ClientOption" where
  "DialWithHeartbeatTimeout timeout opt = Ok (opt\<lparr>heartbeatTimeout := timeout\<rparr>)"

definition DialWithMaxRetries :: "int \<Rightarrow> ('m, 'h) ClientOption" where
  "DialWithMaxRetries retries opt = Ok (opt\<lparr>maxRetries := retries\<rparr>)"

definition DialWithRetryBackoff :: "duration \<Rightarrow> ('m, 'h) ClientOption" where
  "DialWithRetryBackoff backoff opt = Ok (opt\<lparr>retryBackoff := backoff\<rparr>)"

definition DialWithMaxRetryBackoff :: "duration \<Rightarrow> ('m, 'h) ClientOption" where
  "DialWithMaxRetryBackoff maxBackoff opt = Ok (opt\<lparr>maxRetryBackoff := maxBackoff\<rparr>)"

definition DialWithBalancer :: "SelectMode \<Rightarrow> ('m, 'h) ClientOption" where
  "DialWithBalancer mode opt = Ok (opt\<lparr>balancerMode := mode\<rparr>)"

definition DialWithRegistryAddress :: "string \<Rightarrow> ('m, 'h) ClientOption" where
  "DialWithRegistryAddress addr opt = Ok (opt\<lparr>co_registryAddr := addr\<rparr>)"

definition DialWithEtcdEndpoints :: "string list \<Rightarrow> ('m, 'h) ClientOption" where
  "DialWithEtcdEndpoints eps opt = Ok (opt\<lparr>etcdEndpoints := eps\<rparr>)"

definition DialWithStatsHandler :: "'h \<Rightarrow> ('m, 'h) ClientOption" where
  "DialWithStatsHandler handler opt = Ok (opt\<lparr>co_statsHandlers := co_statsHandlers opt @ [handler]\<rparr>)"

text \<open>\<open>NewClient\<close> applies the options in order; a panic ends it.\<close>

fun apply_options :: "('o \<Rightarrow> 'o outcome) list \<Rightarrow> 'o \<Rightarrow> 'o outcome" where
  "apply_options [] opt = Ok opt"
| "apply_options (o1 # os) opt =
     (case o1 opt of Ok opt' \<Rightarrow> apply_options os opt' | Fail e \<Rightarrow> Fail e | Panic \<Rightarrow> Panic)"

lemma apply_options_append:
  "apply_options (os @ os') opt =
     (case apply_options os opt of Ok opt' \<Rightarrow> apply_options os' opt' | Fail e \<Rightarrow> Fail e | Panic \<Rightarrow> Panic)"
  by (induction os arbitrary: opt) (simp_all split: outcome.split)

end
