(* ===== verification/Wire_Header.thy ===== *)
theory Wire_Header
  imports Prelude
begin

text \<open>
  The fixed message header (\<^verbatim>\<open>protocol/message.go\<close>, type \<open>Header\<close>): eleven bytes, the
  magic number, the version, one byte of packed flags and the little-endian
  sequence number. The flag byte is addressed with the source's masks and
  shifts on 8-bit words.

  Every header field is a \<open>field\<close> in the sense of the locale below: what is
  stored is read back, storing twice keeps the last value, storing what is
  there changes nothing, and the array keeps its length. The interpretations
  discharge these laws for the six accessor pairs; the independence lemmas say
  that no accessor disturbs another.
\<close>

type_synonym Header = bytes

section \<open>Accessors\<close>

definition magicNumber :: byte where "magicNumber = 0x26"

definition Request :: byte where "Request = 0"
definition Response :: byte where "Response = 1"

definition Normal :: byte where "Normal = 0"
definition Error_status :: byte where "Error_status = 1"

definition None_compress :: byte where "None_compress = 0"
definition Gzip :: byte where "Gzip = 1"

definition MagicNumber :: byte where "MagicNumber = magicNumber"

definition NewHeader :: Header where
  "NewHeader = (replicate 11 0)[0 := magicNumber]"

definition CheckMagicNumber :: "Header \<Rightarrow> bool" where
  "CheckMagicNumber h \<longleftrightarrow> h ! 0 = magicNumber"

definition SetVersion :: "Header \<Rightarrow> byte \<Rightarrow> Header" where
  "SetVersion h version = h[1 := version]"

definition Version :: "Header \<Rightarrow> byte" where
  "Version h = h ! 1"

definition SetMessageType :: "Header \<Rightarrow> byte \<Rightarrow> Header" where
  "SetMessageType h mt = h[2 := (h ! 2 AND NOT 0x80) OR push_bit 7 mt]"

definition GetMessageType :: "Header \<Rightarrow> byte" where
  "GetMessageType h = drop_bit 7 (h ! 2 AND 0x80)"

definition SetMessageStatusType :: "Header \<Rightarrow> byte \<Rightarrow> Header" where
  "SetMessageStatusType h mst = h[2 := (h ! 2 AND NOT 0x40) OR push_bit 6 mst]"

definition GetMessageStatusType :: "Header \<Rightarrow> byte" where
  "GetMessageStatusType h = drop_bit 6 (h ! 2 AND 0x40)"

definition IsHeartBeat :: "Header \<Rightarrow> bool" where
  "IsHeartBeat h \<longleftrightarrow> h ! 2 AND 0x20 = 0x20"

definition SetHeartBeat :: "Header \<Rightarrow> bool \<Rightarrow> Header" where
  "SetHeartBeat h hb = (if hb then h[2 := h ! 2 OR 0x20] else h[2 := h ! 2 AND NOT 0x20])"

definition SetCompressType :: "Header \<Rightarrow> byte \<Rightarrow> Header" where
  "SetCompressType h ct = h[2 := (h ! 2 AND NOT 0x10) OR push_bit 4 ct]"

definition GetCompressType :: "Header \<Rightarrow> byte" where
  "GetCompressType h = drop_bit 4 (h ! 2 AND 0x10)"

definition GetSeq :: "Header \<Rightarrow> uint64" where
  "GetSeq h = Uint64 (drop 3 h)"

definition SetSeq :: "Header \<Rightarrow> uint64 \<Rightarrow> Header" where
  "SetSeq h seq = take 3 h @ PutUint64 seq"

definition header_ok :: "Header \<Rightarrow> bool" where
  "header_ok h \<longleftrightarrow> length h = 11"

lemmas header_defs = SetVersion_def Version_def SetMessageType_def GetMessageType_def
  SetMessageStatusType_def GetMessageStatusType_def IsHeartBeat_def SetHeartBeat_def
  SetCompressType_def GetCompressType_def GetSeq_def SetSeq_def

section \<open>Bits of the flag byte\<close>

lemma mask_bits:
  "bit (0x80 :: int) n \<longleftrightarrow> n = 7" "bit (0x40 :: int) n \<longleftrightarrow> n = 6"
  "bit (0x20 :: int) n \<longleftrightarrow> n = 5" "bit (0x10 :: int) n \<longleftrightarrow> n = 4"
proof -
  have "(0x80 :: int) = push_bit 7 1" "(0x40 :: int) = push_bit 6 1"
    "(0x20 :: int) = push_bit 5 1" "(0x10 :: int) = push_bit 4 1" by simp_all
  then show "bit (0x80 :: int) n \<longleftrightarrow> n = 7" "bit (0x40 :: int) n \<longleftrightarrow> n = 6"
    "bit (0x20 :: int) n \<longleftrightarrow> n = 5" "bit (0x10 :: int) n \<longleftrightarrow> n = 4"
    by (simp_all only: bit_push_bit_iff bit_1_iff) auto
qed

text \<open>The value of a one-bit field.\<close>

definition is_bit :: "byte \<Rightarrow> bool" where
  "is_bit v \<longleftrightarrow> v = 0 \<or> v = 1"

lemma is_bit_bits: "is_bit v \<Longrightarrow> bit v n \<longleftrightarrow> n = 0 \<and> v = 1"
  by (auto simp: is_bit_def bit_1_iff)

lemma drop_and_mask:
  "drop_bit 7 (b AND 0x80) = (of_bool (bit b 7) :: byte)"
  "drop_bit 6 (b AND 0x40) = (of_bool (bit b 6) :: byte)"
  "drop_bit 4 (b AND 0x10) = (of_bool (bit b 4) :: byte)"
  by (rule bit_word_eqI; auto simp: bit_simps mask_bits)+

lemma and_mask_heartbeat: "b AND 0x20 = 0x20 \<longleftrightarrow> bit (b :: byte) 5"
proof
  assume eq: "b AND 0x20 = 0x20"
  have "bit (b AND 0x20) 5 = bit (0x20 :: byte) 5" by (simp only: eq)
  then show "bit b 5" by (simp add: bit_simps mask_bits)
next
  assume "bit b 5"
  then show "b AND 0x20 = 0x20"
    by (intro bit_word_eqI) (auto simp: bit_simps mask_bits)
qed

lemma is_bit_of_bool [simp]: "is_bit (of_bool P)"
  by (simp add: is_bit_def)

lemma getter_bits:
  "GetMessageType h = of_bool (bit (h ! 2) 7)" "GetMessageStatusType h = of_bool (bit (h ! 2) 6)"
  "GetCompressType h = of_bool (bit (h ! 2) 4)" "IsHeartBeat h = bit (h ! 2) 5"
  by (simp_all only: header_defs drop_and_mask and_mask_heartbeat)

lemma is_bit_getters [simp]:
  "is_bit (GetMessageType h)" "is_bit (GetMessageStatusType h)" "is_bit (GetCompressType h)"
  by (simp_all only: getter_bits is_bit_of_bool)

text \<open>The effect of each setter on every bit.\<close>

lemma setter_bits:
  assumes "header_ok h"
  shows "is_bit v \<Longrightarrow> n < 8 \<Longrightarrow> bit (SetMessageType h v ! 2) n = (if n = 7 then v = 1 else bit (h ! 2) n)"
    and "is_bit v \<Longrightarrow> n < 8 \<Longrightarrow> bit (SetMessageStatusType h v ! 2) n = (if n = 6 then v = 1 else bit (h ! 2) n)"
    and "n < 8 \<Longrightarrow> bit (SetHeartBeat h hb ! 2) n = (if n = 5 then hb else bit (h ! 2) n)"
    and "is_bit v \<Longrightarrow> n < 8 \<Longrightarrow> bit (SetCompressType h v ! 2) n = (if n = 4 then v = 1 else bit (h ! 2) n)"
  using assms
  by (auto simp: header_defs header_ok_def bit_simps mask_bits is_bit_bits)

lemma setters_elsewhere [simp]:
  "i \<noteq> 2 \<Longrightarrow> SetMessageType h v ! i = h ! i" "i \<noteq> 2 \<Longrightarrow> SetMessageStatusType h v ! i = h ! i"
  "i \<noteq> 2 \<Longrightarrow> SetHeartBeat h hb ! i = h ! i" "i \<noteq> 2 \<Longrightarrow> SetCompressType h v ! i = h ! i"
  "i \<noteq> 1 \<Longrightarrow> SetVersion h v ! i = h ! i"
  by (auto simp: header_defs)

lemma header_ok_NewHeader [simp, intro]: "header_ok NewHeader"
  by (simp add: header_ok_def NewHeader_def)

lemma setters_length [simp]:
  "length (SetMessageType h v) = length h" "length (SetMessageStatusType h v) = length h"
  "length (SetHeartBeat h hb) = length h" "length (SetCompressType h v) = length h"
  "length (SetVersion h v) = length h"
  by (simp_all add: header_defs)

lemma setters_ok [simp, intro]:
  assumes "header_ok h"
  shows "header_ok (SetVersion h v)" "header_ok (SetMessageType h v)"
    "header_ok (SetMessageStatusType h v)" "header_ok (SetHeartBeat h hb)"
    "header_ok (SetCompressType h v)" "header_ok (SetSeq h s)"
  using assms by (auto simp: header_ok_def SetSeq_def)

lemma SetSeq_nth [simp]: "header_ok h \<Longrightarrow> i < 3 \<Longrightarrow> SetSeq h s ! i = h ! i"
  by (simp add: SetSeq_def header_ok_def nth_append)

lemma setters_drop3 [simp]:
  "drop 3 (SetMessageType h v) = drop 3 h" "drop 3 (SetMessageStatusType h v) = drop 3 h"
  "drop 3 (SetHeartBeat h hb) = drop 3 h" "drop 3 (SetCompressType h v) = drop 3 h"
  "drop 3 (SetVersion h v) = drop 3 h"
  by (auto simp: header_defs)

lemma byte_bits_eqI: "(\<And>n. n < 8 \<Longrightarrow> bit a n = bit b n) \<Longrightarrow> a = (b :: byte)"
  by (rule bit_word_eqI) simp

lemma header_eqI:
  assumes "length h = length h'" "h ! 2 = h' ! 2" "\<And>i. i \<noteq> 2 \<Longrightarrow> i < length h \<Longrightarrow> h ! i = h' ! i"
  shows "h = h'"
  using assms by (metis nth_equalityI)

section \<open>The field contract\<close>

locale field =
  fixes get :: "Header \<Rightarrow> 'v"
    and put :: "Header \<Rightarrow> 'v \<Rightarrow> Header"
    and valid :: "'v \<Rightarrow> bool"
  assumes get_put: "header_ok h \<Longrightarrow> valid v \<Longrightarrow> get (put h v) = v"
    and put_put: "header_ok h \<Longrightarrow> valid v \<Longrightarrow> valid w \<Longrightarrow> put (put h v) w = put h w"
    and put_get: "header_ok h \<Longrightarrow> put h (get h) = h"
    and put_ok: "header_ok h \<Longrightarrow> header_ok (put h v)"
    and get_valid: "header_ok h \<Longrightarrow> valid (get h)"
begin

text \<open>Two headers written with the same value agree exactly when they agreed up to that field.\<close>

lemma put_eq_iff:
  assumes "header_ok h" "header_ok h'" "valid v" "valid w"
  shows "put h v = put h' v \<longleftrightarrow> put h w = put h' w"
  using assms by (metis put_put)

lemma restore: "header_ok h \<Longrightarrow> valid v \<Longrightarrow> put (put h v) (get h) = h"
  by (simp add: put_put put_get get_valid)

end

interpretation version: field Version SetVersion "\<lambda>_. True"
  by unfold_locales (auto simp: header_defs header_ok_def)

interpretation message_type: field GetMessageType SetMessageType is_bit
proof unfold_locales
  fix h v w assume h: "header_ok h"
  show "is_bit v \<Longrightarrow> GetMessageType (SetMessageType h v) = v"
    using setter_bits(1) [OF h] by (auto simp: getter_bits is_bit_def)
  show "is_bit v \<Longrightarrow> is_bit w \<Longrightarrow> SetMessageType (SetMessageType h v) w = SetMessageType h w"
    using h by (intro header_eqI byte_bits_eqI) (simp_all add: setter_bits)
  show "SetMessageType h (GetMessageType h) = h"
    using h by (intro header_eqI byte_bits_eqI) (auto simp: setter_bits getter_bits)
qed auto

interpretation message_status: field GetMessageStatusType SetMessageStatusType is_bit
proof unfold_locales
  fix h v w assume h: "header_ok h"
  show "is_bit v \<Longrightarrow> GetMessageStatusType (SetMessageStatusType h v) = v"
    using setter_bits(2) [OF h] by (auto simp: getter_bits is_bit_def)
  show "is_bit v \<Longrightarrow> is_bit w \<Longrightarrow> SetMessageStatusType (SetMessageStatusType h v) w = SetMessageStatusType h w"
    using h by (intro header_eqI byte_bits_eqI) (simp_all add: setter_bits)
  show "SetMessageStatusType h (GetMessageStatusType h) = h"
    using h by (intro header_eqI byte_bits_eqI) (auto simp: setter_bits getter_bits)
qed auto

interpretation heartbeat: field IsHeartBeat SetHeartBeat "\<lambda>_. True"
proof unfold_locales
  fix h v w assume h: "header_ok h"
  show "IsHeartBeat (SetHeartBeat h v) = v"
    using setter_bits(3) [OF h] by (auto simp: getter_bits)
  show "SetHeartBeat (SetHeartBeat h v) w = SetHeartBeat h w"
    using h by (intro header_eqI byte_bits_eqI) (simp_all add: setter_bits)
  show "SetHeartBeat h (IsHeartBeat h) = h"
    using h by (intro header_eqI byte_bits_eqI) (auto simp: setter_bits getter_bits)
qed auto

interpretation compress_type: field GetCompressType SetCompressType is_bit
proof unfold_locales
  fix h v w assume h: "header_ok h"
  show "is_bit v \<Longrightarrow> GetCompressType (SetCompressType h v) = v"
    using setter_bits(4) [OF h] by (auto simp: getter_bits is_bit_def)
  show "is_bit v \<Longrightarrow> is_bit w \<Longrightarrow> SetCompressType (SetCompressType h v) w = SetCompressType h w"
    using h by (intro header_eqI byte_bits_eqI) (simp_all add: setter_bits)
  show "SetCompressType h (GetCompressType h) = h"
    using h by (intro header_eqI byte_bits_eqI) (auto simp: setter_bits getter_bits)
qed auto

lemma GetSeq_SetSeq [simp]: "header_ok h \<Longrightarrow> GetSeq (SetSeq h s) = s"
  by (simp add: GetSeq_def SetSeq_def header_ok_def)

interpretation seq: field GetSeq SetSeq "\<lambda>_. True"
proof unfold_locales
  fix h :: Header and v w assume h: "header_ok h"
  show "SetSeq (SetSeq h v) w = SetSeq h w"
    using h by (simp add: SetSeq_def header_ok_def)
  have "PutUint64 (Uint64 (drop 3 h)) = drop 3 h"
    using h PutUint64_Uint64 [of "drop 3 h"] by (simp add: header_ok_def)
  then show "SetSeq h (GetSeq h) = h" by (simp add: SetSeq_def GetSeq_def)
qed auto

section \<open>The abstract header\<close>

text \<open>What a header says, field by field, and the header as this abstract record.\<close>

record fields =
  f_magic :: byte
  f_version :: byte
  f_type :: byte
  f_status :: byte
  f_heartbeat :: bool
  f_compress :: byte
  f_seq :: uint64

definition header_view :: "Header \<Rightarrow> fields" where
  "header_view h = \<lparr>f_magic = h ! 0, f_version = Version h, f_type = GetMessageType h,
     f_status = GetMessageStatusType h, f_heartbeat = IsHeartBeat h,
     f_compress = GetCompressType h, f_seq = GetSeq h\<rparr>"

lemma view_SetVersion: "header_ok h \<Longrightarrow> header_view (SetVersion h v) = (header_view h)\<lparr>f_version := v\<rparr>"
  by (simp add: header_view_def version.get_put getter_bits GetSeq_def)

lemma view_SetMessageType:
  "header_ok h \<Longrightarrow> is_bit v \<Longrightarrow> header_view (SetMessageType h v) = (header_view h)\<lparr>f_type := v\<rparr>"
  by (simp add: header_view_def message_type.get_put)
     (simp add: getter_bits setter_bits GetSeq_def Version_def)

lemma view_SetMessageStatusType:
  "header_ok h \<Longrightarrow> is_bit v \<Longrightarrow> header_view (SetMessageStatusType h v) = (header_view h)\<lparr>f_status := v\<rparr>"
  by (simp add: header_view_def message_status.get_put)
     (simp add: getter_bits setter_bits GetSeq_def Version_def)

lemma view_SetHeartBeat: "header_ok h \<Longrightarrow> header_view (SetHeartBeat h b) = (header_view h)\<lparr>f_heartbeat := b\<rparr>"
  by (simp add: header_view_def heartbeat.get_put)
     (simp add: getter_bits setter_bits GetSeq_def Version_def)

lemma view_SetCompressType:
  "header_ok h \<Longrightarrow> is_bit v \<Longrightarrow> header_view (SetCompressType h v) = (header_view h)\<lparr>f_compress := v\<rparr>"
  by (simp add: header_view_def compress_type.get_put)
     (simp add: getter_bits setter_bits GetSeq_def Version_def)

lemma view_SetSeq: "header_ok h \<Longrightarrow> header_view (SetSeq h s) = (header_view h)\<lparr>f_seq := s\<rparr>"
  by (simp add: header_view_def getter_bits Version_def)

lemmas header_views = view_SetVersion view_SetMessageType view_SetMessageStatusType
  view_SetHeartBeat view_SetCompressType view_SetSeq

lemma header_view_sel [simp]:
  "f_magic (header_view h) = h ! 0" "f_version (header_view h) = Version h"
  "f_type (header_view h) = GetMessageType h" "f_status (header_view h) = GetMessageStatusType h"
  "f_heartbeat (header_view h) = IsHeartBeat h" "f_compress (header_view h) = GetCompressType h"
  "f_seq (header_view h) = GetSeq h"
  by (simp_all add: header_view_def)

text \<open>
  \<^bold>\<open>C6\<close>. The packed header implements the abstract record of its fields: each setter,
  with its masks and shifts, changes exactly its own field, for every header and
  every legal value.
\<close>

theorem header_refines_record:
  assumes "header_ok h" and "is_bit v"
  shows "header_view (SetVersion h x) = (header_view h)\<lparr>f_version := x\<rparr>
    \<and> header_view (SetMessageType h v) = (header_view h)\<lparr>f_type := v\<rparr>
    \<and> header_view (SetMessageStatusType h v) = (header_view h)\<lparr>f_status := v\<rparr>
    \<and> header_view (SetHeartBeat h b) = (header_view h)\<lparr>f_heartbeat := b\<rparr>
    \<and> header_view (SetCompressType h v) = (header_view h)\<lparr>f_compress := v\<rparr>
    \<and> header_view (SetSeq h s) = (header_view h)\<lparr>f_seq := s\<rparr>"
  using assms by (simp add: header_views)

theorem header_refines_record_witness:
  "header_view (SetMessageType NewHeader Response) = (header_view NewHeader)\<lparr>f_type := Response\<rparr>"
  using header_refines_record [of NewHeader Response] by (simp add: is_bit_def Response_def)

end
