(* ===== verification/Compress.thy ===== *)
theory Compress
  imports Wire_Header
begin

text \<open>
  Payload compression (\<^verbatim>\<open>protocol/compress.go\<close> and the helpers of \<^verbatim>\<open>protocol/util.go\<close>).

  The DEFLATE coder itself is package \<open>compress/gzip\<close>; it is a parameter, a record of
  two functions: \<open>gz_deflate\<close> is \<open>Write\<close> followed by \<open>Close\<close>, \<open>gz_inflate\<close> is \<open>Reset\<close>
  followed by the finite sequence of \<open>Read\<close> results. Its documented behaviour is the
  named hypothesis \<open>gzip_ok\<close>: inflating what was deflated gives the data back.

  The locale \<open>compressor\<close> is the contract of the Go interface \<open>Compressor\<close> that the
  message encoder relies on. The raw compressor is an instance outright, the gzip
  compressor one for every coder that satisfies \<open>gzip_ok\<close>.
\<close>

section \<open>The gzip package\<close>

text \<open>
  Successive \<open>Read\<close> results: data with a nil error, then data with \<open>io.EOF\<close> or with
  another error.
\<close>

datatype gz_stream = GzData bytes gz_stream | GzEOF bytes | GzFail bytes goerr

record gzip_lib =
  gz_deflate :: "bytes \<Rightarrow> goerr + bytes"
  gz_inflate :: "bytes \<Rightarrow> goerr + gz_stream"

fun stream_data :: "gz_stream \<Rightarrow> bytes option" where
  "stream_data (GzData d s) = map_option ((@) d) (stream_data s)"
| "stream_data (GzEOF d) = Some d"
| "stream_data (GzFail d e) = None"

definition gzip_ok :: "gzip_lib \<Rightarrow> bool" where
  "gzip_ok lib \<longleftrightarrow>
     (\<forall>d c. d \<noteq> [] \<longrightarrow> gz_deflate lib d = Inr c \<longrightarrow>
        c \<noteq> [] \<and> (\<exists>s. gz_inflate lib c = Inr s \<and> stream_data s = Some d))"

section \<open>Zip and unzip\<close>

definition CompressThreshold :: nat where
  "CompressThreshold = 1024"

fun unzip_loop :: "bytes \<Rightarrow> gz_stream \<Rightarrow> goerr + bytes" where
  "unzip_loop result (GzData d s) = unzip_loop (result @ d) s"
| "unzip_loop result (GzEOF d) = Inr (result @ d)"
| "unzip_loop result (GzFail d e) = Inl e"

definition unzip_gz :: "gzip_lib \<Rightarrow> bytes \<Rightarrow> goerr + bytes" where
  "unzip_gz lib data =
     (if length data = 0 then Inr []
      else case gz_inflate lib data of Inl e \<Rightarrow> Inl e | Inr s \<Rightarrow> unzip_loop [] s)"

definition zip_gz :: "gzip_lib \<Rightarrow> bytes \<Rightarrow> goerr + bytes" where
  "zip_gz lib data = (if length data = 0 then Inr [] else gz_deflate lib data)"

definition GzipCompressor_Zip :: "gzip_lib \<Rightarrow> bytes \<Rightarrow> goerr + bytes" where
  "GzipCompressor_Zip lib data =
     (if length data < CompressThreshold then Inr data
      else case zip_gz lib data of
             Inl e \<Rightarrow> Inr data
           | Inr compressed \<Rightarrow>
               if length compressed \<ge> length data then Inr data else Inr compressed)"

definition GzipCompressor_Unzip :: "gzip_lib \<Rightarrow> bytes \<Rightarrow> goerr + bytes" where
  "GzipCompressor_Unzip lib data = (if length data = 0 then Inr data else unzip_gz lib data)"

definition RawDataCompressor_Zip :: "bytes \<Rightarrow> goerr + bytes" where
  "RawDataCompressor_Zip data = Inr data"

definition RawDataCompressor_Unzip :: "bytes \<Rightarrow> goerr + bytes" where
  "RawDataCompressor_Unzip data = Inr data"

text \<open>The package variable \<open>Compressors\<close>: the pair of functions registered for a type.\<close>

type_synonym Compressor = "(bytes \<Rightarrow> goerr + bytes) \<times> (bytes \<Rightarrow> goerr + bytes)"

definition Compressors :: "gzip_lib \<Rightarrow> byte \<Rightarrow> Compressor option" where
  "Compressors lib ct =
     (if ct = None_compress then Some (RawDataCompressor_Zip, RawDataCompressor_Unzip)
      else if ct = Gzip then Some (GzipCompressor_Zip lib, GzipCompressor_Unzip lib)
      else None)"

section \<open>The compressor contract\<close>

locale compressor =
  fixes Zip :: "bytes \<Rightarrow> goerr + bytes"
    and Unzip :: "bytes \<Rightarrow> goerr + bytes"
  assumes zip_total: "\<exists>c. Zip d = Inr c"
    and zip_no_longer: "Zip d = Inr c \<Longrightarrow> length c \<le> length d"
    and unzip_zip: "Zip d = Inr c \<Longrightarrow> length c < length d \<Longrightarrow> Unzip c = Inr d"
    and unzip_empty: "Unzip [] = Inr []"
begin

text \<open>Whenever the encoder keeps the compressed form, that form is decodable.\<close>

lemma kept_form_decodes:
  assumes "Zip d = Inr c" "\<not> length d \<le> length c"
  shows "Unzip c = Inr d"
  using assms by (auto intro: unzip_zip)

end

interpretation raw: compressor RawDataCompressor_Zip RawDataCompressor_Unzip
  by unfold_locales (auto simp: RawDataCompressor_Zip_def RawDataCompressor_Unzip_def)

lemma unzip_loop_data: "stream_data s = Some d \<Longrightarrow> unzip_loop acc s = Inr (acc @ d)"
  by (induction s arbitrary: acc d) auto

lemma unzip_zip_gz:
  assumes "gzip_ok lib" "d \<noteq> []" "zip_gz lib d = Inr c"
  shows "c \<noteq> [] \<and> unzip_gz lib c = Inr d"
proof -
  from assms obtain s where "c \<noteq> []" "gz_inflate lib c = Inr s" "stream_data s = Some d"
    by (auto simp: gzip_ok_def zip_gz_def)
  then show ?thesis by (simp add: unzip_gz_def unzip_loop_data)
qed

lemma gzip_compressor:
  assumes ok: "gzip_ok lib"
  shows "compressor (GzipCompressor_Zip lib) (GzipCompressor_Unzip lib)"
proof
  fix d c
  show "\<exists>c. GzipCompressor_Zip lib d = Inr c"
    by (auto simp: GzipCompressor_Zip_def split: sum.splits)
  show "GzipCompressor_Unzip lib [] = Inr []"
    by (simp add: GzipCompressor_Unzip_def)
  assume z: "GzipCompressor_Zip lib d = Inr c"
  then show "length c \<le> length d"
    by (auto simp: GzipCompressor_Zip_def split: if_splits sum.splits)
  assume "length c < length d"
  with z have "zip_gz lib d = Inr c" "d \<noteq> []"
    by (auto simp: GzipCompressor_Zip_def split: if_splits sum.splits)
  with unzip_zip_gz [OF ok] show "GzipCompressor_Unzip lib c = Inr d"
    by (simp add: GzipCompressor_Unzip_def)
qed

lemma Compressors_compressor:
  assumes "gzip_ok lib" "Compressors lib ct = Some (Zip, Unzip)"
  shows "compressor Zip Unzip"
  using assms gzip_compressor raw.compressor_axioms
  by (auto simp: Compressors_def split: if_splits)

lemma Compressors_bit: "is_bit ct \<Longrightarrow> \<exists>z u. Compressors lib ct = Some (z, u)"
  by (auto simp: is_bit_def Compressors_def None_compress_def Gzip_def)

section \<open>A coder for examples\<close>

text \<open>
  Runs of a single byte become its value and length marker; everything else is stored.
  It shows that \<open>gzip_ok\<close> can hold of a coder that does compress.
\<close>

definition run_length_gz :: gzip_lib where
  "run_length_gz = \<lparr>
     gz_deflate = (\<lambda>d. if d = replicate 2048 7 then Inr [1] else Inr (0 # d)),
     gz_inflate = (\<lambda>c. case c of
        [] \<Rightarrow> Inl UnexpectedEOF
      | b # d \<Rightarrow> if b = 1 then Inr (GzEOF (replicate 2048 7)) else Inr (GzData d (GzEOF [])))\<rparr>"

lemma run_length_gz_ok: "gzip_ok run_length_gz"
  by (auto simp: gzip_ok_def run_length_gz_def)

text \<open>
  Both registered compressors keep the contract the encoder relies on: zipping
  always succeeds, never lengthens the payload, and what it shortened unzips to the
  original, for every gzip coder that inverts itself.
\<close>

theorem registered_compressors_invert:
  assumes "gzip_ok lib" and "Compressors lib ct = Some (Zip, Unzip)"
  shows "\<exists>c. Zip d = Inr c \<and> length c \<le> length d \<and> (length c < length d \<longrightarrow> Unzip c = Inr d)"
proof -
  have c: "compressor Zip Unzip" using assms by (rule Compressors_compressor)
  then obtain c where "Zip d = Inr c" using compressor.zip_total by blast
  with compressor.zip_no_longer [OF c] compressor.unzip_zip [OF c] show ?thesis by blast
qed

theorem registered_compressors_invert_witness:
  "\<exists>c. GzipCompressor_Zip run_length_gz (replicate 2048 7) = Inr c
     \<and> length c \<le> length (replicate 2048 (7 :: byte))
     \<and> (length c < length (replicate 2048 (7 :: byte)) \<longrightarrow>
          GzipCompressor_Unzip run_length_gz c = Inr (replicate 2048 7))"
  by (rule registered_compressors_invert [OF run_length_gz_ok, where ct = Gzip])
     (simp add: Compressors_def Gzip_def None_compress_def)

end
