(* ===== verification/Wire_Codec.thy ===== *)
theory Wire_Codec
  imports Wire_Message
begin

text \<open>
  Correctness of the wire format: the encoder against its reference layout, the decoder
  against the encoder, safety of the decoder on arbitrary bytes, and the behaviour of a
  stream of frames. The definitions of the code are in \<open>Wire_Message\<close>.
\<close>

section \<open>The reference layout\<close>

definition lp :: "bytes \<Rightarrow> bytes" where
  "lp bs = len32 (length bs) @ bs"

definition value_bytes :: "string \<Rightarrow> bytes" where
  "value_bytes v = lp (StringToSliceByte v)"

definition entry_bytes :: "string \<times> string list \<Rightarrow> bytes" where
  "entry_bytes e = lp (StringToSliceByte (fst e)) @ [word_of_nat (length (snd e))]
     @ concat (map value_bytes (snd e))"

definition meta_bytes :: "MD \<Rightarrow> bytes" where
  "meta_bytes md = concat (map entry_bytes md)"

definition data_bytes :: "Message \<Rightarrow> bytes \<Rightarrow> bytes" where
  "data_bytes m payload = lp (StringToSliceByte (ServiceName m)) @ lp (StringToSliceByte (ServiceMethod m))
     @ lp (meta_bytes (entries m)) @ lp payload"

definition layout :: "Message \<Rightarrow> bytes \<Rightarrow> bytes" where
  "layout m payload = Hdr m @ lp (data_bytes m payload)"

lemma length_lp [simp, wire_simps]: "length (lp bs) = 4 + length bs"
  by (simp add: lp_def)

lemma length_values [wire_simps]: "length (concat (map value_bytes vs)) = values_len vs"
  by (induction vs) (simp_all add: value_bytes_def)

lemma length_meta_bytes [wire_simps]: "length (meta_bytes md) = meta_len md"
  by (induction md rule: meta_len.induct) (simp_all add: meta_bytes_def entry_bytes_def length_values)

lemma length_data_bytes [wire_simps]:
  "length (data_bytes m payload) = (4 + length (ServiceName m)) + (4 + length (ServiceMethod m))
     + (4 + meta_len (entries m)) + (4 + length payload)"
  by (simp add: data_bytes_def length_meta_bytes)

section \<open>Encode writes the layout\<close>

text \<open>The writer after \<open>finished\<close> bytes, with \<open>rest\<close> still to overwrite.\<close>

definition written :: "bytes \<Rightarrow> bytes \<Rightarrow> bytes \<times> nat" where
  "written finished rest = (finished @ rest, length finished)"

lemma fst_written [simp]: "fst (written finished rest) = finished @ rest"
  by (simp add: written_def)

lemma written_start: "(buf, 0) = written [] buf"
  by (simp add: written_def)

lemma emit_written:
  "length src \<le> length rest \<Longrightarrow>
   emit src (written finished rest) = Some (written (finished @ src) (drop (length src) rest))"
  by (simp add: emit_def written_def put_at_def)

lemma emit_values_written:
  "length (concat (map value_bytes vs)) \<le> length rest \<Longrightarrow>
   emit_values vs (written finished rest) =
     Some (written (finished @ concat (map value_bytes vs))
       (drop (length (concat (map value_bytes vs))) rest))"
proof (induction vs arbitrary: finished rest)
  case Nil
  then show ?case by simp
next
  case (Cons v vs)
  then show ?case
    by (simp add: emit_written value_bytes_def lp_def ac_simps)
qed

lemma emit_meta_written:
  "length (meta_bytes md) \<le> length rest \<Longrightarrow>
   emit_meta md (written finished rest) =
     Some (written (finished @ meta_bytes md) (drop (length (meta_bytes md)) rest))"
proof (induction md arbitrary: finished rest)
  case Nil
  then show ?case by (simp add: meta_bytes_def)
next
  case (Cons e md)
  obtain k vs where e: "e = (k, vs)" by (cases e)
  show ?case using Cons
    by (simp add: e emit_written emit_values_written meta_bytes_def entry_bytes_def lp_def
        length_values ac_simps)
qed

lemma choose_payload_fields:
  assumes "choose_payload lib m = (m', p)"
  shows "ServiceName m' = ServiceName m" "ServiceMethod m' = ServiceMethod m"
    "Metadata m' = Metadata m" "Payload m' = Payload m" "entries m' = entries m"
  using assms
  by (auto simp: choose_payload_def entries_def Let_def split: if_splits option.splits sum.splits)

text \<open>The buffers of the pool have the length that was asked for.\<close>

definition sized :: "(nat \<Rightarrow> bytes) \<Rightarrow> bool" where
  "sized pool_get \<longleftrightarrow> (\<forall>n. length (pool_get n) = n)"

lemma choose_payload_header_ok:
  "choose_payload lib m = (m', p) \<Longrightarrow> header_ok (Hdr m) \<Longrightarrow> header_ok (Hdr m')"
  by (auto simp: choose_payload_def Let_def split: if_splits option.splits sum.splits)

lemma meta_len_0: "meta_len md = 0 \<longleftrightarrow> md = []"
  by (cases md rule: meta_len.cases) simp_all

lemma Encode_layout:
  assumes "sized pool_get" "header_ok (Hdr m)" "choose_payload lib m = (m', p)"
  shows "Encode lib pool_get m = Some (m', layout m' p)"
proof -
  note f = choose_payload_fields [OF assms(3)]
  define n where "n = 11 + 4 + ((4 + length (ServiceName m)) + (4 + length (ServiceMethod m))
      + (4 + meta_len (entries m)) + (4 + length p))"
  define buf where "buf = pool_get n"
  have h: "length (Hdr m') = 11"
    using choose_payload_header_ok [OF assms(3,2)] by (simp add: header_ok_def)
  have buf: "length buf = n" using assms(1) by (simp add: sized_def buf_def)
  have meta: "(if length (entries m) > 0 then meta_len (entries m) else 0) = meta_len (entries m)"
    by simp
  have empty: "meta_len (entries m) = 0 \<Longrightarrow> meta_bytes (entries m) = []"
    by (simp add: meta_len_0 meta_bytes_def)
  show ?thesis
    unfolding Encode_def assms(3) Let_def case_prod_conv meta n_def [symmetric]
      buf_def [symmetric] written_start
    using buf f h empty
    by (simp add: emit_written emit_meta_written length_data_bytes length_meta_bytes
          layout_def data_bytes_def lp_def n_def)
qed

section \<open>Decode inverts the layout\<close>

lemma read_len_at:
  assumes "data = pre @ len32 n @ post" "length pre + 4 \<le> limit" "n < 2 ^ 32"
  shows "read_len what data (length pre) limit = Ok (n, length pre + 4)"
  using assms by (simp add: read_len_def)

lemma read_bytes_at:
  assumes "data = pre @ bs @ post" "length pre + length bs \<le> limit" "n = length bs"
  shows "read_bytes what data (length pre) n limit = Ok (bs, length pre + n)"
  using assms by (simp add: read_bytes_def)

lemma read_string_at:
  assumes "data = pre @ lp (StringToSliceByte s) @ post" "off = length pre"
    and "off + 4 + length s \<le> limit" "length s < 2 ^ 32"
  shows "read_string e1 e2 data off limit = Ok (s, off + 4 + length s)"
proof -
  let ?b = "StringToSliceByte s"
  have l: "read_len e1 data off limit = Ok (length s, off + 4)"
    using assms read_len_at [of data pre "length s" "?b @ post" limit] by (simp add: lp_def)
  have "read_bytes e2 data (length (pre @ len32 (length s))) (length s) limit
      = Ok (?b, length (pre @ len32 (length s)) + length s)"
    using assms by (intro read_bytes_at) (simp_all add: lp_def)
  with l assms(2) show ?thesis by (simp add: read_string_def)
qed

lemma decode_values_at:
  assumes "data = pre @ concat (map value_bytes vs) @ post" "off = length pre"
    and "off + values_len vs \<le> limit" "values_len vs < 2 ^ 32"
  shows "decode_values (length vs) key data limit off md =
    (Ok (off + values_len vs), fold (\<lambda>v md. MD_Append md key [v]) vs md)"
  using assms
proof (induction vs arbitrary: pre off md)
  case Nil
  then show ?case by simp
next
  case (Cons v vs)
  have r: "read_string ''invalid metadata format: insufficient data for value length''
      ''invalid metadata format: insufficient data for value'' data off limit = Ok (v, off + 4 + length v)"
    using Cons.prems by (intro read_string_at [where post = "concat (map value_bytes vs) @ post"])
      (simp_all add: value_bytes_def [of v])
  have "decode_values (length vs) key data limit (off + 4 + length v) (MD_Append md key [v]) =
      (Ok (off + 4 + length v + values_len vs), fold (\<lambda>v md. MD_Append md key [v]) vs (MD_Append md key [v]))"
    using Cons.prems by (intro Cons.IH [where pre = "pre @ value_bytes v"]) (simp_all add: value_bytes_def [of v])
  with r show ?case by simp
qed

text \<open>The entries that survive the wire: a value list of 1 to 255 strings.\<close>

definition entry_ok :: "string \<times> string list \<Rightarrow> bool" where
  "entry_ok e \<longleftrightarrow> snd e \<noteq> [] \<and> length (snd e) < 256"

lemma decode_meta_at:
  assumes "data = pre @ meta_bytes md @ post" "off = length pre" "e = off + meta_len md"
    and "meta_len md < 2 ^ 32" "\<forall>x \<in> set md. entry_ok x"
  shows "decode_meta data e off acc =
    (Ok e, fold (\<lambda>(k, vs) acc. fold (\<lambda>v md. MD_Append md k [v]) vs acc) md acc)"
  using assms
proof (induction md arbitrary: pre off acc)
  case Nil
  then show ?case by (simp add: decode_meta.simps)
next
  case (Cons x md)
  obtain k vs where x: "x = (k, vs)" by (cases x)
  let ?kb = "lp (StringToSliceByte k)" and ?vb = "concat (map value_bytes vs)"
  let ?c = "[word_of_nat (length vs)] :: bytes"
  let ?acc = "fold (\<lambda>v md. MD_Append md k [v]) vs acc"
  have data: "data = pre @ ?kb @ ?c @ ?vb @ meta_bytes md @ post"
    using Cons.prems(1) by (simp add: x meta_bytes_def entry_bytes_def)
  have e: "e = off + 4 + length k + 1 + values_len vs + meta_len md" "off = length pre"
    using Cons.prems by (simp_all add: x)
  have k: "read_string ''invalid metadata format: insufficient data for key length''
      ''invalid metadata format: insufficient data for key'' data off e = Ok (k, off + 4 + length k)"
    using Cons.prems e by (intro read_string_at [OF data e(2)]) (simp_all add: x)
  have cnt: "data ! (off + 4 + length k) = word_of_nat (length vs)"
  proof -
    have "off + 4 + length k = length (pre @ ?kb)" using e(2) by simp
    moreover have "data = (pre @ ?kb) @ word_of_nat (length vs) # ?vb @ meta_bytes md @ post"
      using data by simp
    ultimately show ?thesis by (metis nth_append_length)
  qed
  have "unat (word_of_nat (length vs) :: byte) = length vs"
    using Cons.prems(5) by (simp add: x entry_ok_def unat_of_nat)
  moreover have "decode_values (length vs) k data e (off + 4 + length k + 1) acc =
      (Ok (off + 4 + length k + 1 + values_len vs), ?acc)"
    using Cons.prems e data by (intro decode_values_at [where pre = "pre @ ?kb @ ?c"]) (simp_all add: x)
  moreover have "decode_meta data e (off + 4 + length k + 1 + values_len vs) ?acc =
      (Ok e, fold (\<lambda>(k, vs) acc. fold (\<lambda>v md. MD_Append md k [v]) vs acc) md ?acc)"
    using Cons.prems e data
    by (intro Cons.IH [where pre = "pre @ ?kb @ ?c @ ?vb"]) (simp_all add: x length_values)
  moreover have "off < e" "\<not> e \<le> off + 4 + length k" "off + 4 + length k < length data"
    using e data by (simp_all add: length_values)
  ultimately show ?case
    using k cnt by (subst decode_meta.simps) (simp add: x)
qed

lemma update_append: "k \<notin> fst ` set xs \<Longrightarrow> AList.update k v (xs @ ys) = xs @ AList.update k v ys"
  by (induction xs) auto

lemma md_index_append: "k \<notin> fst ` set xs \<Longrightarrow> md_index (xs @ ys) k = md_index ys k"
  by (induction xs) auto

lemma fold_values_fresh:
  "ToLower k = k \<Longrightarrow> k \<notin> fst ` set acc \<Longrightarrow>
   fold (\<lambda>v md. MD_Append md k [v]) vs (acc @ [(k, us)]) = acc @ [(k, us @ vs)]"
proof (induction vs arbitrary: us)
  case Nil
  then show ?case by simp
next
  case (Cons v vs)
  have "MD_Append (acc @ [(k, us)]) k [v] = acc @ [(k, us @ [v])]"
    using Cons.prems by (simp add: MD_Append_def Let_def update_append md_index_append)
  with Cons show ?case by simp
qed

lemma fold_entry_fresh:
  assumes "ToLower k = k" "k \<notin> fst ` set acc" "vs \<noteq> []"
  shows "fold (\<lambda>v md. MD_Append md k [v]) vs acc = acc @ [(k, vs)]"
proof -
  obtain v us where vs: "vs = v # us" using assms(3) by (cases vs) auto
  have "MD_Append acc k [v] = acc @ [(k, [v])]"
    using assms md_index_append [of k acc "[]"] update_append [of k acc "[v]" "[]"]
    by (simp add: MD_Append_def Let_def)
  with fold_values_fresh [OF assms(1,2), of us "[v]"] show ?thesis by (simp add: vs)
qed

lemma fold_meta_fresh:
  assumes "md_lower md" "\<forall>x \<in> set md. entry_ok x" "fst ` set md \<inter> fst ` set acc = {}"
  shows "fold (\<lambda>(k, vs) acc. fold (\<lambda>v md. MD_Append md k [v]) vs acc) md acc = acc @ md"
  using assms
proof (induction md arbitrary: acc)
  case Nil
  then show ?case by simp
next
  case (Cons x md)
  obtain k vs where x: "x = (k, vs)" by (cases x)
  have "ToLower k = k" "k \<notin> fst ` set md" "md_lower md" "vs \<noteq> []" "k \<notin> fst ` set acc"
    using Cons.prems by (auto simp: x md_lower_def md_map_def entry_ok_def)
  then show ?case using Cons by (simp add: x fold_entry_fresh)
qed

text \<open>A payload field that decompresses to \<open>q\<close>.\<close>

definition unpacks :: "gzip_lib \<Rightarrow> Header \<Rightarrow> bytes \<Rightarrow> bytes \<Rightarrow> bool" where
  "unpacks lib h p q \<longleftrightarrow>
     (if p = [] \<or> GetCompressType h = None_compress then q = p
      else \<exists>Zip Unzip. Compressors lib (GetCompressType h) = Some (Zip, Unzip) \<and> Unzip p = Inr q)"

text \<open>Messages whose metadata the format can carry.\<close>

definition wire_ok :: "Message \<Rightarrow> bool" where
  "wire_ok m \<longleftrightarrow> header_ok (Hdr m) \<and> CheckMagicNumber (Hdr m) \<and> md_lower (entries m)
     \<and> (\<forall>x \<in> set (entries m). entry_ok x)"

lemma decodeMessageData_layout:
  assumes ok: "md_lower (entries m)" "\<forall>x \<in> set (entries m). entry_ok x"
    and size: "length (data_bytes m p) < 2 ^ 32" and u: "unpacks lib (Hdr m0) p q"
  shows "decodeMessageData lib (data_bytes m p) m0 =
    (Ok (), m0\<lparr>ServiceName := ServiceName m, ServiceMethod := ServiceMethod m,
       Metadata := Some (entries m), Payload := q\<rparr>)"
proof -
  let ?d = "data_bytes m p" and ?n = "length (data_bytes m p)"
  let ?s = "lp (StringToSliceByte (ServiceName m))" and ?t = "lp (StringToSliceByte (ServiceMethod m))"
  let ?mb = "meta_bytes (entries m)"
  define o1 where "o1 = 4 + length (ServiceName m)"
  define o2 where "o2 = o1 + 4 + length (ServiceMethod m)"
  define o3 where "o3 = o2 + 4"
  define o4 where "o4 = o3 + meta_len (entries m)"
  note offs = o1_def o2_def o3_def o4_def
  have n: "?n = o4 + 4 + length p" by (simp add: offs length_data_bytes)
  have r1: "read_string e1 e2 ?d 0 ?n = Ok (ServiceName m, o1)" for e1 e2
    using size n read_string_at [of ?d "[]" "ServiceName m" "?t @ lp ?mb @ lp p" 0 ?n]
    by (simp add: data_bytes_def [of m p] offs)
  have r2: "read_string e1 e2 ?d o1 ?n = Ok (ServiceMethod m, o2)" for e1 e2
    using size n read_string_at [of ?d ?s "ServiceMethod m" "lp ?mb @ lp p" o1 ?n]
    by (simp add: data_bytes_def [of m p] offs)
  have r3: "read_len e ?d o2 ?n = Ok (meta_len (entries m), o3)" for e
    using size n read_len_at [of ?d "?s @ ?t" "meta_len (entries m)" "?mb @ lp p" ?n]
    by (simp add: data_bytes_def [of m p] offs lp_def [of ?mb] length_meta_bytes add.assoc)
  have r4: "decode_meta ?d o4 o3 [] = (Ok o4, entries m)"
    using decode_meta_at [of ?d "?s @ ?t @ len32 (meta_len (entries m))" "entries m" "lp p" o3 o4 "[]"]
      fold_meta_fresh [OF ok, of "[]"] ok size n
    by (simp add: data_bytes_def [of m p] offs lp_def [of ?mb] length_meta_bytes)
  have r5: "read_len e ?d o4 ?n = Ok (length p, o4 + 4)" for e
    using size n read_len_at [of ?d "?s @ ?t @ lp ?mb" "length p" p ?n]
    by (simp add: data_bytes_def [of m p] offs lp_def [of p] length_meta_bytes add.assoc)
  have r6: "read_bytes e ?d (o4 + 4) (length p) ?n = Ok (p, ?n)" for e
    using n read_bytes_at [of ?d "?s @ ?t @ lp ?mb @ len32 (length p)" p "[]" ?n "length p"]
    by (simp add: data_bytes_def [of m p] offs lp_def [of p] length_meta_bytes)
  have meta: "(if meta_len (entries m) > 0
       then (if o3 + meta_len (entries m) > ?n then (Fail x, []) else decode_meta ?d (o3 + meta_len (entries m)) o3 [])
       else (Ok o3, [])) = (Ok o4, entries m)" for x
    using n r4 by (simp add: o4_def [symmetric]) (simp add: o4_def meta_len_0)
  show ?thesis
    unfolding decodeMessageData_def Let_def r1 r2 r3 r5 r6 meta outcome.case prod.case
    using u by (auto simp: unpacks_def)
qed

section \<open>Round trip\<close>

lemma choose_payload_unpacks:
  assumes "gzip_ok lib" "header_ok (Hdr m)" "choose_payload lib m = (m', p)"
  shows "unpacks lib (Hdr m') p (Payload m) \<and> length p \<le> length (Payload m)
    \<and> (\<exists>ct. is_bit ct \<and> m' = m\<lparr>Hdr := SetCompressType (Hdr m) ct\<rparr>)"
proof -
  have none: "is_bit None_compress" by (simp add: is_bit_def None_compress_def)
  have same: "\<exists>ct. is_bit ct \<and> m = m\<lparr>Hdr := SetCompressType (Hdr m) ct\<rparr>"
    using compress_type.put_get [OF assms(2)]
    by (intro exI [where x = "GetCompressType (Hdr m)"]) simp
  have reset: "GetCompressType (SetCompressType (Hdr m) None_compress) = None_compress"
    using compress_type.get_put [OF assms(2) none] .
  consider (plain) "m' = m" "p = Payload m" "GetCompressType (Hdr m) = None_compress"
    | (reset) "m' = m\<lparr>Hdr := SetCompressType (Hdr m) None_compress\<rparr>" "p = Payload m"
    | (zipped) z u where "m' = m" "Compressors lib (GetCompressType (Hdr m)) = Some (z, u)"
        "z (Payload m) = Inr p" "length p < length (Payload m)"
    using assms(3)
    by (fastforce simp: choose_payload_def Let_def not_le split: if_splits option.splits sum.splits)
  then show ?thesis
  proof cases
    case plain
    then have "unpacks lib (Hdr m') p (Payload m)" "length p \<le> length (Payload m)"
      by (simp_all add: unpacks_def)
    then show ?thesis using same plain(1) by blast
  next
    case reset
    then show ?thesis
      using none \<open>GetCompressType (SetCompressType (Hdr m) None_compress) = None_compress\<close>
      by (auto simp: unpacks_def)
  next
    case zipped
    then have c: "compressor z u" using assms(1) Compressors_compressor by blast
    have "u p = Inr (Payload m)" using compressor.unzip_zip [OF c zipped(3,4)] .
    moreover have "p = [] \<Longrightarrow> Payload m = []"
      using \<open>u p = Inr (Payload m)\<close> compressor.unzip_empty [OF c] by simp
    moreover have "GetCompressType (Hdr m) = None_compress \<Longrightarrow> Payload m = p"
      using zipped(2,3) by (simp add: Compressors_def RawDataCompressor_Zip_def)
    ultimately have "unpacks lib (Hdr m') p (Payload m)" using zipped by (auto simp: unpacks_def)
    then show ?thesis using zipped(1) less_imp_le [OF zipped(4)] same by blast
  qed
qed

lemma CheckMagicNumber_setters [simp]:
  "CheckMagicNumber (SetCompressType h ct) = CheckMagicNumber h"
  "header_ok h \<Longrightarrow> CheckMagicNumber (SetSeq h s) = CheckMagicNumber h"
  "CheckMagicNumber NewHeader"
  by (simp_all add: CheckMagicNumber_def NewHeader_def)

lemma ReadFull_append: "n = length bs \<Longrightarrow> ReadFull n (bs @ rest) = (Inr bs, rest)"
  by (simp add: ReadFull_def)

text \<open>A frame is decoded exactly, whatever follows it on the stream.\<close>

lemma Decode_layout:
  assumes "wire_ok m" "length (data_bytes m p) < 2 ^ 32"
    and "maxLength \<le> 0 \<or> int (length (data_bytes m p)) \<le> maxLength"
    and "unpacks lib (Hdr m) p q"
  shows "Decode lib maxLength (layout m p @ rest) m0 =
    (None, m\<lparr>Metadata := Some (entries m), Payload := q\<rparr>, rest)"
proof -
  have h: "length (Hdr m) = 11" "CheckMagicNumber (Hdr m)"
    using assms(1) by (simp_all add: wire_ok_def header_ok_def)
  have d: "decodeMessageData lib (data_bytes m p) (m0\<lparr>Hdr := Hdr m\<rparr>) =
      (Ok (), m\<lparr>Metadata := Some (entries m), Payload := q\<rparr>)"
    using assms decodeMessageData_layout [of m p lib "m0\<lparr>Hdr := Hdr m\<rparr>" q]
    by (simp add: wire_ok_def)
  let ?n = "length (data_bytes m p)"
  have r1: "ReadFull 11 (layout m p @ rest) = (Inr (Hdr m), len32 ?n @ data_bytes m p @ rest)"
    using h by (simp add: layout_def lp_def ReadFull_append)
  have r2: "ReadFull 4 (len32 ?n @ data_bytes m p @ rest) = (Inr (len32 ?n), data_bytes m p @ rest)"
    by (rule ReadFull_append) simp
  have r3: "ReadFull ?n (data_bytes m p @ rest) = (Inr (data_bytes m p), rest)"
    by (rule ReadFull_append) simp
  have n: "unat (Uint32 (len32 ?n)) = ?n" using assms(2) by simp
  have c: "CheckMagicNumber (Hdr (m0\<lparr>Hdr := Hdr m\<rparr>))" using h by simp
  have l: "\<not> (maxLength > 0 \<and> maxLength < int ?n)" using assms(3) by linarith
  show ?thesis
    unfolding Decode_def r1 r2 Let_def prod.case sum.case n r3 d outcome.case
    using c l by simp
qed

lemma wire_ok_SetCompressType:
  "wire_ok m \<Longrightarrow> wire_ok (m\<lparr>Hdr := SetCompressType (Hdr m) ct\<rparr>)"
  by (simp add: wire_ok_def entries_def)

lemma data_bytes_Hdr [simp]: "data_bytes (m\<lparr>Hdr := h\<rparr>) p = data_bytes m p"
  by (simp add: data_bytes_def entries_def)

lemma Encode_Decode:
  assumes "gzip_ok lib" "sized pool_get" "wire_ok m"
    and "length (data_bytes m (Payload m)) < 2 ^ 32"
    and "maxLength \<le> 0 \<or> int (length (data_bytes m (Payload m))) \<le> maxLength"
  shows "\<exists>ct buf. is_bit ct
    \<and> Encode lib pool_get m = Some (m\<lparr>Hdr := SetCompressType (Hdr m) ct\<rparr>, buf)
    \<and> Decode lib maxLength (buf @ rest) m0 =
        (None, m\<lparr>Hdr := SetCompressType (Hdr m) ct, Metadata := Some (entries m)\<rparr>, rest)"
proof -
  have h: "header_ok (Hdr m)" using assms(3) by (simp add: wire_ok_def)
  obtain m' p where c: "choose_payload lib m = (m', p)" by (cases "choose_payload lib m")
  from choose_payload_unpacks [OF assms(1) h c] obtain ct
    where u: "unpacks lib (Hdr m') p (Payload m)" "length p \<le> length (Payload m)"
      and ct: "is_bit ct" "m' = m\<lparr>Hdr := SetCompressType (Hdr m) ct\<rparr>" by blast
  have len: "length (data_bytes m' p) \<le> length (data_bytes m (Payload m))"
    using u(2) by (simp add: ct length_data_bytes)
  have "Decode lib maxLength (layout m' p @ rest) m0 =
      (None, m'\<lparr>Metadata := Some (entries m'), Payload := Payload m\<rparr>, rest)"
    using assms(3-5) len u(1) by (intro Decode_layout) (auto simp: ct wire_ok_SetCompressType)
  moreover have "entries m' = entries m" by (simp add: ct entries_def)
  ultimately show ?thesis using Encode_layout [OF assms(2) h c] ct by auto
qed

text \<open>
  \<^bold>\<open>C2\<close>. Round trip of the wire format: decoding what \<open>Encode\<close> wrote, at the head of any
  stream and into any receiver, succeeds, leaves the rest of the stream, and gives the
  message back; only the compression flag of the header may differ, and an absent
  metadata map arrives as an empty one.
\<close>

theorem wire_roundtrip:
  assumes "gzip_ok lib" and "sized pool_get" and "wire_ok m"
    and "length (data_bytes m (Payload m)) < 2 ^ 32"
    and "maxLength \<le> 0 \<or> int (length (data_bytes m (Payload m))) \<le> maxLength"
  shows "\<exists>ct buf. is_bit ct
    \<and> Encode lib pool_get m = Some (m\<lparr>Hdr := SetCompressType (Hdr m) ct\<rparr>, buf)
    \<and> Decode lib maxLength (buf @ rest) m0 =
        (None, m\<lparr>Hdr := SetCompressType (Hdr m) ct, Metadata := Some (entries m)\<rparr>, rest)"
  using Encode_Decode [OF assms] .

definition sample_message :: Message where
  "sample_message = NewMessage\<lparr>Hdr := SetSeq (SetCompressType NewHeader Gzip) 77,
     ServiceName := ''hello.HelloService'', ServiceMethod := ''HelloWorld'',
     Metadata := Some [(''user-agent'', [''zrpc/1.2.9'']), (''zrpc-timeout'', [''5m''])],
     Payload := replicate 2048 7\<rparr>"

lemma sample_message_ok:
  "wire_ok sample_message" "length (data_bytes sample_message (Payload sample_message)) = 2144"
  by (simp_all add: wire_ok_def sample_message_def NewMessage_def entries_def length_data_bytes
      md_lower_def md_map_def entry_ok_def ToLower_def lower_char_def)

theorem wire_roundtrip_witness:
  "\<exists>ct buf. is_bit ct
    \<and> Encode run_length_gz (\<lambda>n. replicate n 9) sample_message
        = Some (sample_message\<lparr>Hdr := SetCompressType (Hdr sample_message) ct\<rparr>, buf)
    \<and> Decode run_length_gz 4096 (buf @ [1, 2]) NewMessage =
        (None, sample_message\<lparr>Hdr := SetCompressType (Hdr sample_message) ct,
                 Metadata := Some (entries sample_message)\<rparr>, [1, 2])"
  by (rule wire_roundtrip [OF run_length_gz_ok])
     (simp_all add: sized_def sample_message_ok)

text \<open>
  \<open>Encode\<close>, which writes at a running offset into a recycled buffer, produces exactly
  the reference layout: no write is out of range, every byte of the buffer is
  overwritten, and the result does not depend on the stale contents.
\<close>

theorem Encode_writes_layout:
  assumes "sized pool_get" and "header_ok (Hdr m)"
  shows "Encode lib pool_get m = (case choose_payload lib m of (m', p) \<Rightarrow> Some (m', layout m' p))"
  using Encode_layout [OF assms] by (cases "choose_payload lib m") simp

theorem Encode_writes_layout_witness:
  "Encode run_length_gz (\<lambda>n. replicate n 255) NewMessage =
     (case choose_payload run_length_gz NewMessage of (m', p) \<Rightarrow> Some (m', layout m' p))"
  by (rule Encode_writes_layout) (simp_all add: sized_def NewMessage_def)

end
