(* ===== verification/Wire_Safety.thy ===== *)
theory Wire_Safety
  imports Wire_Codec
begin

text \<open>
  The decoder on arbitrary bytes and on truncated frames, and streams of frames.
\<close>

section \<open>Safety on arbitrary input\<close>

lemma read_len_no_panic: "limit \<le> length data \<Longrightarrow> read_len e data off limit \<noteq> Panic"
  by (auto simp: read_len_def go_slice_def split: option.splits)

lemma read_bytes_no_panic: "limit \<le> length data \<Longrightarrow> read_bytes e data off n limit \<noteq> Panic"
  by (auto simp: read_bytes_def go_slice_def split: option.splits)

lemma read_string_no_panic: "limit \<le> length data \<Longrightarrow> read_string e1 e2 data off limit \<noteq> Panic"
  by (auto simp: read_string_def split: outcome.splits
      dest: read_len_no_panic [of limit data] read_bytes_no_panic [of limit data])

lemma decode_values_no_panic:
  "metaEnd \<le> length data \<Longrightarrow> fst (decode_values n key data metaEnd off md) \<noteq> Panic"
proof (induction n arbitrary: off md)
  case 0
  then show ?case by simp
next
  case (Suc n)
  with read_string_no_panic [OF Suc.prems] show ?case by (simp split: outcome.split)
qed

text \<open>Panic freedom goes through the parser's control structure branch by branch.\<close>

lemma safe_outcome:
  "r \<noteq> Panic \<Longrightarrow> (\<And>x. r = Ok x \<Longrightarrow> fst (g x) \<noteq> Panic) \<Longrightarrow> (\<And>e. fst (f e) \<noteq> Panic) \<Longrightarrow>
   fst (case r of Ok x \<Rightarrow> g x | Fail e \<Rightarrow> f e | Panic \<Rightarrow> h) \<noteq> Panic"
  by (cases r) simp_all

lemma safe_prod: "(\<And>a b. p = (a, b) \<Longrightarrow> fst (f a b) \<noteq> Panic) \<Longrightarrow> fst (case p of (a, b) \<Rightarrow> f a b) \<noteq> Panic"
  by (cases p) simp

lemma safe_if:
  "(c \<Longrightarrow> fst x \<noteq> Panic) \<Longrightarrow> (\<not> c \<Longrightarrow> fst y \<noteq> Panic) \<Longrightarrow> fst (if c then x else y) \<noteq> Panic"
  by simp

lemma safe_option:
  "fst f \<noteq> Panic \<Longrightarrow> (\<And>x. fst (g x) \<noteq> Panic) \<Longrightarrow> fst (case r of None \<Rightarrow> f | Some x \<Rightarrow> g x) \<noteq> Panic"
  by (cases r) simp_all

lemma safe_sum:
  "(\<And>x. fst (f x) \<noteq> Panic) \<Longrightarrow> (\<And>x. fst (g x) \<noteq> Panic) \<Longrightarrow> fst (case r of Inl x \<Rightarrow> f x | Inr x \<Rightarrow> g x) \<noteq> Panic"
  by (cases r) simp_all

lemma safe_leaf: "r \<noteq> Panic \<Longrightarrow> fst (r, x) \<noteq> Panic"
  by simp

lemmas safe_intros = safe_outcome safe_prod safe_if safe_option safe_sum safe_leaf

lemma fst_not_Panic: "fst p \<noteq> Panic \<Longrightarrow> p = (r, x) \<Longrightarrow> r \<noteq> Panic"
  by simp

lemma decode_meta_no_panic:
  "metaEnd \<le> length data \<Longrightarrow> fst (decode_meta data metaEnd off md) \<noteq> Panic"
proof (induction data metaEnd off md rule: decode_meta.induct)
  case (1 data metaEnd off md)
  note read = read_string_no_panic [OF "1.prems"] and vals = decode_values_no_panic [OF "1.prems"]
  show ?case
    by (subst decode_meta.simps)
       (intro safe_intros read; (rule "1.IH"; assumption?; (rule "1.prems" | simp))?;
        use "1.prems" in \<open>auto dest: fst_not_Panic [OF vals]\<close>)
qed

lemma decodeMessageData_no_panic: "fst (decodeMessageData lib data m) \<noteq> Panic"
  unfolding decodeMessageData_def Let_def
  by (intro safe_intros read_string_no_panic read_len_no_panic read_bytes_no_panic order_refl)
     (auto dest: fst_not_Panic [OF decode_meta_no_panic, rotated] split: if_splits)

lemma ReadFull_Inr: "ReadFull n s = (Inr bs, r) \<longleftrightarrow> s = bs @ r \<and> length bs = n"
  by (auto simp: ReadFull_def)

text \<open>
  \<^bold>\<open>C4\<close>. A nil error of \<open>Decode\<close> means a frame: although the deferred \<open>recover\<close> would turn
  a panic of the parser into a nil error, no input makes the parser panic, so
  whenever \<open>Decode\<close> reports success the stream held eleven header bytes with the magic
  number, a length within the limit, and exactly that many data bytes, which the
  parser accepted in full; nothing behind the frame was consumed.
\<close>

theorem Decode_nil_error_sound:
  assumes "Decode lib maxLength r m = (None, m', r')"
  shows "\<exists>h lenData data. r = h @ lenData @ data @ r' \<and> length h = 11 \<and> CheckMagicNumber h
    \<and> length lenData = 4 \<and> length data = unat (Uint32 lenData)
    \<and> (maxLength \<le> 0 \<or> int (length data) \<le> maxLength)
    \<and> decodeMessageData lib data (m\<lparr>Hdr := h\<rparr>) = (Ok (), m')"
proof -
  from assms obtain h r1 where 1: "ReadFull 11 r = (Inr h, r1)" "CheckMagicNumber h"
    by (auto simp: Decode_def Let_def split: prod.splits sum.splits if_splits)
  from assms 1 obtain lenData r2 where 2: "ReadFull 4 r1 = (Inr lenData, r2)"
    "\<not> (maxLength > 0 \<and> maxLength < int (unat (Uint32 lenData)))"
    by (auto simp: Decode_def Let_def split: prod.splits sum.splits if_splits)
  let ?n = "unat (Uint32 lenData)"
  from assms 1 2 obtain data r3 where 3: "ReadFull ?n r2 = (Inr data, r3)"
    by (auto simp: Decode_def Let_def split: prod.splits sum.splits)
  obtain q m2 where 4: "decodeMessageData lib data (m\<lparr>Hdr := h\<rparr>) = (q, m2)" by force
  with decodeMessageData_no_panic [of lib data "m\<lparr>Hdr := h\<rparr>"] have q: "q \<noteq> Panic" by simp
  have "(case q of Ok _ \<Rightarrow> (None, m2, r3) | Fail e \<Rightarrow> (Some e, m2, r3) | Panic \<Rightarrow> (None, m2, r3)) = (None, m', r')"
    using assms 1(2) 2(2) unfolding Decode_def 1(1) 2(1) 3 4 Let_def prod.case sum.case
    by (simp add: 4 split: if_splits)
  with q have "q = Ok ()" "m2 = m'" "r3 = r'" by (cases q; simp)+
  moreover have "r = h @ lenData @ data @ r3" "length h = 11" "length lenData = 4" "length data = ?n"
    using 1 2 3 by (simp_all add: ReadFull_Inr)
  moreover have "maxLength \<le> 0 \<or> int (length data) \<le> maxLength"
    using 2(2) \<open>length data = ?n\<close> by linarith
  ultimately show ?thesis using 1(2) 4 by blast
qed

lemma frame_decodes:
  "Decode run_length_gz 0 (layout NewMessage [] @ [3]) m =
     (None, NewMessage\<lparr>Metadata := Some []\<rparr>, [3])"
  using Decode_layout [of NewMessage "[]" 0 run_length_gz "[]" "[3]" m]
  by (simp add: wire_ok_def NewMessage_def entries_def length_data_bytes unpacks_def md_lower_def md_map_def)

theorem Decode_nil_error_sound_witness:
  "\<exists>h lenData data. layout NewMessage [] @ [3] = h @ lenData @ data @ [3] \<and> length h = 11 \<and> CheckMagicNumber h
    \<and> length lenData = 4 \<and> length data = unat (Uint32 lenData)
    \<and> ((0 :: int) \<le> 0 \<or> int (length data) \<le> 0)
    \<and> decodeMessageData run_length_gz data (NewMessage\<lparr>Hdr := h\<rparr>) = (Ok (), NewMessage\<lparr>Metadata := Some []\<rparr>)"
  using Decode_nil_error_sound [OF frame_decodes [of NewMessage]] .

text \<open>
  \<^bold>\<open>C5\<close>. A frame cut short never decodes: every proper prefix of a frame whose length the
  limit allows gives an end-of-file error, \<open>io.EOF\<close> when the cut is at the start of
  one of the three reads (before the header, the length or the data) and
  \<open>io.ErrUnexpectedEOF\<close> everywhere else.
\<close>

theorem Decode_truncated:
  assumes "length h = 11" "CheckMagicNumber h" "length data < 2 ^ 32"
    and "maxLength \<le> 0 \<or> int (length data) \<le> maxLength"
    and "n < length (h @ lp data)"
  shows "fst (Decode lib maxLength (take n (h @ lp data)) m) =
    Some (if n \<in> {0, 11, 15} then EOF else UnexpectedEOF)"
proof -
  consider "n < 11" | "11 \<le> n" "n < 15" | "15 \<le> n" by linarith
  then show ?thesis
  proof cases
    case 1
    then have "ReadFull 11 (take n (h @ lp data)) = (Inl (if n = 0 then EOF else UnexpectedEOF), [])"
      using assms(1) by (auto simp: ReadFull_def)
    with 1 show ?thesis by (simp add: Decode_def)
  next
    case 2
    then have "take n (h @ lp data) = h @ take (n - 11) (len32 (length data))"
      using assms(1) by (simp add: lp_def)
    moreover have "ReadFull 4 (take (n - 11) (len32 (length data))) =
        (Inl (if n = 11 then EOF else UnexpectedEOF), [])"
      using 2 by (auto simp: ReadFull_def simp flip: length_0_conv)
    ultimately show ?thesis using 2 assms(1,2) by (simp add: Decode_def Let_def ReadFull_append)
  next
    case 3
    then have "take n (h @ lp data) = h @ len32 (length data) @ take (n - 15) data"
      using assms(1) by (simp add: lp_def)
    moreover have "ReadFull (length data) (take (n - 15) data) =
        (Inl (if n = 15 then EOF else UnexpectedEOF), [])"
      using 3 assms(1,5) by (auto simp: ReadFull_def)
    moreover have "\<not> (maxLength > 0 \<and> maxLength < int (length data))" using assms(4) by linarith
    ultimately show ?thesis using 3 assms(1-3)
      by (cases "n = 15") (simp_all add: Decode_def Let_def ReadFull_append [of 11 h] ReadFull_append [of 4 "len32 (length data)"]
          ReadFull_append [of 4 "len32 (length data)" "[]", simplified])
  qed
qed

theorem Decode_truncated_witness:
  "fst (Decode run_length_gz 1024 (take 20 (NewHeader @ lp (replicate 16 0))) NewMessage) =
     Some (if (20 :: nat) \<in> {0, 11, 15} then EOF else UnexpectedEOF)"
  by (rule Decode_truncated) (simp_all add: header_ok_NewHeader [unfolded header_ok_def])

lemma Decode_frame:
  assumes "length h = 11" "CheckMagicNumber h" "length data < 2 ^ 32" "maxLength \<le> 0 \<or> int (length data) \<le> maxLength"
  shows "Decode lib maxLength (h @ lp data @ rest) m =
    (case decodeMessageData lib data (m\<lparr>Hdr := h\<rparr>) of
       (Ok _, m) \<Rightarrow> (None, m, rest) | (Fail e, m) \<Rightarrow> (Some e, m, rest) | (Panic, m) \<Rightarrow> (None, m, rest))"
proof -
  have r: "ReadFull 11 (h @ lp data @ rest) = (Inr h, len32 (length data) @ data @ rest)"
    "ReadFull 4 (len32 (length data) @ data @ rest) = (Inr (len32 (length data)), data @ rest)"
    "ReadFull (length data) (data @ rest) = (Inr data, rest)"
    using assms(1) by (simp_all add: ReadFull_append lp_def)
  have "\<not> (maxLength > 0 \<and> maxLength < int (length data))" using assms(4) by linarith
  with assms(2,3) show ?thesis by (auto simp: Decode_def Let_def r)
qed

section \<open>Streams of frames\<close>

text \<open>The reader of a connection: decode frames one after another until an error.\<close>

fun read_frames :: "(bytes \<Rightarrow> goerr option \<times> 'm \<times> bytes) \<Rightarrow> nat \<Rightarrow> bytes \<Rightarrow> goerr option \<times> 'm list \<times> bytes" where
  "read_frames dec 0 s = (None, [], s)"
| "read_frames dec (Suc n) s =
     (case dec s of
        (Some e, _, r) \<Rightarrow> (Some e, [], r)
      | (None, m, r) \<Rightarrow> (case read_frames dec n r of (e, ms, t) \<Rightarrow> (e, m # ms, t)))"

text \<open>What a reader needs of a codec: a frame decodes whatever follows it.\<close>

locale framing =
  fixes enc :: "'m \<Rightarrow> bytes"
    and dec :: "bytes \<Rightarrow> goerr option \<times> 'm \<times> bytes"
    and good :: "'m \<Rightarrow> bool"
    and received :: "'m \<Rightarrow> 'm \<Rightarrow> bool"
  assumes dec_enc: "good m \<Longrightarrow> \<exists>m'. dec (enc m @ rest) = (None, m', rest) \<and> received m m'"
    and dec_end: "\<exists>m. dec [] = (Some EOF, m, [])"
begin

lemma frames_in_order:
  "\<forall>m \<in> set ms. good m \<Longrightarrow> length ms < n \<Longrightarrow>
   \<exists>ms'. read_frames dec n (concat (map enc ms)) = (Some EOF, ms', []) \<and> list_all2 received ms ms'"
proof (induction ms arbitrary: n)
  case Nil
  then obtain k where "n = Suc k" by (cases n) auto
  with dec_end show ?case by auto
next
  case (Cons m ms)
  then obtain k where n: "n = Suc k" "length ms < k" by (cases n) auto
  from Cons.IH [OF _ n(2)] Cons.prems obtain ms' where
    "read_frames dec k (concat (map enc ms)) = (Some EOF, ms', [])" "list_all2 received ms ms'" by auto
  moreover from dec_enc Cons.prems obtain m' where
    "dec (enc m @ concat (map enc ms)) = (None, m', concat (map enc ms))" "received m m'"
    by (metis list.set_intros(1))
  ultimately show ?case by (auto simp: n)
qed

end

definition frame_of :: "gzip_lib \<Rightarrow> (nat \<Rightarrow> bytes) \<Rightarrow> Message \<Rightarrow> bytes" where
  "frame_of lib pool_get m = (case Encode lib pool_get m of Some (_, buf) \<Rightarrow> buf | None \<Rightarrow> [])"

definition sendable :: "gzip_lib \<Rightarrow> (nat \<Rightarrow> bytes) \<Rightarrow> int \<Rightarrow> Message \<Rightarrow> bool" where
  "sendable lib pool_get maxLength m \<longleftrightarrow> gzip_ok lib \<and> sized pool_get \<and> wire_ok m
     \<and> length (data_bytes m (Payload m)) < 2 ^ 32
     \<and> (maxLength \<le> 0 \<or> int (length (data_bytes m (Payload m))) \<le> maxLength)"

definition received_as :: "Message \<Rightarrow> Message \<Rightarrow> bool" where
  "received_as m m' \<longleftrightarrow> (\<exists>ct. is_bit ct
     \<and> m' = m\<lparr>Hdr := SetCompressType (Hdr m) ct, Metadata := Some (entries m)\<rparr>)"

interpretation wire: framing "frame_of lib pool_get" "\<lambda>s. Decode lib maxLength s NewMessage"
  "sendable lib pool_get maxLength" received_as for lib pool_get maxLength
proof
  fix m rest
  assume "sendable lib pool_get maxLength m"
  then have "gzip_ok lib" "sized pool_get" "wire_ok m" "length (data_bytes m (Payload m)) < 2 ^ 32"
    "maxLength \<le> 0 \<or> int (length (data_bytes m (Payload m))) \<le> maxLength"
    by (simp_all add: sendable_def)
  from Encode_Decode [OF this, of rest NewMessage]
  show "\<exists>m'. Decode lib maxLength (frame_of lib pool_get m @ rest) NewMessage = (None, m', rest) \<and> received_as m m'"
    by (auto simp: frame_of_def received_as_def)
next
  show "\<exists>m. Decode lib maxLength [] NewMessage = (Some EOF, m, [])"
    by (simp add: Decode_def ReadFull_def)
qed



section \<open>The value count\<close>

text \<open>
  The number of values of a key travels as \<open>byte(len(vs))\<close>. A key with 256 values is
  written with count zero, and its values are then read as further entries.
\<close>

lemma read_string_zeros:
  assumes "off + 4 \<le> limit" "limit \<le> length data" "\<forall>i. off \<le> i \<and> i < limit \<longrightarrow> data ! i = 0"
  shows "read_string e1 e2 data off limit = Ok ([], off + 4)"
proof -
  have "take 4 (drop off data) = len32 0"
    using assms by (intro nth_equalityI) (auto simp: len32_def PutUint32_def less_Suc_eq_0_disj numeral_eq_Suc)
  then show ?thesis
    using assms by (simp add: read_string_def read_len_def read_bytes_def go_slice_def SliceByteToString_def)
qed

lemma decode_meta_zeros:
  "off + (5 * k + 4) = metaEnd \<Longrightarrow> metaEnd \<le> length data \<Longrightarrow>
   \<forall>i. off \<le> i \<and> i < metaEnd \<longrightarrow> data ! i = 0 \<Longrightarrow>
   fst (decode_meta data metaEnd off md) = Fail (Errorf ''invalid metadata format: insufficient data for value count'')"
proof (induction k arbitrary: off)
  case 0
  then show ?case by (simp add: decode_meta.simps read_string_zeros)
next
  case (Suc k)
  then have "fst (decode_meta data metaEnd (off + 5) md) =
      Fail (Errorf ''invalid metadata format: insufficient data for value count'')"
    by (intro Suc.IH) auto
  moreover have "data ! (off + 4) = 0" using Suc.prems by simp
  ultimately show ?case
    using Suc.prems by (subst decode_meta.simps) (simp add: read_string_zeros add.commute [of 5])
qed

definition many_values :: Message where
  "many_values = NewMessage\<lparr>Metadata := Some [(''k'', replicate 256 [])]\<rparr>"

lemma compress_NewHeader: "GetCompressType NewHeader = None_compress"
  by (simp add: GetCompressType_def NewHeader_def None_compress_def)

lemma many_values_magic: "CheckMagicNumber (Hdr many_values)"
  by (simp add: many_values_def NewMessage_def)

lemma zero_values: "concat (map value_bytes (replicate n [])) = replicate (4 * n) 0"
proof (induction n)
  case (Suc n)
  have "value_bytes [] = replicate 4 0"
    by (simp add: value_bytes_def lp_def StringToSliceByte_def len32_def PutUint32_def numeral_eq_Suc)
  with Suc show ?case by (simp add: numeral_eq_Suc)
qed simp

lemma many_values_bytes:
  "data_bytes many_values [] = lp (StringToSliceByte []) @ lp (StringToSliceByte []) @ len32 1030
     @ lp (StringToSliceByte ''k'') @ 0 # replicate 1024 0 @ lp []"
  using zero_values [of 256]
  by (simp add: data_bytes_def many_values_def NewMessage_def entries_def meta_bytes_def entry_bytes_def lp_def)

lemma decode_many_values:
  "fst (decodeMessageData lib (data_bytes many_values []) m) =
     Fail (Errorf ''invalid metadata format: insufficient data for value count'')"
proof -
  let ?d = "data_bytes many_values []" and ?n = "length (data_bytes many_values [])"
  let ?s = "lp (StringToSliceByte [])" and ?k = "lp (StringToSliceByte ''k'')"
  note d = many_values_bytes
  then have n: "?n = 1046" by simp
  have 1: "read_string e1 e2 ?d 0 ?n = Ok ([], 0 + 4 + length ([] :: string))" for e1 e2
    by (rule read_string_at [where pre = "[]" and post = "?s @ len32 1030 @ ?k @ 0 # replicate 1024 0 @ lp []"]) (simp_all add: d)
  have 2: "read_string e1 e2 ?d 4 ?n = Ok ([], 4 + 4 + length ([] :: string))" for e1 e2
    by (rule read_string_at [where pre = ?s and post = "len32 1030 @ ?k @ 0 # replicate 1024 0 @ lp []"]) (simp_all add: d)
  have 3: "read_len e ?d (length (?s @ ?s)) ?n = Ok (1030, length (?s @ ?s) + 4)" for e
    by (rule read_len_at [where post = "?k @ 0 # replicate 1024 0 @ lp []"]) (simp_all add: d)
  have 4: "read_string e1 e2 ?d 12 1042 = Ok (''k'', 12 + 4 + length ''k'')" for e1 e2
    by (rule read_string_at [where pre = "?s @ ?s @ len32 1030" and post = "0 # replicate 1024 0 @ lp []"]) (simp_all add: d)
  have e: "(?s @ ?s @ len32 1030 @ ?k @ [0]) @ replicate 1024 0 @ lp [] = ?d" using d by simp
  have z: "?d ! i = 0" if "17 \<le> i" "i < 1042" for i
  proof (cases "i = 17")
    case True
    then show ?thesis unfolding d by (simp add: nth_append)
  next
    case False
    from that have "i - 18 < 1024" by linarith
    with that False show ?thesis unfolding e [symmetric] by (subst nth_append) (simp add: nth_append)
  qed
  have "fst (decode_meta ?d 1042 18 []) = Fail (Errorf ''invalid metadata format: insufficient data for value count'')"
    by (rule decode_meta_zeros [where k = 204]) (use z n in auto)
  then have "fst (decode_meta ?d 1042 12 []) = Fail (Errorf ''invalid metadata format: insufficient data for value count'')"
    using z [of 17] n by (subst decode_meta.simps) (simp add: 4)
  then obtain md where "decode_meta ?d 1042 12 [] =
      (Fail (Errorf ''invalid metadata format: insufficient data for value count''), md)"
    by (metis prod.collapse)
  then show ?thesis
    using 1 2 3 n by (simp add: decodeMessageData_def)
qed

text \<open>
  The value count of a metadata key is one byte: a message with 256 values under
  one key encodes without an error, and its frame does not decode.
\<close>

theorem value_count_truncated:
  assumes "sized pool_get"
  shows "\<exists>buf. Encode lib pool_get many_values = Some (many_values, buf)
    \<and> fst (Decode lib 0 buf m) = Some (Errorf ''invalid metadata format: insufficient data for value count'')"
proof -
  have h: "header_ok (Hdr many_values)" by (simp add: many_values_def NewMessage_def)
  have "choose_payload lib many_values = (many_values, [])"
    by (simp add: choose_payload_def many_values_def NewMessage_def compress_NewHeader)
  note Encode_layout [OF assms h this]
  moreover have "fst (Decode lib 0 (layout many_values []) m) =
      Some (Errorf ''invalid metadata format: insufficient data for value count'')"
    using Decode_frame [of "Hdr many_values" "data_bytes many_values []" 0 lib "[]" m] h
      decode_many_values [of lib "m\<lparr>Hdr := Hdr many_values\<rparr>"] many_values_magic
    by (cases "decodeMessageData lib (data_bytes many_values []) (m\<lparr>Hdr := Hdr many_values\<rparr>)")
       (simp add: layout_def header_ok_def many_values_bytes)
  ultimately show ?thesis by blast
qed

theorem value_count_truncated_witness:
  "\<exists>buf. Encode run_length_gz (\<lambda>n. replicate n 0) many_values = Some (many_values, buf)
    \<and> fst (Decode run_length_gz 0 buf NewMessage) =
        Some (Errorf ''invalid metadata format: insufficient data for value count'')"
  by (rule value_count_truncated) (simp add: sized_def)

end
