(* ===== verification/ConnPool.thy ===== *)
theory ConnPool
  imports Timeout
begin

text \<open>
  The client's connections and their pool (\<^verbatim>\<open>clientconn.go\<close>).

  A connection is a number; \<open>cinfo\<close> is the store of the \<open>clientConn\<close> objects, and \<open>next_id\<close>
  the next free one. What the network answers is an argument: \<open>dial\<close> is the error of
  dialling or of the TLS handshake, and a health check gets the instant it runs at and
  the outcome of its ping. The stats handlers see a connection begin and end once each;
  \<open>clog\<close> is what they were told.

  Pool operations are steps of \<open>pool_step\<close>, which interleaves any number of callers at the
  granularity of one operation; a caller that waits in \<open>get\<close> polls the hot queue in steps
  of its own. \<open>handed\<close> lists the connections callers hold, \<open>leaked\<close> counts those a caller
  closed and dropped, and \<open>warmed\<close> the pre-warmed ones.
\<close>

datatype conn_status = Idle | InUse | Closed

record clientConn =
  status :: conn_status
  lastUsed :: time
  createTime :: time

datatype conn_event = ConnBegin nat | ConnEnd nat

record connPool =
  conns :: "nat list"
  size :: int
  created :: int
  hotQueue :: "nat list"
  hotCap :: nat
  hotClosed :: bool
  coldQueue :: "nat list"
  closed :: bool
  prewarmed :: bool
  handlers :: nat
  cinfo :: "nat \<Rightarrow> clientConn"
  next_id :: nat
  clog :: "conn_event list"

definition ErrClientConnClosing :: goerr where
  "ErrClientConnClosing = Errorf ''zrpc: the client connection is closing''"

definition ErrNoAvailableConn :: goerr where
  "ErrNoAvailableConn = Errorf ''zrpc: no available connection''"

section \<open>Connections\<close>

definition isClosed :: "connPool \<Rightarrow> nat \<Rightarrow> bool" where
  "isClosed p c \<longleftrightarrow> status (cinfo p c) = Closed"

definition markInUse :: "nat \<Rightarrow> connPool \<Rightarrow> connPool" where
  "markInUse c p = p\<lparr>cinfo := (cinfo p)(c := (cinfo p c)\<lparr>status := InUse\<rparr>)\<rparr>"

definition markIdle :: "time \<Rightarrow> nat \<Rightarrow> connPool \<Rightarrow> connPool" where
  "markIdle now c p = p\<lparr>cinfo := (cinfo p)(c := (cinfo p c)\<lparr>status := Idle, lastUsed := now\<rparr>)\<rparr>"

text \<open>
  The ping check reads one byte under a short deadline: a timeout, or a byte, means alive.
\<close>

datatype ping_result = DeadlineError | ReadTimeout | ReadError | ReadByte byte

fun pingCheck :: "ping_result \<Rightarrow> bool" where
  "pingCheck DeadlineError = False"
| "pingCheck ReadTimeout = True"
| "pingCheck ReadError = False"
| "pingCheck (ReadByte _) = True"

type_synonym probe = "time \<times> ping_result"

definition isHealthy :: "probe \<Rightarrow> connPool \<Rightarrow> nat \<Rightarrow> bool" where
  "isHealthy pr p c =
     (case pr of (now, ping) \<Rightarrow>
        if isClosed p c then False
        else if now - createTime (cinfo p c) > 1 * Hour then False
        else if now - lastUsed (cinfo p c) > 5 * Minute then pingCheck ping
        else True)"

definition newClientConn :: "goerr option \<Rightarrow> time \<Rightarrow> connPool \<Rightarrow> (goerr + nat) \<times> connPool" where
  "newClientConn dial now p =
     (case dial of
        Some e \<Rightarrow> (Inl e, p)
      | None \<Rightarrow>
          (let c = next_id p in
           (Inr c, p\<lparr>cinfo := (cinfo p)(c := \<lparr>status = Idle, lastUsed = now, createTime = now\<rparr>),
                     next_id := c + 1, clog := clog p @ replicate (handlers p) (ConnBegin c)\<rparr>)))"

definition conn_Close :: "nat \<Rightarrow> connPool \<Rightarrow> connPool" where
  "conn_Close c p =
     (if isClosed p c then p
      else p\<lparr>cinfo := (cinfo p)(c := (cinfo p c)\<lparr>status := Closed\<rparr>),
             clog := clog p @ replicate (handlers p) (ConnEnd c)\<rparr>)"

section \<open>The pool\<close>

text \<open>\<open>make\<close> panics on a negative capacity, so a pool needs a positive size.\<close>

definition newConnPool :: "nat \<Rightarrow> int \<Rightarrow> connPool outcome" where
  "newConnPool hs sz =
     (let hotQueueSize = (if sz sdiv 2 < 1 then 1 else sz sdiv 2) in
      if sz < 0 \<or> sz - hotQueueSize < 0 then Panic
      else Ok \<lparr>conns = [], size = sz, created = 0, hotQueue = [], hotCap = nat hotQueueSize, hotClosed = False,
             coldQueue = [], closed = False, prewarmed = False, handlers = hs,
             cinfo = (\<lambda>_. \<lparr>status = Closed, lastUsed = 0, createTime = 0\<rparr>), next_id = 0, clog = []\<rparr>)"

definition prewarmCount :: "int \<Rightarrow> int" where
  "prewarmCount sz = (if sz sdiv 4 < 1 then 1 else sz sdiv 4)"

definition prewarm_one :: "goerr option \<Rightarrow> time \<Rightarrow> connPool \<Rightarrow> connPool" where
  "prewarm_one dial now p =
     (case newClientConn dial now p of
        (Inl e, p) \<Rightarrow> p
      | (Inr c, p) \<Rightarrow> p\<lparr>conns := conns p @ [c], created := created p + 1, coldQueue := coldQueue p @ [c]\<rparr>)"

fun prewarm_loop :: "(nat \<Rightarrow> goerr option \<times> time) \<Rightarrow> nat \<Rightarrow> nat \<Rightarrow> connPool \<Rightarrow> connPool" where
  "prewarm_loop dials i 0 p = p\<lparr>prewarmed := True\<rparr>"
| "prewarm_loop dials i (Suc n) p =
     (if closed p then p
      else prewarm_loop dials (Suc i) n (prewarm_one (fst (dials i)) (snd (dials i)) p))"

definition prewarmConnections :: "(nat \<Rightarrow> goerr option \<times> time) \<Rightarrow> connPool \<Rightarrow> connPool" where
  "prewarmConnections dials p = prewarm_loop dials 0 (nat (prewarmCount (size p))) p"

definition releaseConn :: "nat \<Rightarrow> connPool \<Rightarrow> connPool" where
  "releaseConn c p = (conn_Close c p)\<lparr>created := created p - 1\<rparr>"

definition createNewConn :: "goerr option \<Rightarrow> time \<Rightarrow> connPool \<Rightarrow> (goerr + nat) \<times> connPool" where
  "createNewConn dial now p =
     (if created p \<ge> size p then (Inl ErrNoAvailableConn, p)
      else case newClientConn dial now p of
             (Inl e, p) \<Rightarrow> (Inl (Wrap ''failed to create new connection'' e), p)
           | (Inr c, p) \<Rightarrow> (Inr c, markInUse c (p\<lparr>conns := conns p @ [c], created := created p + 1\<rparr>)))"

text \<open>A connection taken from a queue is handed out if it is healthy, and released otherwise.\<close>

definition checkout :: "probe \<Rightarrow> nat \<Rightarrow> connPool \<Rightarrow> nat option \<times> connPool" where
  "checkout pr c p =
     (if \<not> isClosed p c \<and> isHealthy pr p c then (Some c, markInUse c p) else (None, releaseConn c p))"

text \<open>A non-blocking receive from the hot queue; a closed and empty channel yields nil.\<close>

definition try_hot :: "probe \<Rightarrow> connPool \<Rightarrow> nat option \<times> connPool" where
  "try_hot pr p = (case hotQueue p of [] \<Rightarrow> (None, p) | c # q \<Rightarrow> checkout pr c (p\<lparr>hotQueue := q\<rparr>))"

definition try_cold :: "probe \<Rightarrow> connPool \<Rightarrow> nat option \<times> connPool" where
  "try_cold pr p =
     (if length (coldQueue p) > 0
      then checkout pr (last (coldQueue p)) (p\<lparr>coldQueue := butlast (coldQueue p)\<rparr>)
      else (None, p))"

definition try_create :: "goerr option \<Rightarrow> time \<Rightarrow> connPool \<Rightarrow> nat option \<times> connPool" where
  "try_create dial now p =
     (if created p < size p
      then (case createNewConn dial now p of (Inr c, p) \<Rightarrow> (Some c, p) | (Inl e, p) \<Rightarrow> (None, p))
      else (None, p))"

text \<open>
  What a call of \<open>get\<close> meets: the probes of its checks, its two dials, and what other
  callers did to the pool before each poll of the waiting loop.
\<close>

record get_env =
  probes :: "nat \<Rightarrow> probe"
  dials :: "nat \<Rightarrow> goerr option \<times> time"
  meanwhile :: "nat \<Rightarrow> connPool \<Rightarrow> connPool"

definition orelse :: "nat option \<times> connPool \<Rightarrow> (connPool \<Rightarrow> nat option \<times> connPool) \<Rightarrow> nat option \<times> connPool" where
  "orelse r f = (case r of (Some c, p) \<Rightarrow> (Some c, p) | (None, p) \<Rightarrow> f p)"

definition get_fast :: "get_env \<Rightarrow> connPool \<Rightarrow> nat option \<times> connPool" where
  "get_fast env p =
     orelse (try_hot (probes env 0) p) (\<lambda>p.
     orelse (try_create (fst (dials env 0)) (snd (dials env 0)) p) (\<lambda>p.
     orelse (try_cold (probes env 1) p) (\<lambda>p.
     orelse (try_hot (probes env 2) p) (\<lambda>p.
     try_create (fst (dials env 1)) (snd (dials env 1)) p))))"

fun get_wait :: "get_env \<Rightarrow> nat \<Rightarrow> nat \<Rightarrow> connPool \<Rightarrow> nat option \<times> connPool" where
  "get_wait env i 0 p = (None, p)"
| "get_wait env i (Suc n) p =
     orelse (try_hot (probes env (3 + i)) (meanwhile env i p)) (get_wait env (Suc i) n)"

definition pool_get :: "get_env \<Rightarrow> connPool \<Rightarrow> (goerr + nat) \<times> connPool" where
  "pool_get env p =
     (if closed p then (Inl ErrClientConnClosing, p)
      else case orelse (get_fast env p) (get_wait env 0 5) of
             (Some c, p) \<Rightarrow> (Inr c, p)
           | (None, p) \<Rightarrow> (Inl ErrNoAvailableConn, p))"

text \<open>A send on the closed hot queue panics.\<close>

definition pool_put :: "time \<Rightarrow> time \<Rightarrow> nat \<Rightarrow> connPool \<Rightarrow> connPool outcome" where
  "pool_put now1 now2 cc p =
     (if isClosed p cc then Ok p
      else
        (let p = markIdle now1 cc p;
             p = p\<lparr>cinfo := (cinfo p)(cc := (cinfo p cc)\<lparr>lastUsed := now2\<rparr>)\<rparr>
         in if hotClosed p then Panic
            else if length (hotQueue p) < hotCap p then Ok (p\<lparr>hotQueue := hotQueue p @ [cc]\<rparr>)
            else if closed p then Ok ((conn_Close cc p)\<lparr>created := created p - 1\<rparr>)
            else Ok (p\<lparr>coldQueue := coldQueue p @ [cc]\<rparr>)))"

definition pool_Close :: "connPool \<Rightarrow> connPool" where
  "pool_Close p =
     (if closed p then p
      else
        (let cs = conns p; cold = coldQueue p; hot = hotQueue p;
             p = p\<lparr>closed := True, conns := [], coldQueue := []\<rparr>;
             p = fold conn_Close cs p;
             p = fold conn_Close cold p;
             p = fold conn_Close hot (p\<lparr>hotClosed := True, hotQueue := []\<rparr>)
         in p\<lparr>created := 0\<rparr>))"

section \<open>Executions\<close>

record pstate =
  pool :: connPool
  handed :: "nat list"
  leaked :: nat
  warmed :: nat

definition hand_out :: "nat option \<Rightarrow> nat list \<Rightarrow> nat list" where
  "hand_out r hs = (case r of Some c \<Rightarrow> c # hs | None \<Rightarrow> hs)"

inductive pool_step :: "pstate \<Rightarrow> pstate \<Rightarrow> bool" where
  get: "\<not> closed (pool s) \<Longrightarrow> get_fast env (pool s) = (r, p) \<Longrightarrow>
    pool_step s (s\<lparr>pool := p, handed := hand_out r (handed s)\<rparr>)"
| poll: "try_hot pr (pool s) = (r, p) \<Longrightarrow> pool_step s (s\<lparr>pool := p, handed := hand_out r (handed s)\<rparr>)"
| put: "c \<in> set (handed s) \<Longrightarrow> pool_put now1 now2 c (pool s) = Ok p \<Longrightarrow>
    pool_step s (s\<lparr>pool := p, handed := remove1 c (handed s),
      leaked := leaked s + (if isClosed (pool s) c then 1 else 0)\<rparr>)"
| close_conn: "c \<in> set (handed s) \<Longrightarrow> pool_step s (s\<lparr>pool := conn_Close c (pool s)\<rparr>)"
| drop_conn: "c \<in> set (handed s) \<Longrightarrow> isClosed (pool s) c \<Longrightarrow>
    pool_step s (s\<lparr>handed := remove1 c (handed s), leaked := leaked s + 1\<rparr>)"
| prewarm: "\<not> closed (pool s) \<Longrightarrow> int (warmed s) < prewarmCount (size (pool s)) \<Longrightarrow>
    pool_step s (s\<lparr>pool := prewarm_one dial now (pool s), warmed := warmed s + 1\<rparr>)"
| close: "pool_step s (s\<lparr>pool := pool_Close (pool s)\<rparr>)"

inductive_cases pool_stepE: "pool_step s t"

section \<open>The invariant\<close>

text \<open>
  \<open>pool_ok p hs l w\<close>: every connection is in at most one place (hot queue, cold queue, or
  one caller's hands \<open>hs\<close>); queued connections are open; the counter is the number of
  connections in these places plus the leaked ones \<open>l\<close>, and exceeds the size by at most
  the pre-warmed ones \<open>w\<close>; a closed pool has closed everything; the stats handlers saw
  each connection begin once, and end once if it is closed.
\<close>

definition log_ok :: "connPool \<Rightarrow> bool" where
  "log_ok p \<longleftrightarrow> (\<forall>c. count_list (clog p) (ConnBegin c) = (if c < next_id p then handlers p else 0)
     \<and> count_list (clog p) (ConnEnd c) = (if c < next_id p \<and> isClosed p c then handlers p else 0))"

definition place_ok :: "connPool \<Rightarrow> nat list \<Rightarrow> bool" where
  "place_ok p hs \<longleftrightarrow> distinct (hotQueue p @ coldQueue p @ hs)
     \<and> (\<forall>c \<in> set (hotQueue p @ coldQueue p @ hs). c < next_id p)
     \<and> (\<forall>c \<in> set (hotQueue p @ coldQueue p). \<not> isClosed p c)
     \<and> (\<forall>c \<ge> next_id p. isClosed p c)
     \<and> length (hotQueue p) \<le> hotCap p \<and> hotClosed p = closed p"

definition count_ok :: "connPool \<Rightarrow> nat list \<Rightarrow> nat \<Rightarrow> nat \<Rightarrow> bool" where
  "count_ok p hs l w \<longleftrightarrow>
     (if closed p then hotQueue p = [] \<and> coldQueue p = [] \<and> created p = 0 \<and> (\<forall>c. isClosed p c)
      else created p = int (length (hotQueue p) + length (coldQueue p) + length hs + l)
        \<and> created p \<le> size p + int w \<and> (\<forall>c. \<not> isClosed p c \<longrightarrow> c \<in> set (conns p)))"

definition pool_ok :: "connPool \<Rightarrow> nat list \<Rightarrow> nat \<Rightarrow> nat \<Rightarrow> bool" where
  "pool_ok p hs l w \<longleftrightarrow> place_ok p hs \<and> count_ok p hs l w \<and> log_ok p"

definition pool_inv :: "int \<Rightarrow> pstate \<Rightarrow> bool" where
  "pool_inv sz s \<longleftrightarrow> pool_ok (pool s) (handed s) (leaked s) (warmed s) \<and> size (pool s) = sz \<and> 0 < sz
     \<and> int (warmed s) \<le> prewarmCount sz"

lemmas pool_ok_defs = pool_ok_def place_ok_def count_ok_def log_ok_def

lemma count_list_replicate [simp]: "count_list (replicate n x) y = (if x = y then n else 0)"
  by (induction n) auto

lemma markInUse_fields [simp]:
  "conns (markInUse c p) = conns p" "size (markInUse c p) = size p" "created (markInUse c p) = created p"
  "hotQueue (markInUse c p) = hotQueue p" "hotCap (markInUse c p) = hotCap p"
  "hotClosed (markInUse c p) = hotClosed p" "coldQueue (markInUse c p) = coldQueue p"
  "closed (markInUse c p) = closed p" "handlers (markInUse c p) = handlers p"
  "next_id (markInUse c p) = next_id p" "clog (markInUse c p) = clog p"
  "isClosed (markInUse c p) d = (d \<noteq> c \<and> isClosed p d)"
  by (simp_all add: markInUse_def isClosed_def)

lemma conn_Close_fields [simp]:
  "conns (conn_Close c p) = conns p" "size (conn_Close c p) = size p" "created (conn_Close c p) = created p"
  "hotQueue (conn_Close c p) = hotQueue p" "hotCap (conn_Close c p) = hotCap p"
  "hotClosed (conn_Close c p) = hotClosed p" "coldQueue (conn_Close c p) = coldQueue p"
  "closed (conn_Close c p) = closed p" "handlers (conn_Close c p) = handlers p"
  "next_id (conn_Close c p) = next_id p"
  "isClosed (conn_Close c p) d = (d = c \<or> isClosed p d)"
  by (auto simp: conn_Close_def isClosed_def)

lemma fold_conn_Close_fields [simp]:
  "conns (fold conn_Close cs p) = conns p" "size (fold conn_Close cs p) = size p"
  "hotQueue (fold conn_Close cs p) = hotQueue p" "hotCap (fold conn_Close cs p) = hotCap p"
  "hotClosed (fold conn_Close cs p) = hotClosed p" "coldQueue (fold conn_Close cs p) = coldQueue p"
  "closed (fold conn_Close cs p) = closed p" "next_id (fold conn_Close cs p) = next_id p"
  "isClosed (fold conn_Close cs p) d = (d \<in> set cs \<or> isClosed p d)"
  by (induction cs arbitrary: p) auto

lemma log_ok_Close: "log_ok p \<Longrightarrow> c < next_id p \<or> isClosed p c \<Longrightarrow> log_ok (conn_Close c p)"
  by (auto simp: log_ok_def conn_Close_def isClosed_def)

lemma log_ok_fold_Close:
  "log_ok p \<Longrightarrow> \<forall>c \<in> set cs. c < next_id p \<or> isClosed p c \<Longrightarrow> log_ok (fold conn_Close cs p)"
proof (induction cs arbitrary: p)
  case (Cons c cs)
  then have "log_ok (conn_Close c p)" by (simp add: log_ok_Close)
  moreover have "\<forall>d \<in> set cs. d < next_id (conn_Close c p) \<or> isClosed (conn_Close c p) d" using Cons.prems(2) by auto
  ultimately show ?case using Cons.IH [of "conn_Close c p"] by simp
qed simp

lemma isClosed_update [simp]:
  "isClosed (p\<lparr>hotQueue := a\<rparr>) c = isClosed p c" "isClosed (p\<lparr>coldQueue := b\<rparr>) c = isClosed p c"
  "isClosed (p\<lparr>created := n\<rparr>) c = isClosed p c" "isClosed (p\<lparr>conns := cs\<rparr>) c = isClosed p c"
  "isClosed (p\<lparr>hotClosed := x\<rparr>) c = isClosed p c" "isClosed (p\<lparr>closed := y\<rparr>) c = isClosed p c"
  by (simp_all add: isClosed_def)

lemma log_ok_update [simp]:
  "log_ok (p\<lparr>hotQueue := a\<rparr>) = log_ok p" "log_ok (p\<lparr>coldQueue := b\<rparr>) = log_ok p"
  "log_ok (p\<lparr>created := n\<rparr>) = log_ok p" "log_ok (p\<lparr>conns := cs\<rparr>) = log_ok p"
  "log_ok (p\<lparr>hotClosed := x\<rparr>) = log_ok p" "log_ok (p\<lparr>closed := y\<rparr>) = log_ok p"
  by (simp_all add: log_ok_def)

lemma pool_ok_use:
  "pool_ok p hs l w \<Longrightarrow> \<not> isClosed p c \<Longrightarrow> pool_ok (markInUse c p) hs l w"
  by (auto simp: pool_ok_defs)

lemma pool_ok_close_held:
  "pool_ok p hs l w \<Longrightarrow> c \<in> set hs \<Longrightarrow> pool_ok (conn_Close c p) hs l w"
  using log_ok_Close [of p c] by (auto simp: pool_ok_def place_ok_def count_ok_def)

lemma pool_ok_release:
  assumes "pool_ok p (c # hs) l w" "\<not> closed p"
  shows "pool_ok (releaseConn c p) hs l w"
  using assms log_ok_Close [of p c] by (auto simp: pool_ok_def place_ok_def count_ok_def releaseConn_def)

lemma pool_ok_take_hot:
  assumes "pool_ok p hs l w" "hotQueue p = c # q"
  shows "pool_ok (p\<lparr>hotQueue := q\<rparr>) (c # hs) l w" "\<not> closed p" "\<not> isClosed p c"
  using assms by (auto simp: pool_ok_def place_ok_def count_ok_def split: if_splits)

lemma pool_ok_take_cold:
  assumes "pool_ok p hs l w" "coldQueue p = q @ [c]"
  shows "pool_ok (p\<lparr>coldQueue := q\<rparr>) (c # hs) l w" "\<not> closed p" "\<not> isClosed p c"
  using assms by (auto simp: pool_ok_def place_ok_def count_ok_def split: if_splits)

lemma checkout_ok:
  assumes "pool_ok p (c # hs) l w" "\<not> closed p" "checkout pr c p = (r, p')"
  shows "pool_ok p' (hand_out r hs) l w"
  using assms pool_ok_use [of p "c # hs"] pool_ok_release [of p c hs]
  by (auto simp: checkout_def hand_out_def split: if_splits)

lemma try_hot_ok:
  assumes "pool_ok p hs l w" "try_hot pr p = (r, p')"
  shows "pool_ok p' (hand_out r hs) l w"
proof (cases "hotQueue p")
  case Nil
  with assms show ?thesis by (simp add: try_hot_def hand_out_def)
next
  case (Cons c q)
  with pool_ok_take_hot [OF assms(1) Cons] assms(2) show ?thesis
    by (auto simp: try_hot_def intro!: checkout_ok [where p = "p\<lparr>hotQueue := q\<rparr>" and c = c and pr = pr])
qed

lemma try_cold_ok:
  assumes "pool_ok p hs l w" "try_cold pr p = (r, p')"
  shows "pool_ok p' (hand_out r hs) l w"
proof (cases "coldQueue p" rule: rev_cases)
  case Nil
  with assms show ?thesis by (simp add: try_cold_def hand_out_def)
next
  case (snoc q c)
  with pool_ok_take_cold [OF assms(1) snoc] assms(2) show ?thesis
    by (auto simp: try_cold_def intro!: checkout_ok [where p = "p\<lparr>coldQueue := q\<rparr>" and c = c and pr = pr])
qed

definition fresh_conn :: "time \<Rightarrow> connPool \<Rightarrow> connPool" where
  "fresh_conn now p = p\<lparr>cinfo := (cinfo p)(next_id p := \<lparr>status = Idle, lastUsed = now, createTime = now\<rparr>),
     next_id := next_id p + 1, clog := clog p @ replicate (handlers p) (ConnBegin (next_id p))\<rparr>"

lemma newClientConn_None: "newClientConn None now p = (Inr (next_id p), fresh_conn now p)"
  by (simp add: newClientConn_def fresh_conn_def Let_def)

lemma newClientConn_Some: "newClientConn (Some e) now p = (Inl e, p)"
  by (simp add: newClientConn_def)

lemma fresh_conn_fields [simp]:
  "conns (fresh_conn now p) = conns p" "size (fresh_conn now p) = size p" "created (fresh_conn now p) = created p"
  "hotQueue (fresh_conn now p) = hotQueue p" "hotCap (fresh_conn now p) = hotCap p"
  "hotClosed (fresh_conn now p) = hotClosed p" "coldQueue (fresh_conn now p) = coldQueue p"
  "closed (fresh_conn now p) = closed p" "handlers (fresh_conn now p) = handlers p"
  "next_id (fresh_conn now p) = next_id p + 1"
  "isClosed (fresh_conn now p) d = (d \<noteq> next_id p \<and> isClosed p d)"
  by (simp_all add: fresh_conn_def isClosed_def)

lemma log_ok_fresh: "log_ok p \<Longrightarrow> log_ok (fresh_conn now p)"
  unfolding log_ok_def by (auto simp: less_Suc_eq) (simp_all add: fresh_conn_def)

lemma pool_ok_fresh:
  assumes "pool_ok p hs l w" "\<not> closed p" "created p + 1 \<le> size p + int w'"
  shows "pool_ok ((fresh_conn now p)\<lparr>conns := conns p @ [next_id p], created := created p + 1\<rparr>) (next_id p # hs) l w'"
  using assms log_ok_fresh [of p now] by (auto simp: pool_ok_def place_ok_def count_ok_def less_Suc_eq)

lemma try_create_ok:
  assumes "pool_ok p hs l w" "\<not> closed p" "try_create dial now p = (r, p')"
  shows "pool_ok p' (hand_out r hs) l w" "closed p' = closed p \<and> size p' = size p"
proof -
  let ?q = "(fresh_conn now p)\<lparr>conns := conns p @ [next_id p], created := created p + 1\<rparr>"
  have "created p < size p \<Longrightarrow> pool_ok (markInUse (next_id p) ?q) (next_id p # hs) l w"
    using pool_ok_fresh [OF assms(1,2), of w now] by (intro pool_ok_use) auto
  then show "pool_ok p' (hand_out r hs) l w"
    using assms(1,3) by (cases dial)
      (auto simp: try_create_def createNewConn_def newClientConn_None newClientConn_Some hand_out_def split: if_splits)
  show "closed p' = closed p \<and> size p' = size p"
    using assms(3) by (cases dial)
      (auto simp: try_create_def createNewConn_def newClientConn_None newClientConn_Some split: if_splits)
qed

lemma checkout_closed: "checkout pr c p = (r, p') \<Longrightarrow> closed p' = closed p \<and> size p' = size p"
  by (auto simp: checkout_def releaseConn_def split: if_splits)

lemma try_hot_closed: "try_hot pr p = (r, p') \<Longrightarrow> closed p' = closed p \<and> size p' = size p"
  by (auto simp: try_hot_def split: list.splits dest: checkout_closed)

lemma try_cold_closed: "try_cold pr p = (r, p') \<Longrightarrow> closed p' = closed p \<and> size p' = size p"
  by (auto simp: try_cold_def split: if_splits dest: checkout_closed)

text \<open>An attempt keeps the invariant, with the connection it found added to the caller's hands.\<close>

definition keeps_pool :: "(connPool \<Rightarrow> nat option \<times> connPool) \<Rightarrow> bool" where
  "keeps_pool f \<longleftrightarrow> (\<forall>p hs l w r p'. pool_ok p hs l w \<longrightarrow> \<not> closed p \<longrightarrow> f p = (r, p') \<longrightarrow>
     pool_ok p' (hand_out r hs) l w \<and> \<not> closed p' \<and> size p' = size p)"

lemma keeps_poolD:
  "keeps_pool f \<Longrightarrow> pool_ok p hs l w \<Longrightarrow> \<not> closed p \<Longrightarrow> f p = (r, p') \<Longrightarrow>
   pool_ok p' (hand_out r hs) l w \<and> \<not> closed p' \<and> size p' = size p"
  unfolding keeps_pool_def by blast

lemma keeps_pool_orelse:
  assumes "keeps_pool f" "keeps_pool g"
  shows "keeps_pool (\<lambda>p. orelse (f p) g)"
  unfolding keeps_pool_def
proof (intro allI impI)
  fix p hs l w r p'
  assume p: "pool_ok p hs l w" "\<not> closed p" and e: "orelse (f p) g = (r, p')"
  obtain r1 p1 where f: "f p = (r1, p1)" by (cases "f p")
  note p1 = keeps_poolD [OF assms(1) p f]
  show "pool_ok p' (hand_out r hs) l w \<and> \<not> closed p' \<and> size p' = size p"
  proof (cases r1)
    case None
    with p1 have "pool_ok p1 hs l w" "\<not> closed p1" by (simp_all add: hand_out_def)
    moreover from None f e have "g p1 = (r, p')" by (simp add: orelse_def)
    ultimately show ?thesis using keeps_poolD [OF assms(2)] p1 by simp
  next
    case (Some c)
    with f e p1 show ?thesis by (simp add: orelse_def)
  qed
qed

lemma keeps_pool_tries: "keeps_pool (try_hot pr)" "keeps_pool (try_cold pr)" "keeps_pool (try_create dial now)"
  by (simp_all add: keeps_pool_def try_hot_ok try_hot_closed try_cold_ok try_cold_closed try_create_ok)

lemma keeps_pool_get_fast: "keeps_pool (get_fast env)"
  unfolding get_fast_def [abs_def] by (intro keeps_pool_orelse keeps_pool_tries)

lemma prewarm_ok:
  assumes "pool_ok p hs l w" "\<not> closed p"
  shows "pool_ok (prewarm_one dial now p) hs l (w + 1)"
proof (cases dial)
  case (Some e)
  with assms show ?thesis by (auto simp: prewarm_one_def newClientConn_Some pool_ok_def count_ok_def)
next
  case None
  have "created p + 1 \<le> size p + int (w + 1)" using assms by (auto simp: pool_ok_def count_ok_def)
  from pool_ok_fresh [OF assms this, of now]
  have "pool_ok ((fresh_conn now p)\<lparr>conns := conns p @ [next_id p], created := created p + 1,
      coldQueue := coldQueue p @ [next_id p]\<rparr>) hs l (w + 1)"
    using assms(2) by (auto simp: pool_ok_def place_ok_def count_ok_def)
  with None show ?thesis by (simp add: prewarm_one_def newClientConn_None)
qed

definition parked :: "time \<Rightarrow> time \<Rightarrow> nat \<Rightarrow> connPool \<Rightarrow> connPool" where
  "parked now1 now2 c p =
     (let p = markIdle now1 c p in p\<lparr>cinfo := (cinfo p)(c := (cinfo p c)\<lparr>lastUsed := now2\<rparr>)\<rparr>)"

lemma parked_fields [simp]:
  "conns (parked a b c p) = conns p" "size (parked a b c p) = size p" "created (parked a b c p) = created p"
  "hotQueue (parked a b c p) = hotQueue p" "hotCap (parked a b c p) = hotCap p"
  "hotClosed (parked a b c p) = hotClosed p" "coldQueue (parked a b c p) = coldQueue p"
  "closed (parked a b c p) = closed p" "handlers (parked a b c p) = handlers p"
  "next_id (parked a b c p) = next_id p" "clog (parked a b c p) = clog p"
  "isClosed (parked a b c p) d = (d \<noteq> c \<and> isClosed p d)"
  by (simp_all add: parked_def markIdle_def isClosed_def Let_def)

lemma pool_put_open:
  "\<not> isClosed p c \<Longrightarrow> pool_put now1 now2 c p =
     (if hotClosed p then Panic
      else if length (hotQueue p) < hotCap p then Ok ((parked now1 now2 c p)\<lparr>hotQueue := hotQueue p @ [c]\<rparr>)
      else if closed p then Ok ((conn_Close c (parked now1 now2 c p))\<lparr>created := created p - 1\<rparr>)
      else Ok ((parked now1 now2 c p)\<lparr>coldQueue := coldQueue p @ [c]\<rparr>))"
  by (simp add: pool_put_def parked_def Let_def markIdle_def)

lemma pool_ok_parked: "pool_ok p hs l w \<Longrightarrow> \<not> isClosed p c \<Longrightarrow> pool_ok (parked a b c p) hs l w"
  by (auto simp: pool_ok_defs)

lemma remove1_facts:
  assumes "distinct hs" "c \<in> set hs"
  shows "set (remove1 c hs) = set hs - {c}" "int (length hs) = int (length (remove1 c hs)) + 1" "distinct (remove1 c hs)"
proof -
  show "int (length hs) = int (length (remove1 c hs)) + 1" 
    using assms length_pos_if_in_set [of c hs] by (simp add: length_remove1 of_nat_diff Suc_leI)
qed (use assms in auto)

lemma pool_ok_enqueue:
  assumes "pool_ok p hs l w" "c \<in> set hs" "\<not> isClosed p c" "\<not> closed p"
  shows "length (hotQueue p) < hotCap p \<Longrightarrow> pool_ok (p\<lparr>hotQueue := hotQueue p @ [c]\<rparr>) (remove1 c hs) l w"
    and "pool_ok (p\<lparr>coldQueue := coldQueue p @ [c]\<rparr>) (remove1 c hs) l w"
proof -
  have "distinct hs" using assms(1) by (simp add: pool_ok_def place_ok_def)
  note r = remove1_facts [OF this assms(2)]
  show "length (hotQueue p) < hotCap p \<Longrightarrow> pool_ok (p\<lparr>hotQueue := hotQueue p @ [c]\<rparr>) (remove1 c hs) l w"
    using assms r by (auto simp: pool_ok_def place_ok_def count_ok_def)
  show "pool_ok (p\<lparr>coldQueue := coldQueue p @ [c]\<rparr>) (remove1 c hs) l w"
    using assms r by (auto simp: pool_ok_def place_ok_def count_ok_def)
qed

lemma pool_ok_drop:
  assumes "pool_ok p hs l w" "c \<in> set hs"
  shows "pool_ok p (remove1 c hs) (l + 1) w"
proof -
  have "distinct hs" using assms(1) by (simp add: pool_ok_def place_ok_def)
  note r = remove1_facts [OF this assms(2)]
  show ?thesis using assms r by (auto simp: pool_ok_def place_ok_def count_ok_def)
qed

lemma pool_ok_put:
  assumes "pool_ok p hs l w" "c \<in> set hs" "pool_put now1 now2 c p = Ok p'"
  shows "pool_ok p' (remove1 c hs) (l + (if isClosed p c then 1 else 0)) w"
proof (cases "isClosed p c")
  case True
  with assms show ?thesis using pool_ok_drop [OF assms(1,2)] by (simp add: pool_put_def)
next
  case False
  let ?q = "parked now1 now2 c p"
  have q: "pool_ok ?q hs l w" "\<not> isClosed ?q c" using False assms(1) by (auto intro: pool_ok_parked)
  have "\<not> hotClosed p" using assms(3) False by (auto simp: pool_put_open)
  then have open_pool: "\<not> closed p" using assms(1) by (simp add: pool_ok_def place_ok_def)
  with False assms(3) pool_ok_enqueue [OF q(1) assms(2) q(2)] show ?thesis
    by (auto simp: pool_put_open split: if_splits)
qed

lemma pool_put_no_panic: "pool_ok p hs l w \<Longrightarrow> pool_put now1 now2 c p \<noteq> Panic"
  by (cases "isClosed p c") (auto simp: pool_put_def [of _ _ _ p] pool_put_open pool_ok_def place_ok_def count_ok_def Let_def
      markIdle_def split: if_splits)

lemma pool_put_size: "pool_put now1 now2 c p = Ok p' \<Longrightarrow> size p' = size p"
  by (cases "isClosed p c") (auto simp: pool_put_open split: if_splits, simp add: pool_put_def)

lemma pool_Close_open:
  "\<not> closed p \<Longrightarrow> pool_Close p =
     (fold conn_Close (hotQueue p) ((fold conn_Close (coldQueue p) (fold conn_Close (conns p)
       (p\<lparr>closed := True, conns := [], coldQueue := []\<rparr>)))\<lparr>hotClosed := True, hotQueue := []\<rparr>))\<lparr>created := 0\<rparr>"
  by (simp add: pool_Close_def Let_def)

lemma pool_ok_Close:
  assumes "pool_ok p hs l w"
  shows "pool_ok (pool_Close p) hs l w" "closed (pool_Close p)" "isClosed (pool_Close p) c" "size (pool_Close p) = size p"
proof -
  have all: "isClosed (pool_Close p) c" for c
    using assms by (cases "closed p") (auto simp: pool_Close_def [of p] pool_Close_open pool_ok_def count_ok_def)
  show "isClosed (pool_Close p) c" by (rule all)
  show cl: "closed (pool_Close p)" by (cases "closed p") (simp_all add: pool_Close_def [of p] pool_Close_open)
  show "size (pool_Close p) = size p" by (cases "closed p") (simp_all add: pool_Close_def [of p] pool_Close_open)
  show "pool_ok (pool_Close p) hs l w"
  proof (cases "closed p")
    case True
    with assms show ?thesis by (simp add: pool_Close_def)
  next
    case False
    have k: "c < next_id p \<or> isClosed p c" for c using assms by (auto simp: pool_ok_def place_ok_def not_less)
    have "log_ok (pool_Close p)"
      unfolding pool_Close_open [OF False] log_ok_update
      using assms k by (intro log_ok_fold_Close; (simp only: log_ok_update)?; (intro log_ok_fold_Close)?)
        (auto simp: pool_ok_def)
    with False all cl assms show ?thesis
      by (auto simp: pool_ok_def place_ok_def count_ok_def pool_Close_open)
  qed
qed

lemma prewarm_one_fields: "closed (prewarm_one dial now p) = closed p" "size (prewarm_one dial now p) = size p"
  by (cases dial; simp add: prewarm_one_def newClientConn_None newClientConn_Some)+

lemma pool_inv_step: "pool_step s t \<Longrightarrow> pool_inv sz s \<Longrightarrow> pool_inv sz t"
proof (induction rule: pool_step.induct)
  case (get s env r p)
  then show ?case using keeps_poolD [OF keeps_pool_get_fast, of "pool s" "handed s" "leaked s" "warmed s" env r p]
    by (simp add: pool_inv_def)
next
  case (poll pr s r p)
  then show ?case using try_hot_ok [OF _ poll(1)] try_hot_closed [OF poll(1)] by (simp add: pool_inv_def)
next
  case (put c s now1 now2 p)
  then show ?case using pool_ok_put [OF _ put(1,2)] pool_put_size [OF put(2)] by (simp add: pool_inv_def)
next
  case (close_conn c s)
  then show ?case using pool_ok_close_held by (simp add: pool_inv_def)
next
  case (drop_conn c s)
  then show ?case using pool_ok_drop [OF _ drop_conn(1)] by (simp add: pool_inv_def)
next
  case (prewarm s dial now)
  then show ?case using prewarm_ok [OF _ prewarm(1)] by (simp add: pool_inv_def prewarm_one_fields)
next
  case (close s)
  then have "pool_ok (pool s) (handed s) (leaked s) (warmed s)" by (simp add: pool_inv_def)
  from pool_ok_Close(1,4) [OF this] close show ?case by (simp add: pool_inv_def)
qed

definition pool_init :: "int \<Rightarrow> nat \<Rightarrow> pstate \<Rightarrow> bool" where
  "pool_init sz hs s \<longleftrightarrow> newConnPool hs sz = Ok (pool s) \<and> handed s = [] \<and> leaked s = 0 \<and> warmed s = 0"

lemma newConnPool_Ok: "newConnPool hs sz = Ok p \<Longrightarrow> 0 < sz \<and> size p = sz \<and> created p = 0 \<and> hotQueue p = [] \<and> coldQueue p = []
   \<and> \<not> closed p \<and> (\<forall>c. isClosed p c) \<and> pool_ok p [] 0 0"
  by (auto simp: newConnPool_def Let_def pool_ok_defs isClosed_def split: if_splits)

interpretation cp: invariant_system "pool_init sz hs" pool_step "pool_inv sz" for sz hs
proof
  show "pool_inv sz s" if "pool_init sz hs s" for s
    using newConnPool_Ok [of hs sz "pool s"] that by (auto simp: pool_init_def pool_inv_def prewarmCount_def)
qed (rule pool_inv_step)

section \<open>Properties\<close>


definition sample_pool :: pstate where
  "sample_pool = \<lparr>pool = (case newConnPool 1 4 of Ok p \<Rightarrow> p), handed = [], leaked = 0, warmed = 0\<rparr>"

lemma sample_pool_init: "pool_init 4 1 sample_pool"
  by (simp add: pool_init_def sample_pool_def newConnPool_def)




section \<open>The leak\<close>

text \<open>
  A caller that closes its connection after a failed send and does not put it back
  (\<open>invoke\<close>), or puts the closed one back (\<open>sendHeartbeat\<close>), never lowers \<open>created\<close>.
\<close>

definition quiet_env :: get_env where
  "quiet_env = \<lparr>probes = \<lambda>_. (0, ReadTimeout), dials = \<lambda>_. (None, 0), meanwhile = \<lambda>_ p. p\<rparr>"

definition drained :: "pstate \<Rightarrow> bool" where
  "drained s \<longleftrightarrow> \<not> closed (pool s) \<and> hotQueue (pool s) = [] \<and> coldQueue (pool s) = [] \<and> handed s = [] \<and> warmed s = 0
     \<and> (\<forall>c. isClosed (pool s) c)"

lemma get_fast_creates:
  "hotQueue p = [] \<Longrightarrow> created p < size p \<Longrightarrow>
   get_fast quiet_env p =
     (Some (next_id p), markInUse (next_id p) ((fresh_conn 0 p)\<lparr>conns := conns p @ [next_id p], created := created p + 1\<rparr>))"
  by (simp add: get_fast_def quiet_env_def orelse_def try_hot_def try_create_def createNewConn_def newClientConn_None)

lemma leak_round:
  assumes r: "reach (pool_init sz hs) pool_step s" and d: "drained s" and c: "created (pool s) < sz"
  shows "\<exists>t. reach (pool_init sz hs) pool_step t \<and> drained t \<and> created (pool t) = created (pool s) + 1"
proof -
  let ?c = "next_id (pool s)"
  let ?p1 = "markInUse ?c ((fresh_conn 0 (pool s))\<lparr>conns := conns (pool s) @ [?c], created := created (pool s) + 1\<rparr>)"
  let ?s1 = "s\<lparr>pool := ?p1, handed := [?c]\<rparr>"
  let ?s2 = "?s1\<lparr>pool := conn_Close ?c ?p1\<rparr>"
  let ?s3 = "?s2\<lparr>handed := remove1 ?c (handed ?s2), leaked := leaked ?s2 + 1\<rparr>"
  have "size (pool s) = sz" using cp.reach_inv [OF r] by (simp add: pool_inv_def)
  with d c have g: "get_fast quiet_env (pool s) = (Some ?c, ?p1)" by (simp add: get_fast_creates drained_def)
  have "pool_step s ?s1"
    using pool_step.get [OF _ g] d by (simp add: drained_def hand_out_def)
  moreover have "pool_step ?s1 ?s2" using pool_step.close_conn [of ?c ?s1] by simp
  moreover have "pool_step ?s2 ?s3" by (rule pool_step.drop_conn) simp_all
  ultimately have "reach (pool_init sz hs) pool_step ?s3" using r by (meson reach_step)
  moreover have "drained ?s3" using d by (auto simp: drained_def)
  ultimately show ?thesis by (intro exI [of _ ?s3]) simp
qed

lemma leak_all:
  assumes "pool_init sz hs s0" "k \<le> nat sz"
  shows "\<exists>s. reach (pool_init sz hs) pool_step s \<and> drained s \<and> created (pool s) = int k"
  using assms(2)
proof (induction k)
  case 0
  have "drained s0" using assms(1) newConnPool_Ok [of hs sz "pool s0"] by (simp add: pool_init_def drained_def)
  moreover have "created (pool s0) = 0" using assms(1) newConnPool_Ok by (auto simp: pool_init_def)
  ultimately show ?case using reach_init [of "pool_init sz hs", OF assms(1)] by auto
next
  case (Suc k)
  then obtain s where "reach (pool_init sz hs) pool_step s" "drained s" "created (pool s) = int k" by auto
  with leak_round [of sz hs s] Suc.prems show ?case by (auto simp: add.commute)
qed

lemma get_wait_empty:
  "hotQueue p = [] \<Longrightarrow> \<forall>i. meanwhile env i = (\<lambda>p. p) \<Longrightarrow> get_wait env i n p = (None, p)"
  by (induction n arbitrary: i) (simp_all add: orelse_def try_hot_def)

lemma pool_get_exhausted:
  assumes "\<not> closed p" "hotQueue p = []" "coldQueue p = []" "created p \<ge> size p" "\<forall>i. meanwhile env i = (\<lambda>p. p)"
  shows "pool_get env p = (Inl ErrNoAvailableConn, p)"
  using assms get_wait_empty [of p env 0 5]
  by (simp add: pool_get_def get_fast_def orelse_def try_hot_def try_cold_def try_create_def)

lemma pool_init_exists:
  assumes "0 < sz"
  shows "\<exists>s. pool_init sz hs s"
proof -
  have "sz sdiv 2 \<le> sz" using assms by (simp add: signed_divide_int_def)
  with assms have "\<exists>p. newConnPool hs sz = Ok p" by (simp add: newConnPool_def Let_def)
  then obtain p where "newConnPool hs sz = Ok p" ..
  then have "pool_init sz hs \<lparr>pool = p, handed = [], leaked = 0, warmed = 0\<rparr>" by (simp add: pool_init_def)
  then show ?thesis by blast
qed



text \<open>An execution in which callers take connections and keep them.\<close>

definition holding :: "pstate \<Rightarrow> nat \<Rightarrow> bool" where
  "holding s k \<longleftrightarrow> \<not> closed (pool s) \<and> hotQueue (pool s) = [] \<and> warmed s = 0 \<and> created (pool s) = int k
     \<and> finite {c. \<not> isClosed (pool s) c} \<and> card {c. \<not> isClosed (pool s) c} = k"

lemma fresh_not_open:
  assumes "reach (pool_init sz hs) pool_step s"
  shows "isClosed (pool s) (next_id (pool s))"
  using cp.reach_inv [OF assms] by (simp add: pool_inv_def pool_ok_def place_ok_def)

lemma open_fresh:
  "{c. c = n \<or> \<not> isClosed p c} = insert n {c. \<not> isClosed p c}"
  by auto

lemma hold_all:
  assumes "pool_init sz hs s0" "k \<le> nat sz"
  shows "\<exists>s. reach (pool_init sz hs) pool_step s \<and> holding s k"
  using assms(2)
proof (induction k)
  case 0
  have "holding s0 0" using assms(1) newConnPool_Ok [of hs sz "pool s0"] by (simp add: pool_init_def holding_def)
  then show ?case using reach_init [of "pool_init sz hs", OF assms(1)] by auto
next
  case (Suc k)
  then obtain s where r: "reach (pool_init sz hs) pool_step s" and h: "holding s k" by auto
  let ?c = "next_id (pool s)"
  let ?p1 = "markInUse ?c ((fresh_conn 0 (pool s))\<lparr>conns := conns (pool s) @ [?c], created := created (pool s) + 1\<rparr>)"
  let ?s1 = "s\<lparr>pool := ?p1, handed := ?c # handed s\<rparr>"
  have "size (pool s) = sz" using cp.reach_inv [OF r] by (simp add: pool_inv_def)
  with h Suc.prems have g: "get_fast quiet_env (pool s) = (Some ?c, ?p1)" by (simp add: get_fast_creates holding_def)
  have "pool_step s ?s1" using pool_step.get [OF _ g] h by (simp add: holding_def hand_out_def)
  with r have "reach (pool_init sz hs) pool_step ?s1" by (rule reach_step)
  moreover have "holding ?s1 (Suc k)"
    using h fresh_not_open [OF r] by (auto simp: holding_def open_fresh imp_conv_disj)
  ultimately show ?case by blast
qed

text \<open>
  The configured size is not a bound: pre-warming does not check it, so for every
  size there is an execution in which the pool has one open connection more.
\<close>

theorem prewarm_exceeds_size:
  assumes "0 < sz"
  shows "\<exists>s. reach (pool_init sz hs) pool_step s \<and> created (pool s) = sz + 1
    \<and> card {c. \<not> isClosed (pool s) c} = nat sz + 1"
proof -
  obtain s0 where "pool_init sz hs s0" using pool_init_exists [OF assms] by blast
  from hold_all [OF this, of "nat sz"] assms obtain s where s: "reach (pool_init sz hs) pool_step s" "holding s (nat sz)"
    by auto
  let ?t = "s\<lparr>pool := prewarm_one None 0 (pool s), warmed := warmed s + 1\<rparr>"
  have "pool_step s ?t"
    using s(2) by (intro pool_step.prewarm) (auto simp: holding_def prewarmCount_def)
  with s(1) have "reach (pool_init sz hs) pool_step ?t" by (rule reach_step)
  then show ?thesis using s(2) assms fresh_not_open [OF s(1)]
    by (intro exI [of _ ?t]) (simp add: prewarm_one_def newClientConn_None holding_def open_fresh imp_conv_disj)
qed

theorem prewarm_exceeds_size_witness:
  "\<exists>s. reach (pool_init 1 0) pool_step s \<and> created (pool s) = 1 + 1 \<and> card {c. \<not> isClosed (pool s) c} = nat 1 + 1"
  by (rule prewarm_exceeds_size) simp

end
