(* ===== verification/Middleware.thy ===== *)
theory Middleware
  imports Prelude
begin

text \<open>
  The middleware chains of the client (\<^verbatim>\<open>client.go\<close>: \<open>chainClientMiddlewares\<close>,
  \<open>getChainInvoker\<close>) and of the server (\<^verbatim>\<open>server.go\<close>: \<open>chainServerMiddlewares\<close>,
  \<open>chainMiddlewares\<close>, \<open>getChainHandler\<close>).

  An invoker maps the arguments of a call to its effect, a middleware gets the arguments
  and the next invoker. Arguments and effects are type variables: the effect may be a
  result, a state transformer, or both, so the statements cover stateful middlewares. The
  server's chain passes its \<open>info\<close> along unchanged. \<open>None\<close> stands for a nil middleware. The
  test for the last position is written with \<open>\<ge>\<close>; positions past the end do not occur.
\<close>

type_synonym ('a, 'r) invoker = "'a \<Rightarrow> 'r"
type_synonym ('a, 'r) middleware = "'a \<Rightarrow> ('a, 'r) invoker \<Rightarrow> 'r"
type_synonym ('a, 'i, 'r) server_middleware = "'a \<Rightarrow> 'i \<Rightarrow> ('a, 'r) invoker \<Rightarrow> 'r"

section \<open>Client\<close>

function getChainInvoker :: "('a, 'r) middleware list \<Rightarrow> nat \<Rightarrow> ('a, 'r) invoker \<Rightarrow> ('a, 'r) invoker" where
  "getChainInvoker mws pos finalInvoker =
     (if pos + 1 \<ge> length mws then finalInvoker
      else (\<lambda>args. (mws ! (pos + 1)) args (getChainInvoker mws (pos + 1) finalInvoker)))"
  by pat_completeness auto
termination by (relation "measure (\<lambda>(mws, pos, _). length mws - pos)") auto

declare getChainInvoker.simps [simp del]

definition chainClientMiddlewares ::
  "('a, 'r) middleware option \<Rightarrow> ('a, 'r) middleware list \<Rightarrow> ('a, 'r) middleware option" where
  "chainClientMiddlewares clientMiddleware chain =
     (let mws = (case clientMiddleware of Some mw \<Rightarrow> mw # chain | None \<Rightarrow> chain) in
      if length mws = 0 then None
      else if length mws = 1 then Some (mws ! 0)
      else Some (\<lambda>args invoker. (mws ! 0) args (getChainInvoker mws 0 invoker)))"

text \<open>\<open>Client.Invoke\<close>: through the middleware if there is one.\<close>

definition Invoke_via :: "('a, 'r) middleware option \<Rightarrow> ('a, 'r) invoker \<Rightarrow> ('a, 'r) invoker" where
  "Invoke_via clientMiddleware invoke args =
     (case clientMiddleware of Some mw \<Rightarrow> mw args invoke | None \<Rightarrow> invoke args)"

section \<open>Server\<close>

function getChainHandler ::
  "('a, 'i, 'r) server_middleware list \<Rightarrow> nat \<Rightarrow> 'i \<Rightarrow> ('a, 'r) invoker \<Rightarrow> ('a, 'r) invoker" where
  "getChainHandler mws pos info finalHandler =
     (if pos + 1 \<ge> length mws then finalHandler
      else (\<lambda>req. (mws ! (pos + 1)) req info (getChainHandler mws (pos + 1) info finalHandler)))"
  by pat_completeness auto
termination by (relation "measure (\<lambda>(mws, pos, _). length mws - pos)") auto

declare getChainHandler.simps [simp del]

definition chainMiddlewares :: "('a, 'i, 'r) server_middleware list \<Rightarrow> ('a, 'i, 'r) server_middleware" where
  "chainMiddlewares mws = (\<lambda>req info handler. (mws ! 0) req info (getChainHandler mws 0 info handler))"

definition chainServerMiddlewares ::
  "('a, 'i, 'r) server_middleware option \<Rightarrow> ('a, 'i, 'r) server_middleware list \<Rightarrow> ('a, 'i, 'r) server_middleware option" where
  "chainServerMiddlewares srvMiddleware chain =
     (let mws = (case srvMiddleware of Some mw \<Rightarrow> mw # chain | None \<Rightarrow> chain) in
      if length mws = 0 then None
      else if length mws = 1 then Some (mws ! 0)
      else Some (chainMiddlewares mws))"

section \<open>Chains as folds\<close>

text \<open>The reference: each middleware wraps the composition of those after it.\<close>

definition wrap_all :: "('a, 'r) middleware list \<Rightarrow> ('a, 'r) invoker \<Rightarrow> ('a, 'r) invoker" where
  "wrap_all mws final = foldr (\<lambda>mw next args. mw args next) mws final"

lemma wrap_all_simps [simp]:
  "wrap_all [] final = final" "wrap_all (mw # mws) final = (\<lambda>args. mw args (wrap_all mws final))"
  by (simp_all add: wrap_all_def)

lemma getChainInvoker_wrap: "getChainInvoker mws pos final = wrap_all (drop (pos + 1) mws) final"
proof (induction mws pos final rule: getChainInvoker.induct)
  case (1 mws pos final)
  show ?case
  proof (cases "pos + 1 \<ge> length mws")
    case True
    then show ?thesis by (simp add: getChainInvoker.simps)
  next
    case False
    then have "drop (pos + 1) mws = mws ! (pos + 1) # drop (pos + 2) mws"
      using Cons_nth_drop_Suc [of "pos + 1" mws] by simp
    with 1 False show ?thesis by (subst getChainInvoker.simps) simp
  qed
qed

lemma getChainHandler_wrap:
  "getChainHandler mws pos info final = wrap_all (map (\<lambda>mw req. mw req info) (drop (pos + 1) mws)) final"
proof (induction mws pos info final rule: getChainHandler.induct)
  case (1 mws pos info final)
  show ?case
  proof (cases "pos + 1 \<ge> length mws")
    case True
    then show ?thesis by (simp add: getChainHandler.simps)
  next
    case False
    then have "drop (pos + 1) mws = mws ! (pos + 1) # drop (pos + 2) mws"
      using Cons_nth_drop_Suc [of "pos + 1" mws] by simp
    with 1 False show ?thesis by (subst getChainHandler.simps) simp
  qed
qed

definition prepend :: "'x option \<Rightarrow> 'x list \<Rightarrow> 'x list" where
  "prepend first rest = (case first of Some mw \<Rightarrow> mw # rest | None \<Rightarrow> rest)"

text \<open>
  \<^bold>\<open>C21\<close>. The client's chain built at dial time is the composition of its middlewares: a call
  runs the single middleware first, then the chained ones in the order given, and the
  real invoker last; each sees the rest of the chain as its invoker. With none
  configured, the call goes straight to the invoker.
\<close>

theorem client_chain_is_composition:
  "Invoke_via (chainClientMiddlewares single chain) invoke = wrap_all (prepend single chain) invoke"
proof
  fix args
  let ?mws = "prepend single chain"
  have c: "chainClientMiddlewares single chain =
      (if ?mws = [] then None else if length ?mws = 1 then Some (?mws ! 0)
       else Some (\<lambda>args invoker. (?mws ! 0) args (getChainInvoker ?mws 0 invoker)))"
    by (simp add: chainClientMiddlewares_def prepend_def Let_def)
  consider "?mws = []" | mw where "?mws = [mw]" | mw mw' rest where "?mws = mw # mw' # rest"
    by (metis list.exhaust)
  then show "Invoke_via (chainClientMiddlewares single chain) invoke args = wrap_all ?mws invoke args"
    by cases (simp_all add: c Invoke_via_def getChainInvoker_wrap)
qed

lemma server_chain:
  "(case chainServerMiddlewares single chain of
      None \<Rightarrow> prepend single chain = []
    | Some mw \<Rightarrow> prepend single chain \<noteq> []
        \<and> mw req info handler = wrap_all (map (\<lambda>mw req. mw req info) (prepend single chain)) handler req)"
proof -
  let ?mws = "prepend single chain"
  have c: "chainServerMiddlewares single chain =
      (if ?mws = [] then None else if length ?mws = 1 then Some (?mws ! 0) else Some (chainMiddlewares ?mws))"
    by (simp add: chainServerMiddlewares_def prepend_def Let_def)
  consider "?mws = []" | mw where "?mws = [mw]" | mw mw' rest where "?mws = mw # mw' # rest"
    by (metis list.exhaust)
  then show ?thesis
    by cases (simp_all add: c chainMiddlewares_def getChainHandler_wrap)
qed

lemma server_chain_Some:
  assumes "prepend single chain \<noteq> []"
  shows "\<exists>mw. chainServerMiddlewares single chain = Some mw
    \<and> (\<forall>req info h. mw req info h = wrap_all (map (\<lambda>m r. m r info) (prepend single chain)) h req)"
proof (cases "chainServerMiddlewares single chain")
  case None
  with assms server_chain [of single chain] show ?thesis by simp
next
  case (Some mw)
  with server_chain [of single chain] show ?thesis by simp
qed

lemma wrap_all_append: "wrap_all (xs @ ys) final = wrap_all xs (wrap_all ys final)"
  by (simp add: wrap_all_def)

text \<open>
  \<^bold>\<open>C22\<close>. The same for the server: with at least one middleware configured, a request runs
  through the single middleware and then the chained ones in order, each with the
  request's \<open>info\<close>, before its handler; with none, no middleware is installed.
\<close>

theorem server_chain_is_composition:
  "(case chainServerMiddlewares single chain of
      None \<Rightarrow> prepend single chain = []
    | Some mw \<Rightarrow> prepend single chain \<noteq> []
        \<and> mw req info handler = wrap_all (map (\<lambda>mw req. mw req info) (prepend single chain)) handler req)"
  by (rule server_chain)

end
