(* ===== verification/Codec.thy ===== *)
theory Codec
  imports Wire_Codec
begin

text \<open>
  The payload codec (\<^verbatim>\<open>codec/codec.go\<close>) over the protobuf library, which is a parameter: what
  counts as a message, its size, its encoding, and decoding into a message of the
  caller's type. \<open>proto_ok\<close> is what the library documents of a message: the encoding
  has the announced size, and decoding it gives the message back.

  A buffer of a slice is given by its contents; the recycled buffer that a large message
  is written into comes from \<open>pool_get\<close> with whatever it held.
\<close>

record 'v proto_lib =
  messageV2Of :: "'v \<Rightarrow> bool"
  proto_Size :: "'v \<Rightarrow> nat"
  MarshalAppend :: "'v \<Rightarrow> goerr + bytes"
  proto_Unmarshal :: "bytes \<Rightarrow> goerr + 'v"

definition proto_ok :: "'v proto_lib \<Rightarrow> 'v \<Rightarrow> bool" where
  "proto_ok lib v \<longleftrightarrow> messageV2Of lib v \<and>
     (\<exists>bs. MarshalAppend lib v = Inr bs \<and> length bs = proto_Size lib v \<and> proto_Unmarshal lib bs = Inr v)"

definition ErrInvalidProtoMessage :: goerr where
  "ErrInvalidProtoMessage = Errorf ''invalid proto message''"

definition bufferPoolingThreshold :: nat where
  "bufferPoolingThreshold = 1024"

definition IsLessBufferPoolThreshold :: "nat \<Rightarrow> bool" where
  "IsLessBufferPoolThreshold n \<longleftrightarrow> n \<le> bufferPoolingThreshold"

text \<open>
  \<open>append(buf[:0], bs...)\<close> into a buffer of fixed capacity: what the buffer shows
  afterwards. If the bytes do not fit, \<open>append\<close> moves to a new array and the buffer keeps
  its contents.
\<close>

definition append_into :: "bytes \<Rightarrow> bytes \<Rightarrow> bytes" where
  "append_into buf bs = (case put_at buf 0 bs of Some buf' \<Rightarrow> buf' | None \<Rightarrow> buf)"

definition Marshal :: "'v proto_lib \<Rightarrow> (nat \<Rightarrow> bytes) \<Rightarrow> 'v \<Rightarrow> goerr + bytes list" where
  "Marshal lib pool_get v =
     (if \<not> messageV2Of lib v then Inl ErrInvalidProtoMessage
      else
        (let size = proto_Size lib v in
         if IsLessBufferPoolThreshold size then
           (case MarshalAppend lib v of Inl e \<Rightarrow> Inl e | Inr buf \<Rightarrow> Inr [buf])
         else
           (let buf = pool_get size in
            case MarshalAppend lib v of Inl e \<Rightarrow> Inl e | Inr bs \<Rightarrow> Inr [append_into buf bs])))"

text \<open>\<open>BufferSlice.Len\<close>, \<open>Materialize\<close> and \<open>MaterializeToBuffer\<close> on contents.\<close>

definition slice_Len :: "bytes list \<Rightarrow> nat" where
  "slice_Len s = sum_list (map length s)"

fun CopyTo :: "bytes list \<Rightarrow> nat \<Rightarrow> bytes \<Rightarrow> bytes" where
  "CopyTo [] off dst = dst"
| "CopyTo (b # s) off dst =
     (let n = min (length b) (length dst - off) in
      CopyTo s (off + n) (take off dst @ take n b @ drop (off + n) dst))"

definition Materialize :: "bytes list \<Rightarrow> bytes" where
  "Materialize s = (let l = slice_Len s in if l = 0 then [] else CopyTo s 0 (replicate l 0))"

definition MaterializeToBuffer :: "(nat \<Rightarrow> bytes) \<Rightarrow> bytes list \<Rightarrow> bytes" where
  "MaterializeToBuffer pool_get s =
     (if length s = 1 then hd s
      else let sLen = slice_Len s in
        if sLen = 0 then [] else CopyTo s 0 (pool_get sLen))"

definition Unmarshal :: "'v proto_lib \<Rightarrow> (nat \<Rightarrow> bytes) \<Rightarrow> bytes list \<Rightarrow> 'v \<Rightarrow> goerr + 'v" where
  "Unmarshal lib pool_get data v =
     (if \<not> messageV2Of lib v then Inl ErrInvalidProtoMessage
      else proto_Unmarshal lib (MaterializeToBuffer pool_get data))"

section \<open>Properties\<close>

lemma CopyTo_fills:
  "off + slice_Len s = length dst \<Longrightarrow> CopyTo s off dst = take off dst @ concat s"
proof (induction s arbitrary: off dst)
  case Nil
  then show ?case by (simp add: slice_Len_def)
next
  case (Cons b s)
  then have len: "length dst = off + length b + slice_Len s" by (simp add: slice_Len_def)
  let ?dst = "take off dst @ b @ drop (off + length b) dst"
  have "CopyTo s (off + length b) ?dst = take (off + length b) ?dst @ concat s"
    using len by (intro Cons.IH) simp
  with len show ?case by simp
qed

lemma Materialize_concat: "Materialize s = concat s"
  using CopyTo_fills [of 0 s "replicate (slice_Len s) 0"]
  by (auto simp: Materialize_def Let_def slice_Len_def)

lemma MaterializeToBuffer_concat: "sized pool_get \<Longrightarrow> MaterializeToBuffer pool_get s = concat s"
proof (cases "length s = 1")
  case True
  then show ?thesis by (cases s) (auto simp: MaterializeToBuffer_def)
next
  case False
  moreover assume "sized pool_get"
  ultimately show ?thesis
    using CopyTo_fills [of 0 s "pool_get (slice_Len s)"]
    by (auto simp: MaterializeToBuffer_def Let_def sized_def slice_Len_def)
qed

lemma Marshal_bytes:
  assumes "sized pool_get" "messageV2Of lib v" "MarshalAppend lib v = Inr bs" "length bs = proto_Size lib v"
  shows "Marshal lib pool_get v = Inr [bs]"
proof -
  have "append_into (pool_get (length bs)) bs = bs"
    using assms(1) by (simp add: append_into_def put_at_def sized_def)
  with assms show ?thesis by (simp add: Marshal_def Let_def)
qed

lemma codec_bytes:
  assumes "sized pool_get" "proto_ok lib v"
  shows "\<exists>bs. Marshal lib pool_get v = Inr [bs] \<and> length bs = proto_Size lib v \<and> proto_Unmarshal lib bs = Inr v"
proof -
  obtain bs where bs: "messageV2Of lib v" "MarshalAppend lib v = Inr bs" "length bs = proto_Size lib v"
    "proto_Unmarshal lib bs = Inr v" using assms(2) by (auto simp: proto_ok_def)
  with Marshal_bytes [OF assms(1) bs(1-3)] show ?thesis by simp
qed

text \<open>
  \<^bold>\<open>C23\<close>. The codec on top of the protobuf library: a message that the library can encode
  marshals into one buffer holding exactly its encoding, whether it takes the small or
  the pooled path and whatever the pooled buffer held; however the bytes are then cut
  into buffers, unmarshalling them into any message gives the original back.
\<close>

theorem codec_roundtrip:
  assumes "sized pool_get" and "proto_ok lib v" and "messageV2Of lib v0"
  shows "\<exists>bs. Marshal lib pool_get v = Inr [bs] \<and> length bs = proto_Size lib v
    \<and> (\<forall>data. concat data = bs \<longrightarrow> Unmarshal lib pool_get data v0 = Inr v)"
  using codec_bytes [OF assms(1,2)] assms(1,3) by (auto simp: Unmarshal_def MaterializeToBuffer_concat)

text \<open>A library whose messages are byte strings.\<close>

definition raw_proto :: "bytes proto_lib" where
  "raw_proto = \<lparr>messageV2Of = \<lambda>_. True, proto_Size = length, MarshalAppend = Inr, proto_Unmarshal = Inr\<rparr>"

theorem codec_roundtrip_witness:
  "\<exists>bs. Marshal raw_proto (\<lambda>n. replicate n 3) (replicate 2000 1) = Inr [bs]
    \<and> length bs = proto_Size raw_proto (replicate 2000 1)
    \<and> (\<forall>data. concat data = bs \<longrightarrow> Unmarshal raw_proto (\<lambda>n. replicate n 3) data [] = Inr (replicate 2000 1))"
  by (rule codec_roundtrip) (simp_all add: sized_def proto_ok_def raw_proto_def)

end
