(* ===== verification/Client_Call.thy ===== *)
theory Client_Call
  imports ClientOption Wire_Safety ConnPool Middleware Codec
begin

text \<open>
  The client (\<^verbatim>\<open>client.go\<close>) and its calls (\<^verbatim>\<open>call.go\<close>).

  \<^item> \<open>Client\<close> has the fields of the Go struct: options, discovery, connection pools, pending
    calls, sequence counter, the two flags, and the state of the heartbeat ticker. Beside
    them it carries what the client has told its stats handlers (\<open>rpc_log\<close>) and the bytes
    that arrived on each connection and were not read yet (\<open>inbox\<close>).
  \<^item> \<open>attempt\<close> is what one round of the retry loop meets outside the client: the answers
    of the discovery's services, of dialling and of health checks, the clock, the error of
    the write, the bytes the peer sends back, and whether the context is done.
  \<^item> A read that fails for another reason than the end of the stream (a deadline) fails
    like an ended stream: the code treats all read errors alike.
  \<^item> A request or reply is a value of type \<open>'v\<close>, \<open>None\<close> being the nil interface; the protobuf
    library, the gzip library, the buffer pool and \<open>TagRPC\<close> of a stats handler are
    parameters. The nil map that \<open>Close\<close> leaves in \<open>pending\<close> reads as an empty one; the only
    write is guarded by \<open>closing\<close>.

  One operation runs at a time. \<open>client_step\<close> interleaves the operations of any number of
  callers, a call being split where it waits for the network.
\<close>

section \<open>Data\<close>

definition ErrInvalidArgument :: goerr where
  "ErrInvalidArgument = Errorf ''zrpc: invalid argument''"

definition ErrMaxRetryExceeded :: goerr where
  "ErrMaxRetryExceeded = Errorf ''zrpc: max retry exceeded''"

definition UserAgentHeader :: string where "UserAgentHeader = ''user-agent''"
definition UserAgent :: string where "UserAgent = ''zrpc/1.2.9''"
definition ServiceError :: string where "ServiceError = ''__zrpc_error__''"

text \<open>
  A context: the metadata slots, the deadline, and the response metadata slot
  (\<open>responseKey\<close>).
\<close>

record ctx = Context +
  deadline :: "time option"
  response_md :: "MD option"

text \<open>\<open>Call_Done\<close> is the number of notifications in the channel of capacity one; \<open>None\<close> is nil.\<close>

record 'v Call =
  Call_ServiceName :: string
  Call_ServiceMethod :: string
  Call_req :: "'v option"
  Call_Err :: "goerr option"
  Call_Seq :: uint64
  Call_Done :: "nat option"

definition zero_Call :: "'v Call" where
  "zero_Call = \<lparr>Call_ServiceName = [], Call_ServiceMethod = [], Call_req = None, Call_Err = None,
     Call_Seq = 0, Call_Done = None\<rparr>"

definition Call_done :: "'v Call \<Rightarrow> 'v Call" where
  "Call_done call = (case Call_Done call of
     Some n \<Rightarrow> if n < 1 then call\<lparr>Call_Done := Some (n + 1)\<rparr> else call | None \<Rightarrow> call)"

datatype 'v rpc_event =
    Begin
  | End "goerr option"
  | OutHeader "MD option" string nat string
  | OutPayload "'v option" bytes nat int nat
  | InPayload 'v bytes nat nat nat
  | InHeader "MD option" string nat string
  | InTrailer "MD option" nat
  | OutTrailer "MD option" nat

datatype discovery_impl =
    Memory MultiServerRegistry
  | ViaRegistry RegistryDiscovery
  | ViaEtcd EtcdDiscovery

record disc_env =
  de_json :: json_lib
  de_net :: net
  de_rnd :: "nat \<Rightarrow> nat"
  de_now :: time
  de_now' :: time
  de_endpoint :: "bytes \<Rightarrow> string option"
  de_fetch :: "string \<Rightarrow> goerr + bytes list"

text \<open>The calls through the \<open>Discovery\<close> interface.\<close>

fun Discovery_Get :: "disc_env \<Rightarrow> SelectMode \<Rightarrow> discovery_impl \<Rightarrow> (goerr + string) \<times> discovery_impl" where
  "Discovery_Get env mode (Memory d) = map_prod id Memory (MultiServerRegistry_Get (de_rnd env) mode d)"
| "Discovery_Get env mode (ViaRegistry d) = map_prod id ViaRegistry
     (RegistryDiscovery_Get (de_json env) (de_net env) (de_rnd env) (de_now env) (de_now' env) mode d)"
| "Discovery_Get env mode (ViaEtcd d) = map_prod id ViaEtcd
     (EtcdDiscovery_Get (de_endpoint env) (de_fetch env) (de_rnd env) (de_now env) (de_now' env) mode d)"

fun Discovery_Update :: "string list \<Rightarrow> discovery_impl \<Rightarrow> discovery_impl" where
  "Discovery_Update ss (Memory d) = Memory (MultiServerRegistry_Update ss d)"
| "Discovery_Update ss (ViaRegistry d) = ViaRegistry (RegistryDiscovery_Update ss d)"
| "Discovery_Update ss (ViaEtcd d) = ViaEtcd (EtcdDiscovery_Update ss d)"

text \<open>\<open>heartbeat\<close>: no ticker, or a ticker and whether \<open>heartbeatDone\<close> is closed.\<close>

record ('v, 'm, 'h) Client =
  opt :: "('m, 'h) clientOption"
  disc :: discovery_impl
  pools :: "(string \<times> connPool) list"
  pending :: "(uint64 \<times> 'v Call) list"
  sequence :: uint64
  closing :: bool
  shutdown :: bool
  heartbeat :: "bool option"
  rpc_log :: "'v rpc_event list"
  inbox :: "string \<times> nat \<Rightarrow> bytes"

definition notify :: "'v rpc_event \<Rightarrow> ('v, 'm, 'h) Client \<Rightarrow> ('v, 'm, 'h) Client" where
  "notify e c = c\<lparr>rpc_log := rpc_log c @ replicate (length (co_statsHandlers (opt c))) e\<rparr>"

section \<open>Creating a client\<close>

text \<open>The slices \<open>target[:12]\<close> and \<open>target[:8]\<close> are prefix tests.\<close>

definition parserTarget ::
  "disc_env \<Rightarrow> time \<Rightarrow> goerr option \<Rightarrow> ('m, 'h) clientOption \<Rightarrow> string \<Rightarrow> goerr + discovery_impl" where
  "parserTarget env zero dial o1 target =
     (if length target > 0 then
        if target = ''registry''
        then Inl (Errorf ''registry target must be in format registry:///serviceName'')
        else if length target \<ge> 12 \<and> take 12 target = ''registry:///'' then
          (let serviceName = drop 12 target in
           if serviceName = [] then Inl (Errorf ''service name cannot be empty in registry:/// target'')
           else if co_registryAddr o1 = []
           then Inl (Errorf ''registry address not specified, use WithRegistryAddress option'')
           else Inr (ViaRegistry (NewRegistryDiscovery (de_json env) (de_net env) zero (de_now env) serviceName)))
        else if length target \<ge> 8 \<and> take 8 target = ''etcd:///'' then
          (let serviceName = drop 8 target in
           if serviceName = [] then Inl (Errorf ''service name cannot be empty in etcd:/// target'')
           else if length (etcdEndpoints o1) = 0
           then Inl (Errorf ''etcd endpoints not specified, use WithEtcdEndpoints option'')
           else case NewDiscovery (de_endpoint env) (de_fetch env) dial zero (de_now env) serviceName of
                  Inl e \<Rightarrow> Inl (Wrap ''failed to create etcd discovery'' e)
                | Inr d \<Rightarrow> Inr (ViaEtcd d))
        else Inr (Memory (NewMultiServerRegistry (de_rnd env) [target]))
      else Inl (Errorf ''target is required''))"

definition startHeartbeat :: "('v, 'm, 'h) Client \<Rightarrow> ('v, 'm, 'h) Client" where
  "startHeartbeat c = c\<lparr>heartbeat := Some False\<rparr>"

definition NewClient ::
  "disc_env \<Rightarrow> time \<Rightarrow> goerr option \<Rightarrow> string \<Rightarrow> (('a, 'r) middleware, 'h) ClientOption list
   \<Rightarrow> ('v, ('a, 'r) middleware, 'h) Client outcome" where
  "NewClient env zero dial target opts =
     (case apply_options opts defaultClientOption of
        Fail e \<Rightarrow> Fail e | Panic \<Rightarrow> Panic
      | Ok o1 \<Rightarrow>
          (case parserTarget env zero dial o1 target of
             Inl e \<Rightarrow> Fail e
           | Inr d \<Rightarrow>
               (let o2 = o1\<lparr>clientMiddleware := chainClientMiddlewares (clientMiddleware o1) (co_chainMiddlewares o1)\<rparr>;
                    c = \<lparr>opt = o2, disc = d, pools = [], pending = [], sequence = 0, closing = False,
                         shutdown = False, heartbeat = None, rpc_log = [], inbox = (\<lambda>_. [])\<rparr>
                in Ok (if co_heartbeatInterval o2 > 0 then startHeartbeat c else c))))"

section \<open>A call\<close>

definition newCall :: "string \<Rightarrow> 'v option \<Rightarrow> goerr + 'v Call" where
  "newCall method args =
     (let method = (if method \<noteq> [] \<and> method ! 0 = CHR ''/'' then drop 1 method else method) in
      case LastIndex method (CHR ''/'') of
        None \<Rightarrow> Inl (Errorf ''invalid method name syntax'')
      | Some pos \<Rightarrow>
          Inr (zero_Call\<lparr>Call_ServiceName := take pos method, Call_ServiceMethod := drop (pos + 1) method,
                 Call_req := args, Call_Done := Some 0\<rparr>))"

text \<open>The codec on an interface value: a nil request is not a message.\<close>

definition Marshal_any :: "'v proto_lib \<Rightarrow> (nat \<Rightarrow> bytes) \<Rightarrow> 'v option \<Rightarrow> goerr + bytes list" where
  "Marshal_any lib bufs v = (case v of None \<Rightarrow> Inl ErrInvalidProtoMessage | Some x \<Rightarrow> Marshal lib bufs x)"

definition request_md :: "'c Context_scheme \<Rightarrow> MD outcome" where
  "request_md cx =
     (let md = New [(UserAgentHeader, UserAgent)] in
      case FromOutgoingContext cx of
        Ok (Some userMD) \<Rightarrow> Ok (Join [userMD, md])
      | Ok None \<Rightarrow> Ok md
      | Fail e \<Rightarrow> Fail e | Panic \<Rightarrow> Panic)"

definition add_timeout :: "time \<Rightarrow> time option \<Rightarrow> MD \<Rightarrow> MD" where
  "add_timeout now dl md =
     (case dl of
        Some d \<Rightarrow>
          (let timeout = min MaxInt64 (d - now) in
           if timeout > 0 then MD_Set md TimeoutHeader [EncodeTimeout timeout] else md)
      | None \<Rightarrow> md)"

definition prepareMessage ::
  "'v proto_lib \<Rightarrow> (nat \<Rightarrow> bytes) \<Rightarrow> time \<Rightarrow> ctx \<Rightarrow> 'v Call \<Rightarrow> Message outcome" where
  "prepareMessage lib bufs now cx call =
     (let req = NewMessage\<lparr>Hdr := SetMessageType (Hdr NewMessage) Request,
            ServiceName := Call_ServiceName call, ServiceMethod := Call_ServiceMethod call\<rparr> in
      case Marshal_any lib bufs (Call_req call) of
        Inl e \<Rightarrow> Fail e
      | Inr payload \<Rightarrow>
          (let req = req\<lparr>Payload := Materialize payload\<rparr>;
               req = (if length (Payload req) > 1024 then req\<lparr>Hdr := SetCompressType (Hdr req) Gzip\<rparr> else req)
           in case request_md cx of
                Ok md \<Rightarrow> Ok (req\<lparr>Metadata := Some (add_timeout now (deadline cx) md)\<rparr>)
              | Fail e \<Rightarrow> Fail e | Panic \<Rightarrow> Panic))"

section \<open>Sending\<close>

definition compression_name :: "byte \<Rightarrow> string" where
  "compression_name ct = (if ct = None_compress then [] else if ct = Gzip then ''gzip'' else ''unknown'')"

text \<open>
  The length that the stats handlers are told for the payload on the wire, from the sizes
  of the other parts of the frame.
\<close>

definition compressed_length :: "Message \<Rightarrow> nat \<Rightarrow> int" where
  "compressed_length req wireLength =
     (if GetCompressType (Hdr req) \<noteq> None_compress then
        (let metaSize = (if length (entries req) > 0 then meta_len (entries req) else 0);
             serviceNameSize = 4 + length (ServiceName req);
             serviceMethodSize = 4 + length (ServiceMethod req)
         in int wireLength - 11 - 4 - int serviceNameSize - int serviceMethodSize - (4 + int metaSize) - 4)
      else int (length (Payload req)))"

text \<open>The error of a write: a \<open>net.OpError\<close> with its inner error, or any other.\<close>

datatype write_error = NetOpError "goerr option" | PlainError goerr

fun write_err :: "write_error \<Rightarrow> goerr" where
  "write_err (NetOpError (Some e)) = Errorf (''net.OpError: '' @ Error_text e)"
| "write_err (NetOpError None) = Errorf ''net.OpError''"
| "write_err (PlainError e) = e"

text \<open>What the network does with one frame: the error of the write, or the bytes that come back.\<close>

type_synonym peer = "bytes \<Rightarrow> write_error + bytes"

definition transmit ::
  "peer \<Rightarrow> string \<times> nat \<Rightarrow> 'v Call \<Rightarrow> Message \<Rightarrow> bytes \<Rightarrow> ('v, 'm, 'h) Client \<Rightarrow> goerr option \<times> ('v, 'm, 'h) Client" where
  "transmit peer conn call req msgBuffer c =
     (let c = notify (OutHeader (Metadata req) (compression_name (GetCompressType (Hdr req))) 11
                 (''/'' @ ServiceName req @ ''/'' @ ServiceMethod req)) c
      in case peer msgBuffer of
           Inl e \<Rightarrow> (Some (write_err e), c\<lparr>pending := AList.delete (Call_Seq call) (pending c)\<rparr>)
         | Inr back \<Rightarrow>
             (None, notify (OutPayload (Call_req call) (Payload req) (length (Payload req))
                       (compressed_length req (length msgBuffer)) (length msgBuffer))
                     (c\<lparr>inbox := (inbox c)(conn := inbox c conn @ back)\<rparr>)))"

definition sendMsg ::
  "'v proto_lib \<Rightarrow> gzip_lib \<Rightarrow> (nat \<Rightarrow> bytes) \<Rightarrow> time \<Rightarrow> peer \<Rightarrow> ctx \<Rightarrow> string \<times> nat \<Rightarrow> 'v Call
   \<Rightarrow> ('v, 'm, 'h) Client \<Rightarrow> unit outcome \<times> ('v, 'm, 'h) Client" where
  "sendMsg lib gz bufs now peer cx conn call c =
     (case prepareMessage lib bufs now cx call of
        Fail e \<Rightarrow> (Fail e, c) | Panic \<Rightarrow> (Panic, c)
      | Ok req \<Rightarrow>
          if closing c \<or> shutdown c then (Fail ErrClientConnClosing, c)
          else
            (let isHeartBeat = (ServiceName req = [] \<and> ServiceMethod req = []);
                 req = (if isHeartBeat then req\<lparr>Hdr := SetHeartBeat (Hdr req) True\<rparr> else req);
                 sq = sequence c + 1;
                 req = req\<lparr>Hdr := SetSeq (Hdr req) sq\<rparr>;
                 call = call\<lparr>Call_Seq := sq\<rparr>;
                 c = c\<lparr>sequence := sq, pending := AList.update sq call (pending c)\<rparr>
             in case Encode gz bufs req of
                  None \<Rightarrow> (Panic, c)
                | Some (req, msgBuffer) \<Rightarrow>
                    (case transmit peer conn call req msgBuffer c of
                       (None, c) \<Rightarrow> (Ok (), c)
                     | (Some e, c) \<Rightarrow> (Fail e, c))))"

section \<open>Receiving\<close>

text \<open>The response metadata goes into a context that ends with \<open>recvMsg\<close>; it is returned here.\<close>

definition in_payload_len :: "gzip_lib \<Rightarrow> Message \<Rightarrow> nat" where
  "in_payload_len gz res =
     (let uncompressedLen = length (Payload res) in
      if GetCompressType (Hdr res) \<noteq> None_compress then
        (case Compressors gz (GetCompressType (Hdr res)) of
           Some (Zip, Unzip) \<Rightarrow>
             (case Zip (Payload res) of Inr compressed \<Rightarrow> length compressed | Inl _ \<Rightarrow> uncompressedLen)
         | None \<Rightarrow> uncompressedLen)
      else uncompressedLen)"

text \<open>The checks on a response whose sequence number is pending, and its reply.\<close>

definition read_reply ::
  "'v proto_lib \<Rightarrow> gzip_lib \<Rightarrow> (nat \<Rightarrow> bytes) \<Rightarrow> 'v \<Rightarrow> Message \<Rightarrow> ('v, 'm, 'h) Client \<Rightarrow> (goerr + 'v) \<times> ('v, 'm, 'h) Client" where
  "read_reply lib gz bufs v0 res c =
     (if GetMessageType (Hdr res) \<noteq> Response \<or> \<not> CheckMagicNumber (Hdr res)
      then (Inl (Errorf ''invalid response message''), c)
      else if GetMessageStatusType (Hdr res) = Error_status then
        (if Metadata res \<noteq> None \<and> length (md_index (entries res) ServiceError) > 0
         then (Inl (Errorf (md_index (entries res) ServiceError ! 0)), c)
         else (Inl (Errorf ''server error''), c))
      else case Unmarshal lib bufs [Payload res] v0 of
             Inl e \<Rightarrow> (Inl e, c)
           | Inr v \<Rightarrow>
               (let compressedLen = in_payload_len gz res in
                (Inr v, notify (InPayload v (Payload res) (length (Payload res)) compressedLen (compressedLen + 11)) c)))"

definition recvMsg ::
  "'v proto_lib \<Rightarrow> gzip_lib \<Rightarrow> (nat \<Rightarrow> bytes) \<Rightarrow> string \<times> nat \<Rightarrow> 'v \<Rightarrow> ('v, 'm, 'h) Client
   \<Rightarrow> (goerr + 'v) \<times> ('v, 'm, 'h) Client" where
  "recvMsg lib gz bufs conn v0 c =
     (case Decode gz (co_maxReceiveMessageSize (opt c)) (inbox c conn) NewMessage of
        (r, res, rest) \<Rightarrow>
          (let c = c\<lparr>inbox := (inbox c)(conn := rest)\<rparr> in
           case r of
             Some e \<Rightarrow> (Inl (Wrap ''failed to decode response'' e), c)
           | None \<Rightarrow>
               (let sq = GetSeq (Hdr res) in
                case map_of (pending c) sq of
                  None \<Rightarrow> (Inl (Errorf (''missing sequence '' @ FormatInt (unat sq)
                                 @ '' in client, response mismatch'')), c)
                | Some call \<Rightarrow>
                    if Call_Seq call \<noteq> sq
                    then (Inl (Errorf (''sequence mismatch: expected '' @ FormatInt (unat (Call_Seq call))
                                 @ '', got '' @ FormatInt (unat sq))), c)
                    else read_reply lib gz bufs v0 res (c\<lparr>pending := AList.delete sq (pending c)\<rparr>))))"

definition cleanupCall :: "'v Call option \<Rightarrow> ('v, 'm, 'h) Client \<Rightarrow> ('v, 'm, 'h) Client" where
  "cleanupCall call c = (case call of
     None \<Rightarrow> c
   | Some cl \<Rightarrow> if Call_Seq cl = 0 then c else c\<lparr>pending := AList.delete (Call_Seq cl) (pending c)\<rparr>)"

section \<open>The retry loop\<close>

record attempt =
  ctx_done :: "goerr option" \<comment> \<open>\<open>ctx.Err()\<close> when the context is done at the head of the round\<close>
  wait_done :: "goerr option" \<comment> \<open>\<open>ctx.Err()\<close> when it is done before the backoff timer fires\<close>
  at_disc :: disc_env
  at_get :: get_env
  at_now :: time
  at_peer :: peer
  at_put :: "time \<times> time"

text \<open>\<open>c.opt.retryBackoff * time.Duration(1<<uint(retry-1))\<close> in 64 bits, then capped.\<close>

definition backoff :: "('m, 'h) clientOption \<Rightarrow> nat \<Rightarrow> duration" where
  "backoff o1 retry =
     (let b = wrap64 (retryBackoff o1 * wrap64 (2 ^ (retry - 1))) in
      if b > maxRetryBackoff o1 then maxRetryBackoff o1 else b)"

text \<open>Whether the context ends the call before the round: its error.\<close>

definition ctx_stops :: "('m, 'h) clientOption \<Rightarrow> attempt \<Rightarrow> nat \<Rightarrow> goerr option" where
  "ctx_stops o1 a retry =
     (if retry > 0 then
        (case ctx_done a of
           Some e \<Rightarrow> Some e
         | None \<Rightarrow> if retry > 1 \<and> retryBackoff o1 > 0 then wait_done a else None)
      else None)"

text \<open>The pool of a target, made on first use.\<close>

definition pool_for :: "string \<Rightarrow> ('v, 'm, 'h) Client \<Rightarrow> (connPool \<times> ('v, 'm, 'h) Client) outcome" where
  "pool_for target c =
     (case map_of (pools c) target of
        Some p \<Rightarrow> Ok (p, c)
      | None \<Rightarrow>
          (case newConnPool (length (co_statsHandlers (opt c))) (maxPoolSize (opt c)) of
             Ok p \<Rightarrow> Ok (p, c\<lparr>pools := AList.update target p (pools c),
                             inbox := (\<lambda>(t, i). if t = target then [] else inbox c (t, i))\<rparr>)
           | Fail e \<Rightarrow> Fail e | Panic \<Rightarrow> Panic))"

definition set_pool :: "string \<Rightarrow> connPool \<Rightarrow> ('v, 'm, 'h) Client \<Rightarrow> ('v, 'm, 'h) Client" where
  "set_pool target p c = c\<lparr>pools := AList.update target p (pools c)\<rparr>"

definition give_back ::
  "time \<times> time \<Rightarrow> string \<times> nat \<Rightarrow> connPool \<Rightarrow> 'x outcome \<Rightarrow> ('v, 'm, 'h) Client \<Rightarrow> 'x outcome \<times> ('v, 'm, 'h) Client" where
  "give_back ts conn p r c =
     (case pool_put (fst ts) (snd ts) (snd conn) p of
        Ok p \<Rightarrow> (r, set_pool (fst conn) p c)
      | _ \<Rightarrow> (Panic, c))"

text \<open>
  One round after the \<open>Begin\<close> event: \<open>Ok (Inl e)\<close> goes on with the next round (\<open>continue\<close>
  with \<open>lastErr = e\<close>), \<open>Ok (Inr v)\<close> and \<open>Fail\<close> return.
\<close>

definition exchange ::
  "'v proto_lib \<Rightarrow> gzip_lib \<Rightarrow> (nat \<Rightarrow> bytes) \<Rightarrow> attempt \<Rightarrow> ctx \<Rightarrow> string \<times> nat \<Rightarrow> connPool \<Rightarrow> 'v Call \<Rightarrow> 'v
   \<Rightarrow> ('v, 'm, 'h) Client \<Rightarrow> (goerr + 'v) outcome \<times> ('v, 'm, 'h) Client" where
  "exchange lib gz bufs a cx conn p call v0 c =
     (case sendMsg lib gz bufs (at_now a) (at_peer a) cx conn call c of
        (Panic, c) \<Rightarrow> (Panic, c)
      | (Fail e, c) \<Rightarrow> (Ok (Inl e), notify (End (Some e)) (set_pool (fst conn) (conn_Close (snd conn) p) c))
      | (Ok _, c) \<Rightarrow>
          (case recvMsg lib gz bufs conn v0 c of (r, c) \<Rightarrow>
             (case give_back (at_put a) conn p (Ok r) c of
                (Ok (Inl e), c) \<Rightarrow> (Ok (Inl e), notify (End (Some e)) c)
              | (Ok (Inr v), c) \<Rightarrow> (Ok (Inr v), notify (End None) c)
              | (Fail e, c) \<Rightarrow> (Fail e, c) | (Panic, c) \<Rightarrow> (Panic, c))))"

definition attempt_round ::
  "'v proto_lib \<Rightarrow> gzip_lib \<Rightarrow> (nat \<Rightarrow> bytes) \<Rightarrow> attempt \<Rightarrow> ctx \<Rightarrow> string \<Rightarrow> 'v \<Rightarrow> 'v
   \<Rightarrow> ('v, 'm, 'h) Client \<Rightarrow> (goerr + 'v) outcome \<times> ('v, 'm, 'h) Client" where
  "attempt_round lib gz bufs a cx method args v0 c =
     (case Discovery_Get (at_disc a) (balancerMode (opt c)) (disc c) of
        (Inl e, d) \<Rightarrow> (Ok (Inl e), notify (End (Some e)) (c\<lparr>disc := d\<rparr>))
      | (Inr target, d) \<Rightarrow>
          (case pool_for target (c\<lparr>disc := d\<rparr>) of
             Fail e \<Rightarrow> (Fail e, c\<lparr>disc := d\<rparr>) | Panic \<Rightarrow> (Panic, c\<lparr>disc := d\<rparr>)
           | Ok (p, c) \<Rightarrow>
               (case pool_get (at_get a) p of
                  (Inl e, p) \<Rightarrow> (Ok (Inl e), set_pool target p c)
                | (Inr conn, p) \<Rightarrow>
                    (let c = set_pool target p c in
                     case newCall method (Some args) of
                       Inl e \<Rightarrow> give_back (at_put a) (target, conn) p (Fail e) (notify (End (Some e)) c)
                     | Inr call \<Rightarrow>
                         if closing c \<or> shutdown c
                         then give_back (at_put a) (target, conn) p (Fail ErrClientConnClosing)
                                (notify (End (Some ErrClientConnClosing)) c)
                         else exchange lib gz bufs a cx (target, conn) p call v0 c))))"

text \<open>Rounds \<open>retry, retry + 1, \<dots>\<close>, \<open>n\<close> of them at most; \<open>atts i\<close> is what round \<open>i\<close> meets.\<close>

fun retry_loop ::
  "'v proto_lib \<Rightarrow> gzip_lib \<Rightarrow> (nat \<Rightarrow> bytes) \<Rightarrow> (nat \<Rightarrow> attempt) \<Rightarrow> ctx \<Rightarrow> string \<Rightarrow> 'v \<Rightarrow> 'v \<Rightarrow> nat \<Rightarrow> nat
   \<Rightarrow> goerr option \<Rightarrow> ('v, 'm, 'h) Client \<Rightarrow> 'v outcome \<times> ('v, 'm, 'h) Client" where
  "retry_loop lib gz bufs atts cx method args v0 retry 0 lastErr c =
     (Fail (case lastErr of Some e \<Rightarrow> e | None \<Rightarrow> ErrMaxRetryExceeded), c)"
| "retry_loop lib gz bufs atts cx method args v0 retry (Suc n) lastErr c =
     (case ctx_stops (opt c) (atts retry) retry of
        Some e \<Rightarrow> (Fail e, c)
      | None \<Rightarrow>
          (case attempt_round lib gz bufs (atts retry) cx method args v0 (notify Begin c) of
             (Ok (Inl e), c) \<Rightarrow> retry_loop lib gz bufs atts cx method args v0 (Suc retry) n (Some e) c
           | (Ok (Inr v), c) \<Rightarrow> (Ok v, c)
           | (Fail e, c) \<Rightarrow> (Fail e, c)
           | (Panic, c) \<Rightarrow> (Panic, c)))"

definition full_method :: "string \<Rightarrow> string" where
  "full_method method = (if \<not> HasPrefix method ''/'' then ''/'' @ method else method)"

definition invoke ::
  "'v proto_lib \<Rightarrow> gzip_lib \<Rightarrow> (nat \<Rightarrow> bytes) \<Rightarrow> ('h \<Rightarrow> string \<Rightarrow> ctx \<Rightarrow> ctx) \<Rightarrow> (nat \<Rightarrow> attempt)
   \<Rightarrow> ctx \<Rightarrow> string \<Rightarrow> 'v option \<Rightarrow> 'v option \<Rightarrow> ('v, 'm, 'h) Client \<Rightarrow> 'v outcome \<times> ('v, 'm, 'h) Client" where
  "invoke lib gz bufs tagRPC atts cx method args v0 c =
     (case (args, v0) of
        (Some x, Some r) \<Rightarrow>
          (let cx = fold (\<lambda>sh. tagRPC sh (full_method method)) (co_statsHandlers (opt c)) cx in
           retry_loop lib gz bufs atts cx method x r 0 (nat (maxRetries (opt c) + 1)) None c)
      | _ \<Rightarrow> (Fail ErrInvalidArgument, c))"

section \<open>Other operations of the client\<close>

text \<open>\<open>time.Now\<close> of the health check is part of its probe.\<close>

definition sendHeartbeat ::
  "'v proto_lib \<Rightarrow> gzip_lib \<Rightarrow> (nat \<Rightarrow> bytes) \<Rightarrow> attempt \<Rightarrow> probe \<Rightarrow> ('v, 'm, 'h) Client \<Rightarrow> unit outcome \<times> ('v, 'm, 'h) Client" where
  "sendHeartbeat lib gz bufs a pr c =
     (case Discovery_Get (at_disc a) RandomSelect (disc c) of
        (Inl e, d) \<Rightarrow> (Ok (), c\<lparr>disc := d\<rparr>)
      | (Inr target, d) \<Rightarrow>
          (case pool_for target (c\<lparr>disc := d\<rparr>) of
             Fail e \<Rightarrow> (Fail e, c\<lparr>disc := d\<rparr>) | Panic \<Rightarrow> (Panic, c\<lparr>disc := d\<rparr>)
           | Ok (p, c) \<Rightarrow>
               (case pool_get (at_get a) p of
                  (Inl e, p) \<Rightarrow> (Ok (), set_pool target p c)
                | (Inr conn, p) \<Rightarrow>
                    if \<not> isHealthy pr p conn
                    then give_back (at_put a) (target, conn) (conn_Close conn p) (Ok ()) c
                    else
                      (let cx = \<lparr>out_md = None, in_md = None,
                                 deadline = Some (at_now a + heartbeatTimeout (opt c)), response_md = None\<rparr> in
                       case sendMsg lib gz bufs (at_now a) (at_peer a) cx (target, conn) zero_Call (set_pool target p c) of
                         (Panic, c) \<Rightarrow> (Panic, c)
                       | (Fail e, c) \<Rightarrow> give_back (at_put a) (target, conn) (conn_Close conn p) (Ok ()) c
                       | (Ok _, c) \<Rightarrow> give_back (at_put a) (target, conn) p (Ok ()) c))))"

text \<open>
  The calls that \<open>Close\<close> ends are returned with their error and notification.
\<close>

definition end_call :: "'v Call \<Rightarrow> 'v Call" where
  "end_call call = Call_done (call\<lparr>Call_Err := Some ErrClientConnClosing\<rparr>)"

definition Client_Close :: "('v, 'm, 'h) Client \<Rightarrow> 'v Call list \<times> ('v, 'm, 'h) Client" where
  "Client_Close c =
     (if closing c then ([], c)
      else (map (end_call \<circ> snd) (pending c),
            c\<lparr>closing := True, shutdown := True, heartbeat := map_option (\<lambda>_. True) (heartbeat c),
              pools := map (\<lambda>(t, p). (t, pool_Close p)) (pools c), pending := []\<rparr>))"

definition GetMeta :: "ctx \<Rightarrow> MD option" where
  "GetMeta cx = response_md cx"

text \<open>\<open>Update\<close> of every discovery returns nil. A removed pool is closed; it is returned here.\<close>

definition UpdateServers :: "string list \<Rightarrow> ('v, 'm, 'h) Client \<Rightarrow> connPool list \<times> ('v, 'm, 'h) Client" where
  "UpdateServers ss c =
     (map (pool_Close \<circ> snd) (filter (\<lambda>(a, p). a \<notin> set ss) (pools c)),
      c\<lparr>disc := Discovery_Update ss (disc c), pools := filter (\<lambda>(a, p). a \<in> set ss) (pools c)\<rparr>)"

end
