(* ===== verification/Client_Props.thy ===== *)
theory Client_Props
  imports Client_Call
begin

text \<open>
  Properties of the client: what \<open>sendMsg\<close> writes and reports, which reply \<open>recvMsg\<close>
  accepts, the bound on the retry loop, the pending table as an invariant over any
  interleaving of callers, the effect of \<open>Close\<close>, and the heartbeat.
\<close>

section \<open>Field equations\<close>

lemma notify_fields [simp]:
  "opt (notify e c) = opt c" "disc (notify e c) = disc c" "pools (notify e c) = pools c"
  "pending (notify e c) = pending c" "sequence (notify e c) = sequence c"
  "closing (notify e c) = closing c" "shutdown (notify e c) = shutdown c"
  "heartbeat (notify e c) = heartbeat c" "inbox (notify e c) = inbox c"
  "rpc_log (notify e c) = rpc_log c @ replicate (length (co_statsHandlers (opt c))) e"
  by (simp_all add: notify_def)

lemma set_pool_fields [simp]:
  "opt (set_pool t p c) = opt c" "disc (set_pool t p c) = disc c" "pending (set_pool t p c) = pending c"
  "sequence (set_pool t p c) = sequence c" "closing (set_pool t p c) = closing c"
  "shutdown (set_pool t p c) = shutdown c" "heartbeat (set_pool t p c) = heartbeat c"
  "inbox (set_pool t p c) = inbox c" "rpc_log (set_pool t p c) = rpc_log c"
  by (simp_all add: set_pool_def)

lemma pool_for_fields:
  assumes "pool_for t c = Ok (p, c')"
  shows "opt c' = opt c" "disc c' = disc c" "pending c' = pending c" "sequence c' = sequence c"
    "closing c' = closing c" "shutdown c' = shutdown c" "rpc_log c' = rpc_log c" "heartbeat c' = heartbeat c"
  using assms by (auto simp: pool_for_def split: option.splits outcome.splits)

text \<open>What every operation of a call leaves alone.\<close>

definition same_client :: "('v, 'm, 'h) Client \<Rightarrow> ('v, 'm, 'h) Client \<Rightarrow> bool" where
  "same_client c c' \<longleftrightarrow> opt c' = opt c \<and> closing c' = closing c \<and> shutdown c' = shutdown c \<and> heartbeat c' = heartbeat c"

lemma same_client_refl [simp]: "same_client c c"
  by (simp add: same_client_def)

lemma transmit_same: "transmit peer conn call req buf c = (r, c') \<Longrightarrow> same_client c c'"
  by (auto simp: transmit_def same_client_def Let_def split: sum.splits)

lemma sendMsg_same:
  assumes "sendMsg lib gz bufs now peer cx conn call c = (r, c')"
  shows "same_client c c'"
proof (cases "prepareMessage lib bufs now cx call")
  case (Ok req)
  show ?thesis
  proof (cases "closing c \<or> shutdown c")
    case True
    with Ok assms show ?thesis by (auto simp: sendMsg_def)
  next
    case False
    with Ok assms show ?thesis
      by (auto simp: sendMsg_def Let_def split: option.splits prod.splits
            dest!: transmit_same) (auto simp: same_client_def)
  qed
qed (use assms in \<open>auto simp: sendMsg_def\<close>)

lemma read_reply_same: "read_reply lib gz bufs v0 res c = (r, c') \<Longrightarrow> same_client c c' \<and> pending c' = pending c"
  by (auto simp: read_reply_def same_client_def Let_def split: if_splits sum.splits)

lemma recvMsg_cases:
  assumes "recvMsg lib gz bufs conn v0 c = (r, c')"
  obtains e rest where "r = Inl e" "c' = c\<lparr>inbox := (inbox c)(conn := rest)\<rparr>"
  | res rest call where
      "Decode gz (co_maxReceiveMessageSize (opt c)) (inbox c conn) NewMessage = (None, res, rest)"
      "map_of (pending c) (GetSeq (Hdr res)) = Some call" "Call_Seq call = GetSeq (Hdr res)"
      "read_reply lib gz bufs v0 res (c\<lparr>inbox := (inbox c)(conn := rest),
         pending := AList.delete (GetSeq (Hdr res)) (pending c)\<rparr>) = (r, c')"
proof -
  obtain e res rest where d: "Decode gz (co_maxReceiveMessageSize (opt c)) (inbox c conn) NewMessage = (e, res, rest)"
    by (cases "Decode gz (co_maxReceiveMessageSize (opt c)) (inbox c conn) NewMessage")
  show ?thesis
  proof (cases e)
    case (Some x)
    with assms d that(1) show ?thesis by (auto simp: recvMsg_def)
  next
    case None
    show ?thesis
    proof (cases "map_of (pending c) (GetSeq (Hdr res))")
      case n: None
      with assms d None that(1) show ?thesis by (auto simp: recvMsg_def Let_def)
    next
      case (Some call)
      with assms d None that(1) that(2) [of res rest call] show ?thesis
        by (cases "Call_Seq call = GetSeq (Hdr res)") (auto simp: recvMsg_def Let_def)
    qed
  qed
qed

lemma recvMsg_same:
  assumes "recvMsg lib gz bufs conn v0 c = (r, c')"
  shows "same_client c c'"
  using assms
proof (cases rule: recvMsg_cases)
  case (1 e rest)
  then show ?thesis by (simp add: same_client_def)
next
  case (2 res rest call)
  from read_reply_same [OF 2(4)] show ?thesis by (simp add: same_client_def)
qed

section \<open>The pending table\<close>

text \<open>
  Any number of callers: a step is one operation of one of them. A call of \<open>invoke\<close> is a
  send followed later by a receive.
\<close>

inductive client_step :: "('v, 'm, 'h) Client \<Rightarrow> ('v, 'm, 'h) Client \<Rightarrow> bool" where
  send: "sendMsg lib gz bufs now peer cx conn call c = (r, c') \<Longrightarrow> client_step c c'"
| recv: "recvMsg lib gz bufs conn v0 c = (r, c') \<Longrightarrow> client_step c c'"
| arrive: "client_step c (c\<lparr>inbox := i\<rparr>)"
| use_pool: "client_step c (set_pool t p c)"
| cleanup: "client_step c (cleanupCall call c)"
| update: "client_step c (snd (UpdateServers ss c))"
| close: "client_step c (snd (Client_Close c))"

definition client_init :: "('v, 'm, 'h) Client \<Rightarrow> bool" where
  "client_init c \<longleftrightarrow> pending c = [] \<and> closing c = shutdown c"

definition client_inv :: "('v, 'm, 'h) Client \<Rightarrow> bool" where
  "client_inv c \<longleftrightarrow> distinct (map fst (pending c)) \<and> (\<forall>(k, call) \<in> set (pending c). Call_Seq call = k)
     \<and> closing c = shutdown c \<and> (closing c \<longrightarrow> pending c = [])"

lemma set_update_alist: "set (AList.update k v al) \<subseteq> insert (k, v) (set al)"
  by (induction al) auto

lemma client_inv_delete:
  "client_inv c \<Longrightarrow> client_inv (c\<lparr>pending := AList.delete k (pending c)\<rparr>)"
  by (auto simp: client_inv_def AList.delete_eq distinct_map_filter)

lemma client_inv_insert:
  "client_inv c \<Longrightarrow> \<not> closing c \<Longrightarrow>
   client_inv (c\<lparr>sequence := k, pending := AList.update k (call\<lparr>Call_Seq := k\<rparr>) (pending c)\<rparr>)"
  using set_update_alist [of k "call\<lparr>Call_Seq := k\<rparr>" "pending c"]
  by (fastforce simp: client_inv_def distinct_update)

lemma client_inv_cong:
  "client_inv c \<Longrightarrow> pending c' = pending c \<Longrightarrow> closing c' = closing c \<Longrightarrow> shutdown c' = shutdown c \<Longrightarrow> client_inv c'"
  by (simp add: client_inv_def)

lemma transmit_inv:
  assumes "transmit peer conn call req buf c = (r, c')" "client_inv c"
  shows "client_inv c'"
proof (cases "peer buf")
  case (Inl e)
  with assms(1) have "pending c' = pending (c\<lparr>pending := AList.delete (Call_Seq call) (pending c)\<rparr>)"
    "closing c' = closing c" "shutdown c' = shutdown c" by (auto simp: transmit_def Let_def)
  with client_inv_delete [OF assms(2), of "Call_Seq call"] show ?thesis by (auto intro: client_inv_cong)
next
  case (Inr bs)
  with assms show ?thesis by (auto simp: transmit_def Let_def intro: client_inv_cong)
qed

lemma sendMsg_inv:
  assumes "sendMsg lib gz bufs now peer cx conn call c = (r, c')" "client_inv c"
  shows "client_inv c'"
proof (cases "prepareMessage lib bufs now cx call")
  case (Ok req)
  show ?thesis
  proof (cases "closing c \<or> shutdown c")
    case True
    with Ok assms show ?thesis by (auto simp: sendMsg_def)
  next
    case False
    define c1 where "c1 = c\<lparr>sequence := sequence c + 1,
      pending := AList.update (sequence c + 1) (call\<lparr>Call_Seq := sequence c + 1\<rparr>) (pending c)\<rparr>"
    have "client_inv c1" unfolding c1_def using assms(2) False by (intro client_inv_insert) auto
    with Ok False assms(1) show ?thesis
      by (auto simp: sendMsg_def Let_def c1_def [symmetric] split: option.splits prod.splits
            dest: transmit_inv)
  qed
qed (use assms in \<open>auto simp: sendMsg_def\<close>)

lemma recvMsg_inv:
  assumes "recvMsg lib gz bufs conn v0 c = (r, c')" "client_inv c"
  shows "client_inv c'"
  using assms(1)
proof (cases rule: recvMsg_cases)
  case (1 e rest)
  with assms(2) show ?thesis by (auto intro: client_inv_cong)
next
  case (2 res rest call)
  from read_reply_same [OF 2(4)] client_inv_delete [OF assms(2), of "GetSeq (Hdr res)"]
  show ?thesis by (auto simp: same_client_def intro: client_inv_cong)
qed

interpretation cl: invariant_system client_init client_step client_inv
proof
  fix c :: "('v, 'm, 'h) Client"
  assume "client_init c"
  then show "client_inv c" by (simp add: client_init_def client_inv_def)
next
  fix c c' :: "('v, 'm, 'h) Client"
  assume "client_step c c'" "client_inv c"
  then show "client_inv c'"
  proof (cases rule: client_step.cases)
    case (cleanup call)
    with \<open>client_inv c\<close> show ?thesis by (auto simp: cleanupCall_def client_inv_delete split: option.split)
  next
    case close
    with \<open>client_inv c\<close> show ?thesis by (auto simp: Client_Close_def client_inv_def)
  qed (auto dest: sendMsg_inv recvMsg_inv simp: UpdateServers_def intro: client_inv_cong)
qed

section \<open>What is sent\<close>

definition stamped :: "uint64 \<Rightarrow> Message \<Rightarrow> Message" where
  "stamped sq req =
     (let req = (if ServiceName req = [] \<and> ServiceMethod req = [] then req\<lparr>Hdr := SetHeartBeat (Hdr req) True\<rparr> else req)
      in req\<lparr>Hdr := SetSeq (Hdr req) sq\<rparr>)"

lemma stamped_fields [simp]:
  "ServiceName (stamped sq req) = ServiceName req" "ServiceMethod (stamped sq req) = ServiceMethod req"
  "Metadata (stamped sq req) = Metadata req" "Payload (stamped sq req) = Payload req"
  "entries (stamped sq req) = entries req"
  by (simp_all add: stamped_def Let_def entries_def)

lemma stamped_ok: "header_ok (Hdr req) \<Longrightarrow> header_ok (Hdr (stamped sq req))"
  by (simp add: stamped_def Let_def)

lemma prepareMessage_fields:
  assumes "prepareMessage lib bufs now cx call = Ok req"
  shows "header_ok (Hdr req)" "ServiceName req = Call_ServiceName call" "ServiceMethod req = Call_ServiceMethod call"
  using assms
  by (auto simp: prepareMessage_def Let_def NewMessage_def split: sum.splits outcome.splits if_splits)

lemma choose_payload_None:
  "choose_payload gz m = (m', p) \<Longrightarrow> GetCompressType (Hdr m') = None_compress \<Longrightarrow> p = Payload m"
  by (auto simp: choose_payload_def Let_def split: if_splits option.splits sum.splits)

text \<open>The arithmetic on the sizes of the parts gives the length of the payload in the frame.\<close>

lemma compressed_length_layout:
  assumes "choose_payload gz m = (m', p)" "header_ok (Hdr m)"
  shows "compressed_length m' (length (layout m' p)) = int (length p)"
proof (cases "GetCompressType (Hdr m') = None_compress")
  case True
  with assms choose_payload_None choose_payload_fields(4) show ?thesis
    by (fastforce simp: compressed_length_def)
next
  case False
  have "length (Hdr m') = 11" using choose_payload_header_ok [OF assms] by (simp add: header_ok_def)
  with False show ?thesis
    by (simp add: compressed_length_def Let_def layout_def length_data_bytes)
qed

lemma sendMsg_ok:
  assumes "sized bufs" "prepareMessage lib bufs now cx call = Ok req" "\<not> closing c" "\<not> shutdown c"
    and ch: "choose_payload gz (stamped (sequence c + 1) req) = (req', p)" and pr: "peer (layout req' p) = Inr bs"
  shows "sendMsg lib gz bufs now peer cx conn call c =
    (Ok (), c\<lparr>sequence := sequence c + 1,
       pending := AList.update (sequence c + 1) (call\<lparr>Call_Seq := sequence c + 1\<rparr>) (pending c),
       inbox := (inbox c)(conn := inbox c conn @ bs),
       rpc_log := rpc_log c
         @ replicate (length (co_statsHandlers (opt c))) (OutHeader (Metadata req)
             (compression_name (GetCompressType (Hdr req'))) 11 (''/'' @ ServiceName req @ ''/'' @ ServiceMethod req))
         @ replicate (length (co_statsHandlers (opt c))) (OutPayload (Call_req call) (Payload req)
             (length (Payload req)) (int (length p)) (length (layout req' p)))\<rparr>)"
proof -
  have h: "header_ok (Hdr (stamped (sequence c + 1) req))"
    using prepareMessage_fields(1) [OF assms(2)] by (rule stamped_ok)
  note e = Encode_layout [OF assms(1) h ch]
  note f = choose_payload_fields [OF ch]
  note l = compressed_length_layout [OF ch h]
  have "transmit peer conn (call\<lparr>Call_Seq := sequence c + 1\<rparr>) req' (layout req' p) c1 =
    (None, notify (OutPayload (Call_req call) (Payload req) (length (Payload req)) (int (length p)) (length (layout req' p)))
       ((notify (OutHeader (Metadata req) (compression_name (GetCompressType (Hdr req'))) 11
           (''/'' @ ServiceName req @ ''/'' @ ServiceMethod req)) c1)
          \<lparr>inbox := (inbox c1)(conn := inbox c1 conn @ bs)\<rparr>))" for c1 :: "('a, 'b, 'c) Client"
    using f l pr by (simp add: transmit_def Let_def)
  with assms(2-4) e show ?thesis
    unfolding sendMsg_def by (simp add: stamped_def Let_def notify_def)
qed

section \<open>What is received\<close>

lemma compress_other_fields:
  assumes "header_ok h" "is_bit ct"
  shows "GetSeq (SetCompressType h ct) = GetSeq h" "GetMessageType (SetCompressType h ct) = GetMessageType h"
    "GetMessageStatusType (SetCompressType h ct) = GetMessageStatusType h"
  using arg_cong [OF view_SetCompressType [OF assms], of f_seq]
    arg_cong [OF view_SetCompressType [OF assms], of f_type]
    arg_cong [OF view_SetCompressType [OF assms], of f_status]
  by (simp_all add: header_view_def)

lemma recvMsg_ok:
  assumes s: "sendable gz bufs (co_maxReceiveMessageSize (opt c)) m"
    and i: "inbox c conn = frame_of gz bufs m @ rest"
    and pend: "map_of (pending c) (GetSeq (Hdr m)) = Some call" "Call_Seq call = GetSeq (Hdr m)"
    and t: "GetMessageType (Hdr m) = Response" "GetMessageStatusType (Hdr m) = Normal"
    and u: "Unmarshal lib bufs [Payload m] v0 = Inr v"
  shows "\<exists>n. recvMsg lib gz bufs conn v0 c =
    (Inr v, c\<lparr>inbox := (inbox c)(conn := rest), pending := AList.delete (GetSeq (Hdr m)) (pending c),
       rpc_log := rpc_log c @ replicate (length (co_statsHandlers (opt c)))
         (InPayload v (Payload m) (length (Payload m)) n (n + 11))\<rparr>)"
proof -
  from wire.dec_enc [OF s, of rest] i obtain ct where ct: "is_bit ct"
    and d: "Decode gz (co_maxReceiveMessageSize (opt c)) (inbox c conn) NewMessage =
      (None, m\<lparr>Hdr := SetCompressType (Hdr m) ct, Metadata := Some (entries m)\<rparr>, rest)"
    by (auto simp: received_as_def)
  have h: "header_ok (Hdr m)" "CheckMagicNumber (Hdr m)" using s by (simp_all add: sendable_def wire_ok_def)
  note f = compress_other_fields [OF h(1) ct]
  have "Normal \<noteq> Error_status" by (simp add: Normal_def Error_status_def)
  with d f h(2) pend t u show ?thesis
    by (simp add: recvMsg_def read_reply_def Let_def notify_def) (rule exI, simp)
qed

section \<open>Rounds\<close>

text \<open>Begin and End events among those the handlers saw.\<close>

definition begins :: "'v rpc_event list \<Rightarrow> nat" where
  "begins es = length (filter (\<lambda>e. case e of Begin \<Rightarrow> True | _ \<Rightarrow> False) es)"

definition ends :: "'v rpc_event list \<Rightarrow> nat" where
  "ends es = length (filter (\<lambda>e. case e of End _ \<Rightarrow> True | _ \<Rightarrow> False) es)"

lemma event_counts [simp]:
  "begins [] = 0" "ends [] = 0" "begins (xs @ ys) = begins xs + begins ys" "ends (xs @ ys) = ends xs + ends ys"
  "begins (replicate n Begin) = n" "ends (replicate n Begin) = 0"
  "begins (replicate n (End x)) = 0" "ends (replicate n (End x)) = n"
  "begins (replicate n (OutHeader a b d f)) = 0" "ends (replicate n (OutHeader a b d f)) = 0"
  "begins (replicate n (OutPayload q r s t u)) = 0" "ends (replicate n (OutPayload q r s t u)) = 0"
  "begins (replicate n (InPayload v w x' y z)) = 0" "ends (replicate n (InPayload v w x' y z)) = 0"
  by (simp_all add: begins_def ends_def filter_replicate)

definition same_counts :: "('v, 'm, 'h) Client \<Rightarrow> ('v, 'm, 'h) Client \<Rightarrow> bool" where
  "same_counts c c' \<longleftrightarrow> same_client c c' \<and> begins (rpc_log c') = begins (rpc_log c) \<and> ends (rpc_log c') = ends (rpc_log c)"

lemma same_counts_trans: "same_counts a b \<Longrightarrow> same_counts b c \<Longrightarrow> same_counts a c"
  by (simp add: same_counts_def same_client_def)

lemma transmit_counts: "transmit peer conn call req buf c = (r, c') \<Longrightarrow> same_counts c c'"
  by (auto simp: transmit_def same_counts_def same_client_def Let_def split: sum.splits)

lemma sendMsg_counts:
  assumes "sendMsg lib gz bufs now peer cx conn call c = (r, c')"
  shows "same_counts c c'"
proof (cases "prepareMessage lib bufs now cx call")
  case (Ok req)
  show ?thesis
  proof (cases "closing c \<or> shutdown c")
    case True
    with Ok assms show ?thesis by (auto simp: sendMsg_def same_counts_def)
  next
    case False
    define c1 where "c1 = c\<lparr>sequence := sequence c + 1,
      pending := AList.update (sequence c + 1) (call\<lparr>Call_Seq := sequence c + 1\<rparr>) (pending c)\<rparr>"
    have c1: "same_counts c c1" by (simp add: c1_def same_counts_def same_client_def)
    from Ok False assms have "c' = c1 \<or> (\<exists>req buf r. transmit peer conn (call\<lparr>Call_Seq := sequence c + 1\<rparr>) req buf c1 = (r, c'))"
      by (auto simp: sendMsg_def Let_def c1_def [symmetric] split: option.splits prod.splits)
    with c1 transmit_counts same_counts_trans show ?thesis by blast
  qed
qed (use assms in \<open>auto simp: sendMsg_def same_counts_def\<close>)

lemma recvMsg_counts:
  assumes "recvMsg lib gz bufs conn v0 c = (r, c')"
  shows "same_counts c c'"
  using assms
proof (cases rule: recvMsg_cases)
  case (1 e rest)
  then show ?thesis by (simp add: same_counts_def same_client_def)
next
  case (2 res rest call)
  then show ?thesis
    by (auto simp: read_reply_def same_counts_def same_client_def Let_def split: if_splits sum.splits)
qed

text \<open>\<open>ended n c c'\<close>: the same client, \<open>n\<close> End events later.\<close>

definition ended :: "nat \<Rightarrow> ('v, 'm, 'h) Client \<Rightarrow> ('v, 'm, 'h) Client \<Rightarrow> bool" where
  "ended n c c' \<longleftrightarrow> same_client c c' \<and> begins (rpc_log c') = begins (rpc_log c) \<and> ends (rpc_log c') = ends (rpc_log c) + n"

lemma give_back_log:
  "give_back ts conn p r c = (r', c') \<Longrightarrow> same_counts c c' \<and> (r' = r \<or> r' = Panic)"
  by (auto simp: give_back_def same_counts_def same_client_def split: outcome.splits)

lemma exchange_ended:
  assumes "exchange lib gz bufs a cx conn p call v0 c = (r, c')" "r \<noteq> Panic"
  shows "ended (length (co_statsHandlers (opt c))) c c'" "\<exists>x. r = Ok x"
proof -
  obtain r1 c1 where s: "sendMsg lib gz bufs (at_now a) (at_peer a) cx conn call c = (r1, c1)" by fastforce
  note c1 = sendMsg_counts [OF s]
  have "ended (length (co_statsHandlers (opt c))) c c' \<and> (\<exists>x. r = Ok x)"
  proof (cases r1)
    case (Ok u)
    obtain r2 c2 where v: "recvMsg lib gz bufs conn v0 c1 = (r2, c2)" by fastforce
    obtain r3 c3 where g: "give_back (at_put a) conn p (Ok r2) c2 = (r3, c3)" by fastforce
    from c1 recvMsg_counts [OF v] give_back_log [OF g] have c3: "same_counts c c3" and "r3 = Ok r2 \<or> r3 = Panic"
      by (auto intro: same_counts_trans)
    with assms s v g Ok show ?thesis
      by (cases r2) (auto simp: exchange_def ended_def same_counts_def same_client_def)
  next
    case (Fail e)
    with assms s c1 show ?thesis
      by (auto simp: exchange_def ended_def same_counts_def same_client_def)
  next
    case Panic
    with assms s show ?thesis by (simp add: exchange_def)
  qed
  then show "ended (length (co_statsHandlers (opt c))) c c'" "\<exists>x. r = Ok x" by simp_all
qed

text \<open>Whether the round gets a target but no connection to it.\<close>

definition get_fails :: "attempt \<Rightarrow> ('v, 'm, 'h) Client \<Rightarrow> bool" where
  "get_fails a c =
     (case Discovery_Get (at_disc a) (balancerMode (opt c)) (disc c) of
        (Inr target, d) \<Rightarrow>
          (case pool_for target (c\<lparr>disc := d\<rparr>) of
             Ok (p, _) \<Rightarrow> (case pool_get (at_get a) p of (Inl _, _) \<Rightarrow> True | _ \<Rightarrow> False)
           | _ \<Rightarrow> False)
      | _ \<Rightarrow> False)"

lemma pool_for_never_fails: "pool_for t c \<noteq> Fail e"
  by (auto simp: pool_for_def newConnPool_def Let_def split: option.splits)

text \<open>The ways a round goes.\<close>

lemma attempt_round_cases:
  assumes "attempt_round lib gz bufs a cx method args v0 c = (r, c')" "r \<noteq> Panic"
  obtains (no_server) e d where "\<not> get_fails a c" "r = Ok (Inl e)" "c' = notify (End (Some e)) (c\<lparr>disc := d\<rparr>)"
  | (no_conn) e t p c1 where "get_fails a c" "same_counts c c1" "r = Ok (Inl e)" "c' = set_pool t p c1"
  | (refused) e conn p c1 where "\<not> get_fails a c" "same_counts c c1"
      "give_back (at_put a) conn p (Fail e) (notify (End (Some e)) c1) = (r, c')"
  | (sent) conn p call c1 where "\<not> get_fails a c" "same_counts c c1" "\<not> closing c" "\<not> shutdown c"
      "exchange lib gz bufs a cx conn p call v0 c1 = (r, c')"
proof -
  obtain t d where g: "Discovery_Get (at_disc a) (balancerMode (opt c)) (disc c) = (t, d)" by fastforce
  show thesis
  proof (cases t)
    case (Inl e)
    with g assms no_server show ?thesis by (auto simp: attempt_round_def get_fails_def)
  next
    case (Inr target)
    with g assms have "pool_for target (c\<lparr>disc := d\<rparr>) \<noteq> Panic" by (auto simp: attempt_round_def)
    then obtain p c1 where pf: "pool_for target (c\<lparr>disc := d\<rparr>) = Ok (p, c1)"
      using pool_for_never_fails by (cases "pool_for target (c\<lparr>disc := d\<rparr>)") auto
    note f = pool_for_fields [OF pf]
    obtain k p1 where pg: "pool_get (at_get a) p = (k, p1)" by fastforce
    let ?c = "set_pool target p1 c1"
    have sc: "same_counts c c1" "same_counts c ?c" using f by (simp_all add: same_counts_def same_client_def)
    note eqs = g Inr pf pg
    show ?thesis
    proof (cases k)
      case k: (Inl e)
      with eqs assms sc no_conn show ?thesis by (auto simp: attempt_round_def get_fails_def)
    next
      case k: (Inr conn)
      have nf: "\<not> get_fails a c" using eqs k by (simp add: get_fails_def)
      show ?thesis
      proof (cases "newCall method (Some args)")
        case (Inl e)
        with eqs k assms nf sc refused show ?thesis by (auto simp: attempt_round_def)
      next
        case (Inr call)
        with eqs k assms nf sc f refused sent show ?thesis
          by (cases "closing c \<or> shutdown c") (auto simp: attempt_round_def)
      qed
    qed
  qed
qed

lemma attempt_round_ended:
  assumes "attempt_round lib gz bufs a cx method args v0 c = (r, c')" "r \<noteq> Panic"
  shows "ended (if get_fails a c then 0 else length (co_statsHandlers (opt c))) c c'"
  using assms
proof (cases rule: attempt_round_cases)
  case (refused e conn p c1)
  with give_back_log [OF refused(3)] show ?thesis by (auto simp: ended_def same_counts_def same_client_def)
next
  case (sent conn p call c1)
  with exchange_ended(1) [OF sent(5) assms(2)] show ?thesis by (auto simp: ended_def same_counts_def same_client_def)
qed (auto simp: ended_def same_counts_def same_client_def)

lemma attempt_round_closed:
  assumes "attempt_round lib gz bufs a cx method args v0 c = (r, c')" "closing c \<or> shutdown c"
  shows "r \<noteq> Ok (Inr v)"
proof
  assume r: "r = Ok (Inr v)"
  then have "r \<noteq> Panic" by simp
  from assms(1) this show False
  proof (cases rule: attempt_round_cases)
    case (refused e conn p c1)
    with give_back_log [OF refused(3)] r show ?thesis by simp
  qed (use r assms(2) in auto)
qed

text \<open>What \<open>n\<close> rounds at most do to the events; flags and options of the client stay.\<close>

lemma retry_loop_effect:
  assumes "retry_loop lib gz bufs atts cx method args v0 retry n lastErr c = (r, c')" "r \<noteq> Panic"
  shows "same_client c c'"
    and "begins (rpc_log c') \<le> begins (rpc_log c) + n * length (co_statsHandlers (opt c))"
    and "ends (rpc_log c') + begins (rpc_log c) \<le> begins (rpc_log c') + ends (rpc_log c)"
proof -
  let ?h = "length (co_statsHandlers (opt c))"
  have "same_client c c' \<and> begins (rpc_log c') \<le> begins (rpc_log c) + n * ?h
    \<and> ends (rpc_log c') + begins (rpc_log c) \<le> begins (rpc_log c') + ends (rpc_log c)"
    using assms
  proof (induction n arbitrary: retry lastErr c)
    case 0
    then show ?case by simp
  next
    case (Suc n)
    show ?case
    proof (cases "ctx_stops (opt c) (atts retry) retry")
      case (Some e)
      with Suc.prems show ?thesis by simp
    next
      case None
      obtain r1 c1 where a: "attempt_round lib gz bufs (atts retry) cx method args v0 (notify Begin c) = (r1, c1)" by fastforce
      with None Suc.prems have np: "r1 \<noteq> Panic" by auto
      from attempt_round_ended [OF a np]
      have e: "same_client c c1" "begins (rpc_log c1) = begins (rpc_log c) + length (co_statsHandlers (opt c))"
        "ends (rpc_log c1) \<le> ends (rpc_log c) + length (co_statsHandlers (opt c))"
        by (auto simp: ended_def same_client_def split: if_splits)
      show ?thesis
      proof (cases "\<exists>x. r1 = Ok (Inl x)")
        case True
        then obtain x where x: "r1 = Ok (Inl x)" by blast
        with a None Suc.prems(1) have "retry_loop lib gz bufs atts cx method args v0 (Suc retry) n (Some x) c1 = (r, c')" by simp
        from Suc.IH [OF this Suc.prems(2)] e show ?thesis by (auto simp: same_client_def)
      next
        case False
        with a None np Suc.prems(1) have "c' = c1" by (auto split: outcome.splits sum.splits)
        with e show ?thesis by auto
      qed
    qed
  qed
  then show "same_client c c'" "begins (rpc_log c') \<le> begins (rpc_log c) + n * ?h"
    "ends (rpc_log c') + begins (rpc_log c) \<le> begins (rpc_log c') + ends (rpc_log c)" by simp_all
qed

lemma retry_loop_closed:
  "closing c \<or> shutdown c \<Longrightarrow> fst (retry_loop lib gz bufs atts cx method args v0 retry n lastErr c) \<noteq> Ok v"
proof (induction n arbitrary: retry lastErr c)
  case 0
  then show ?case by simp
next
  case (Suc n)
  obtain r1 c1 where a: "attempt_round lib gz bufs (atts retry) cx method args v0 (notify Begin c) = (r1, c1)" by fastforce
  from attempt_round_closed [OF a] Suc.prems have nr: "r1 \<noteq> Ok (Inr w)" for w by simp
  show ?case
  proof (cases "\<exists>x. r1 = Ok (Inl x)")
    case True
    then obtain x where x: "r1 = Ok (Inl x)" by blast
    with attempt_round_ended [OF a] Suc.prems have "closing c1 \<or> shutdown c1" by (auto simp: ended_def same_client_def)
    from Suc.IH [OF this] a x show ?thesis by (auto split: option.split)
  next
    case False
    with a nr show ?thesis by (auto split: option.split outcome.split sum.split)
  qed
qed

section \<open>Properties\<close>

definition sample_client :: "(bytes, unit, unit) Client" where
  "sample_client = \<lparr>opt = defaultClientOption\<lparr>co_statsHandlers := [()]\<rparr>,
     disc = Memory \<lparr>ms_servers = [''h:1''], ms_idx = 0\<rparr>, pools = [], pending = [], sequence = 0,
     closing = False, shutdown = False, heartbeat = None, rpc_log = [], inbox = (\<lambda>_. [])\<rparr>"

definition sample_ctx :: ctx where
  "sample_ctx = \<lparr>out_md = None, in_md = None, deadline = None, response_md = None\<rparr>"

definition sample_call :: "bytes Call" where
  "sample_call = zero_Call\<lparr>Call_ServiceName := ''s'', Call_ServiceMethod := ''m'', Call_req := Some [1, 2]\<rparr>"

definition zeros :: "nat \<Rightarrow> bytes" where
  "zeros n = replicate n 0"

lemma sized_zeros: "sized zeros"
  by (simp add: sized_def zeros_def)

text \<open>
  \<^bold>\<open>C25\<close>. Whatever the interleaving of any number of callers, each pending call is stored
  under its own sequence number, at most one per number (so the \<^verbatim>\<open>sequence mismatch\<close> error
  of \<open>recvMsg\<close> cannot occur), and a closed client has no pending calls.
\<close>

theorem pending_invariant:
  assumes "reach client_init client_step c"
  shows "distinct (map fst (pending c))
    \<and> (\<forall>sq call. map_of (pending c) sq = Some call \<longrightarrow> Call_Seq call = sq)
    \<and> (closing c \<longrightarrow> pending c = [])"
  using cl.reach_inv [OF assms] by (auto simp: client_inv_def dest!: map_of_SomeD)

lemma sample_client_init: "client_init sample_client"
  by (simp add: client_init_def sample_client_def)

theorem pending_invariant_witness:
  "reach client_init client_step
     (snd (sendMsg raw_proto run_length_gz zeros 0 (\<lambda>_. Inr []) sample_ctx (''h:1'', 0) sample_call sample_client))
   \<and> distinct (map fst (pending
     (snd (sendMsg raw_proto run_length_gz zeros 0 (\<lambda>_. Inr []) sample_ctx (''h:1'', 0) sample_call sample_client))))"
proof -
  let ?c = "snd (sendMsg raw_proto run_length_gz zeros 0 (\<lambda>_. Inr []) sample_ctx (''h:1'', 0) sample_call sample_client)"
  have "reach client_init client_step ?c"
    by (rule reach_step [where step = client_step and s = sample_client])
       (rule reach_init, rule sample_client_init, rule client_step.send [OF surjective_pairing])
  with pending_invariant [OF this] show ?thesis by blast
qed

text \<open>
  \<^bold>\<open>C26\<close>. A successful \<open>sendMsg\<close> hands the connection exactly one frame, the wire layout of
  the prepared request stamped with the next sequence number, registers the call under
  that number, and reports the true lengths: the payload's length before compression, its
  length inside the frame, which the code computes by subtracting the sizes of the other
  parts, and the length of the frame.
\<close>

theorem sendMsg_writes_frame:
  assumes "sized bufs" and "prepareMessage lib bufs now cx call = Ok req" and "\<not> closing c" and "\<not> shutdown c"
    and "choose_payload gz (stamped (sequence c + 1) req) = (req', p)" and "peer (layout req' p) = Inr bs"
  shows "sendMsg lib gz bufs now peer cx conn call c =
    (Ok (), c\<lparr>sequence := sequence c + 1,
       pending := AList.update (sequence c + 1) (call\<lparr>Call_Seq := sequence c + 1\<rparr>) (pending c),
       inbox := (inbox c)(conn := inbox c conn @ bs),
       rpc_log := rpc_log c
         @ replicate (length (co_statsHandlers (opt c))) (OutHeader (Metadata req)
             (compression_name (GetCompressType (Hdr req'))) 11 (''/'' @ ServiceName req @ ''/'' @ ServiceMethod req))
         @ replicate (length (co_statsHandlers (opt c))) (OutPayload (Call_req call) (Payload req)
             (length (Payload req)) (int (length p)) (length (layout req' p)))\<rparr>)"
  using assms by (rule sendMsg_ok)

definition sample_req :: Message where
  "sample_req = \<lparr>Hdr = [0x26, 0, 0, 0, 0, 0, 0, 0, 0, 0, 0], ServiceName = ''s'', ServiceMethod = ''m'',
     Metadata = Some [(UserAgentHeader, [UserAgent])], Payload = [1, 2]\<rparr>"

lemma sample_prepare: "prepareMessage raw_proto zeros 0 sample_ctx sample_call = Ok sample_req"
  by code_simp

lemma sample_choose: "choose_payload run_length_gz (stamped 1 sample_req) = (stamped 1 sample_req, [1, 2])"
  by code_simp

theorem sendMsg_writes_frame_witness:
  "rpc_log (snd (sendMsg raw_proto run_length_gz zeros 0 (\<lambda>_. Inr []) sample_ctx (''h:1'', 0) sample_call sample_client)) =
    [OutHeader (Some [(UserAgentHeader, [UserAgent])]) [] 11 ''/s/m'', OutPayload (Some [1, 2]) [1, 2] 2 2 64]"
proof -
  have w: "length (layout (stamped 1 sample_req) [1, 2]) = 64" "GetCompressType (Hdr (stamped 1 sample_req)) = None_compress"
    by code_simp+
  have s: "sequence sample_client + 1 = 1" "\<not> closing sample_client" "\<not> shutdown sample_client"
    by (simp_all add: sample_client_def)
  show ?thesis
    using sendMsg_writes_frame [OF sized_zeros sample_prepare s(2,3),
        of run_length_gz "stamped 1 sample_req" "[1, 2]" "\<lambda>_. Inr []" "[]" "(''h:1'', 0)"] sample_choose w s
    by (simp add: sample_client_def sample_req_def sample_call_def compression_name_def)
qed

text \<open>
  \<^bold>\<open>C27\<close>. \<open>recvMsg\<close> reads exactly one frame and, when that frame is a normal response to a
  pending call, returns the value its payload encodes, takes the call off the table and
  leaves the following bytes on the connection.
\<close>

theorem recvMsg_delivers:
  assumes "sendable gz bufs (co_maxReceiveMessageSize (opt c)) m"
    and "inbox c conn = frame_of gz bufs m @ rest"
    and "map_of (pending c) (GetSeq (Hdr m)) = Some call" and "Call_Seq call = GetSeq (Hdr m)"
    and "GetMessageType (Hdr m) = Response" and "GetMessageStatusType (Hdr m) = Normal"
    and "Unmarshal lib bufs [Payload m] v0 = Inr v"
  shows "\<exists>n. recvMsg lib gz bufs conn v0 c =
    (Inr v, c\<lparr>inbox := (inbox c)(conn := rest), pending := AList.delete (GetSeq (Hdr m)) (pending c),
       rpc_log := rpc_log c @ replicate (length (co_statsHandlers (opt c)))
         (InPayload v (Payload m) (length (Payload m)) n (n + 11))\<rparr>)"
  using assms by (rule recvMsg_ok)

text \<open>A response to call 1 with payload \<open>[7]\<close>, and a client that waits for it.\<close>

definition sample_res :: Message where
  "sample_res = \<lparr>Hdr = [0x26, 0, 0x80, 0, 0, 0, 0, 0, 0, 0, 0], ServiceName = ''s'', ServiceMethod = ''m'',
     Metadata = Some [], Payload = [7]\<rparr>"

definition sample_response :: Message where
  "sample_response = sample_res\<lparr>Hdr := SetSeq (Hdr sample_res) 1\<rparr>"

definition waiting_client :: "(bytes, unit, unit) Client" where
  "waiting_client = sample_client\<lparr>sequence := 1, pending := [(1, sample_call\<lparr>Call_Seq := 1\<rparr>)],
     inbox := (\<lambda>_. frame_of run_length_gz zeros sample_response)\<rparr>"

lemma sample_response_ok:
  "sendable run_length_gz zeros 5242880 sample_response" "GetSeq (Hdr sample_response) = 1"
  "GetMessageType (Hdr sample_response) = Response" "GetMessageStatusType (Hdr sample_response) = Normal"
proof -
  have "wire_ok sample_response" by code_simp
  moreover have "length (data_bytes sample_response (Payload sample_response)) = 19" by code_simp
  ultimately show "sendable run_length_gz zeros 5242880 sample_response"
    by (simp add: sendable_def run_length_gz_ok sized_zeros)
  show "GetSeq (Hdr sample_response) = 1" "GetMessageType (Hdr sample_response) = Response"
    "GetMessageStatusType (Hdr sample_response) = Normal" by code_simp+
qed

lemma waiting_client_fields:
  "co_maxReceiveMessageSize (opt waiting_client) = 5242880" "sequence waiting_client = 1"
  "map_of (pending waiting_client) 1 = Some (sample_call\<lparr>Call_Seq := 1\<rparr>)"
  "inbox waiting_client conn = frame_of run_length_gz zeros sample_response @ []"
  "\<not> closing waiting_client" "\<not> shutdown waiting_client"
  by (simp_all add: waiting_client_def sample_client_def defaultClientOption_def defaultClientMaxReceiveMessageSize_def)

lemma sample_unmarshal: "Unmarshal raw_proto zeros [Payload sample_response] [] = Inr [7]"
  by code_simp

theorem recvMsg_delivers_witness:
  "fst (recvMsg raw_proto run_length_gz zeros (''h:1'', 0) [] waiting_client) = Inr [7]"
  using recvMsg_delivers [of run_length_gz zeros waiting_client sample_response "(''h:1'', 0)" "[]"
      "sample_call\<lparr>Call_Seq := 1\<rparr>" raw_proto "[]" "[7]"]
    sample_response_ok waiting_client_fields sample_unmarshal
  by auto

text \<open>
  \<^bold>\<open>C28\<close>. A reply that arrives late is handed to the wrong caller. If the response to an
  earlier call, still pending because its caller gave up, is the next frame on a
  connection, then the next call on that connection sends its own request and returns the
  earlier call's reply as its own success, while its own sequence number stays pending.
\<close>

theorem late_reply_misdelivered:
  assumes "sendable gz bufs (co_maxReceiveMessageSize (opt c)) m"
    and "inbox c conn = frame_of gz bufs m @ rest"
    and "map_of (pending c) (GetSeq (Hdr m)) = Some old" and "Call_Seq old = GetSeq (Hdr m)"
    and "GetMessageType (Hdr m) = Response" and "GetMessageStatusType (Hdr m) = Normal"
    and "Unmarshal lib bufs [Payload m] v0 = Inr v"
    and "GetSeq (Hdr m) \<noteq> sequence c + 1" and "\<not> closing c" and "\<not> shutdown c"
    and "prepareMessage lib bufs (at_now a) cx call = Ok req" and "at_peer a = (\<lambda>_. Inr bs)"
    and "pool_put (fst (at_put a)) (snd (at_put a)) (snd conn) p = Ok p'"
  shows "\<exists>c'. exchange lib gz bufs a cx conn p call v0 c = (Ok (Inr v), c')
    \<and> map_of (pending c') (sequence c + 1) = Some (call\<lparr>Call_Seq := sequence c + 1\<rparr>)"
proof -
  obtain req' q where ch: "choose_payload gz (stamped (sequence c + 1) req) = (req', q)" by fastforce
  have "sized bufs" using assms(1) by (simp add: sendable_def)
  note s = sendMsg_ok [OF this assms(11,9,10) ch, of "at_peer a" bs conn, simplified assms(12), simplified]
  define c1 where "c1 = snd (sendMsg lib gz bufs (at_now a) (at_peer a) cx conn call c)"
  have c1: "sendMsg lib gz bufs (at_now a) (at_peer a) cx conn call c = (Ok (), c1)"
    and f: "opt c1 = opt c" "inbox c1 conn = frame_of gz bufs m @ rest @ bs"
      "pending c1 = AList.update (sequence c + 1) (call\<lparr>Call_Seq := sequence c + 1\<rparr>) (pending c)"
    using s assms(2,12) by (simp_all add: c1_def)
  have "map_of (pending c1) (GetSeq (Hdr m)) = Some old" using f(3) assms(3,8) by (simp add: update_conv')
  from recvMsg_ok [of gz bufs c1 m conn "rest @ bs" old lib v0 v] this f assms(1,4-7)
  obtain c2 where c2: "recvMsg lib gz bufs conn v0 c1 = (Inr v, c2)"
    "pending c2 = AList.delete (GetSeq (Hdr m)) (pending c1)" by auto
  with c1 assms(8,13) f(3) show ?thesis
    by (simp add: exchange_def give_back_def update_conv' delete_conv')
qed

definition quiet_attempt :: attempt where
  "quiet_attempt = \<lparr>ctx_done = None, wait_done = None,
     at_disc = \<lparr>de_json = reply_json, de_net = reply_net, de_rnd = (\<lambda>_. 0), de_now = 0, de_now' = 0,
                de_endpoint = (\<lambda>_. None), de_fetch = (\<lambda>_. Inr [])\<rparr>,
     at_get = \<lparr>probes = (\<lambda>_. (0, ReadTimeout)), dials = (\<lambda>_. (None, 0)), meanwhile = (\<lambda>_ p. p)\<rparr>,
     at_now = 0, at_peer = (\<lambda>_. Inr []), at_put = (0, 0)\<rparr>"

definition sample_pool :: connPool where
  "sample_pool = \<lparr>conns = [0], size = 1, created = 1, hotQueue = [], hotCap = 1, hotClosed = False,
     coldQueue = [], closed = False, prewarmed = False, handlers = 0,
     cinfo = (\<lambda>_. \<lparr>status = InUse, lastUsed = 0, createTime = 0\<rparr>), next_id = 1, clog = []\<rparr>"

lemma sample_pool_put: "\<exists>p'. pool_put 0 0 0 sample_pool = Ok p'"
  by (simp add: sample_pool_def pool_put_def isClosed_def markIdle_def Let_def)

theorem late_reply_misdelivered_witness:
  "fst (exchange raw_proto run_length_gz zeros quiet_attempt sample_ctx (''h:1'', 0) sample_pool sample_call [] waiting_client)
    = Ok (Inr [7])"
proof -
  from sample_pool_put obtain p' where p': "pool_put 0 0 0 sample_pool = Ok p'" by blast
  have "at_now quiet_attempt = 0" "at_peer quiet_attempt = (\<lambda>_. Inr [])" "at_put quiet_attempt = (0, 0)"
    by (simp_all add: quiet_attempt_def)
  with late_reply_misdelivered [of run_length_gz zeros waiting_client sample_response "(''h:1'', 0)" "[]"
      "sample_call\<lparr>Call_Seq := 1\<rparr>" raw_proto "[]" "[7]" quiet_attempt sample_ctx sample_call sample_req "[]" sample_pool p']
    sample_response_ok waiting_client_fields sample_unmarshal sample_prepare p'
  show ?thesis by auto
qed

text \<open>
  \<^bold>\<open>C29\<close>. The retry loop is bounded: a call that does not panic begins at most
  \<open>maxRetries + 1\<close> attempts per stats handler, ends no more of them than it began, and
  leaves the options, the closing flags and the heartbeat of the client as they were.
\<close>

theorem invoke_bounded:
  assumes "invoke lib gz bufs tagRPC atts cx method args v0 c = (r, c')" and "r \<noteq> Panic"
  shows "same_client c c'
    \<and> begins (rpc_log c') \<le> begins (rpc_log c) + nat (maxRetries (opt c) + 1) * length (co_statsHandlers (opt c))
    \<and> ends (rpc_log c') + begins (rpc_log c) \<le> begins (rpc_log c') + ends (rpc_log c)"
proof (cases "args = None \<or> v0 = None")
  case True
  with assms show ?thesis by (auto simp: invoke_def split: option.splits)
next
  case False
  then obtain x y where "args = Some x" "v0 = Some y" by auto
  with assms(1) have "retry_loop lib gz bufs atts
      (fold (\<lambda>sh. tagRPC sh (full_method method)) (co_statsHandlers (opt c)) cx) method x y 0
      (nat (maxRetries (opt c) + 1)) None c = (r, c')" by (simp add: invoke_def)
  from retry_loop_effect [OF this assms(2)] show ?thesis by simp
qed

text \<open>A client whose discovery knows no server: every attempt fails at once.\<close>

definition lost_client :: "(bytes, unit, unit) Client" where
  "lost_client = sample_client\<lparr>disc := Memory \<lparr>ms_servers = [], ms_idx = 0\<rparr>\<rparr>"

lemma lost_client_invoke:
  "invoke raw_proto run_length_gz zeros (\<lambda>_ _ cx. cx) (\<lambda>_. quiet_attempt) sample_ctx ''s/m'' (Some [1]) (Some []) lost_client =
    (Fail (Errorf ''zrpc discovery: no available servers''),
     lost_client\<lparr>rpc_log := concat (replicate 3 [Begin, End (Some (Errorf ''zrpc discovery: no available servers''))])\<rparr>)"
  by (simp add: invoke_def lost_client_def sample_client_def defaultClientOption_def defaultMaxRetries_def
      numeral_eq_Suc ctx_stops_def quiet_attempt_def attempt_round_def MultiServerRegistry_Get_def notify_def
      defaultRetryBackoff_def duration_units)

theorem invoke_bounded_witness:
  "begins (rpc_log (snd (invoke raw_proto run_length_gz zeros (\<lambda>_ _ cx. cx) (\<lambda>_. quiet_attempt) sample_ctx ''s/m''
     (Some [1]) (Some []) lost_client))) \<le> 3"
proof -
  have c: "nat (maxRetries (opt lost_client) + 1) * length (co_statsHandlers (opt lost_client)) = 3" "rpc_log lost_client = []"
    by (simp_all add: lost_client_def sample_client_def defaultClientOption_def defaultMaxRetries_def)
  show ?thesis using invoke_bounded [OF lost_client_invoke] c unfolding lost_client_invoke by simp
qed

text \<open>
  An attempt that reaches no connection is begun but never ended: if the pool of
  the chosen server gives none, the round tells the stats handlers nothing, although
  every other way a round can go (short of a panic) reports its end to each handler.
\<close>

theorem get_failure_misses_End:
  assumes "attempt_round lib gz bufs a cx method args v0 c = (r, c')" and "r \<noteq> Panic"
  shows "ends (rpc_log c') = ends (rpc_log c) + (if get_fails a c then 0 else length (co_statsHandlers (opt c)))"
  using attempt_round_ended [OF assms] by (simp add: ended_def)

definition exhausted_client :: "(bytes, unit, unit) Client" where
  "exhausted_client = sample_client\<lparr>pools := [(''h:1'', sample_pool\<lparr>closed := True\<rparr>)]\<rparr>"

lemma exhausted_round:
  "fst (attempt_round raw_proto run_length_gz zeros quiet_attempt sample_ctx ''s/m'' [1] [] exhausted_client) =
    Ok (Inl ErrClientConnClosing)" "get_fails quiet_attempt exhausted_client"
  by (simp_all add: attempt_round_def get_fails_def exhausted_client_def sample_client_def sample_pool_def
      defaultClientOption_def quiet_attempt_def MultiServerRegistry_Get_def pool_for_def pool_get_def)

theorem get_failure_misses_End_witness:
  "ends (rpc_log (snd (attempt_round raw_proto run_length_gz zeros quiet_attempt sample_ctx ''s/m'' [1] [] exhausted_client))) = 0"
  using get_failure_misses_End [OF surjective_pairing, of raw_proto run_length_gz zeros quiet_attempt sample_ctx "''s/m''" "[1]" "[]" exhausted_client]
    exhausted_round by (simp add: exhausted_client_def sample_client_def)

text \<open>
  A closed client never returns a reply: \<open>Close\<close> ends each pending call with
  \<open>ErrClientConnClosing\<close> and empties the table, and every later call fails (or panics),
  whatever the servers send.
\<close>

theorem closed_client_never_replies:
  "fst (invoke lib gz bufs tagRPC atts cx method args v0 (snd (Client_Close c))) \<noteq> Ok v
   \<and> (\<not> closing c \<longrightarrow> pending (snd (Client_Close c)) = []
      \<and> map Call_Err (fst (Client_Close c)) = replicate (length (pending c)) (Some ErrClientConnClosing))"
proof -
  have "closing (snd (Client_Close c))" by (simp add: Client_Close_def)
  then have "fst (invoke lib gz bufs tagRPC atts cx method args v0 (snd (Client_Close c))) \<noteq> Ok v"
    by (auto simp: invoke_def retry_loop_closed split: option.split)
  moreover have "Call_Err (end_call x) = Some ErrClientConnClosing" for x :: "'a Call"
    by (simp add: end_call_def Call_done_def split: option.split)
  ultimately show ?thesis by (simp add: Client_Close_def comp_def map_replicate_const)
qed

theorem closed_client_never_replies_witness:
  "map Call_Err (fst (Client_Close waiting_client)) = [Some ErrClientConnClosing]"
  using closed_client_never_replies [of _ _ _ _ _ _ _ _ _ waiting_client] waiting_client_fields(5)
  by (simp add: waiting_client_def)

text \<open>
  No heartbeat is ever sent. Its call carries no request, which the codec rejects,
  so every tick that gets a connection, healthy or not, sends nothing, closes that
  connection, and leaves it counted in the pool's \<open>created\<close>.
\<close>

theorem heartbeat_never_sent:
  assumes "Discovery_Get (at_disc a) RandomSelect (disc c) = (Inr target, d)"
    and "pool_for target (c\<lparr>disc := d\<rparr>) = Ok (p, c1)" and "pool_get (at_get a) p = (Inr conn, p1)"
  shows "\<exists>c'. sendHeartbeat lib gz bufs a pr c = (Ok (), c')
    \<and> map_of (pools c') target = Some (conn_Close conn p1)
    \<and> isClosed (conn_Close conn p1) conn \<and> created (conn_Close conn p1) = created p1
    \<and> pending c' = pending c \<and> sequence c' = sequence c \<and> rpc_log c' = rpc_log c \<and> inbox c' = inbox c1"
proof -
  have s: "sendMsg lib gz bufs now peer cx cn zero_Call c2 = (Fail ErrInvalidProtoMessage, c2)"
    for now peer cx cn and c2 :: "('a, 'b, 'c) Client"
    by (simp add: sendMsg_def prepareMessage_def Marshal_any_def zero_Call_def Let_def)
  have g: "give_back ts (target, conn) (conn_Close conn p1) (Ok ()) c2 = (Ok (), set_pool target (conn_Close conn p1) c2)"
    for ts and c2 :: "('a, 'b, 'c) Client"
    by (simp add: give_back_def pool_put_def)
  show ?thesis
    using assms pool_for_fields [OF assms(2)]
    by (cases "isHealthy pr p1 conn") (simp_all add: sendHeartbeat_def s g Let_def set_pool_def update_conv')
qed

definition pooled_client :: "(bytes, unit, unit) Client" where
  "pooled_client = sample_client\<lparr>pools := [(''h:1'', sample_pool\<lparr>hotQueue := [0]\<rparr>)]\<rparr>"

lemma pooled_get: "pool_get (at_get quiet_attempt) (sample_pool\<lparr>hotQueue := [0]\<rparr>) = (Inr 0, markInUse 0 sample_pool)"
  by (simp add: pool_get_def get_fast_def try_hot_def checkout_def orelse_def quiet_attempt_def sample_pool_def
      isClosed_def isHealthy_def duration_units)

theorem heartbeat_never_sent_witness:
  "\<exists>c'. sendHeartbeat raw_proto run_length_gz zeros quiet_attempt (0, ReadTimeout) pooled_client = (Ok (), c')
    \<and> map_of (pools c') ''h:1'' = Some (conn_Close 0 (markInUse 0 sample_pool))"
proof -
  have "Discovery_Get (at_disc quiet_attempt) RandomSelect (disc pooled_client) = (Inr ''h:1'', disc pooled_client)"
    by (simp add: pooled_client_def sample_client_def quiet_attempt_def MultiServerRegistry_Get_def)
  moreover have "pool_for ''h:1'' (pooled_client\<lparr>disc := disc pooled_client\<rparr>) = Ok (sample_pool\<lparr>hotQueue := [0]\<rparr>, pooled_client)"
    by (simp add: pool_for_def pooled_client_def)
  ultimately show ?thesis using heartbeat_never_sent pooled_get by blast
qed

text \<open>
  The wait before retry \<open>k\<close> doubles with every retry up to the maximum, as long as
  the product stays inside a \<open>time.Duration\<close>, and never exceeds the maximum.
\<close>

theorem backoff_doubles:
  assumes "1 \<le> k" and "0 < retryBackoff o1" and "retryBackoff o1 * 2 ^ (k - 1) < 2 ^ 63"
  shows "backoff o1 k = min (retryBackoff o1 * 2 ^ (k - 1)) (maxRetryBackoff o1)"
proof -
  have "(2::int) ^ (k - 1) \<le> retryBackoff o1 * 2 ^ (k - 1)" using assms(2) by simp
  with assms(3) have b: "(2::int) ^ (k - 1) < 2 ^ 63" by linarith
  have "0 < (2::int) ^ (k - 1)" "0 < retryBackoff o1 * 2 ^ (k - 1)" using assms(2) by simp_all
  then have "wrap64 (2 ^ (k - 1)) = 2 ^ (k - 1)" "wrap64 (retryBackoff o1 * 2 ^ (k - 1)) = retryBackoff o1 * 2 ^ (k - 1)"
    using b assms(3) by (intro wrap64_id; linarith)+
  then show ?thesis by (simp add: backoff_def Let_def)
qed

theorem backoff_doubles_witness:
  "backoff (defaultClientOption :: (unit, unit) clientOption) 3 = 400 * Millisecond"
  using backoff_doubles [of 3 "defaultClientOption :: (unit, unit) clientOption"]
  by (simp add: defaultClientOption_def defaultRetryBackoff_def defaultMaxRetryBackoff_def duration_units)

end
