(* ===== verification/ServerOption.thy ===== *)
theory ServerOption
  imports ClientOption Middleware Wire_Message
begin

text \<open>
  The server's options (\<^verbatim>\<open>server_option.go\<close>). \<open>'c\<close> is the type of a context, \<open>'v\<close> of a
  message, \<open>'r\<close> of what a method returns, \<open>'h\<close> of a stats handler. \<open>AuthFunc\<close> and
  \<open>ServerErrorFunc\<close> are functions of the user.

  \<open>defaultServerOption\<close> is one shared object: \<open>NewServer\<close> applies its options to it, so
  that the options of one server are the defaults of the next. The model keeps it as a
  state that \<open>NewServer\<close> returns updated.
\<close>

definition defaultServerMaxReceiveMessageSize :: int where
  "defaultServerMaxReceiveMessageSize = 1024 * 1024 * 5"

definition defaultServerMaxSendMessageSize :: int where
  "defaultServerMaxSendMessageSize = 2 ^ 31 - 1"

definition defaultWorkerPoolSize :: int where
  "defaultWorkerPoolSize = 20"

definition defaultTaskQueueSize :: int where
  "defaultTaskQueueSize = 10000"

definition defaultMinWorkerPoolSize :: int where
  "defaultMinWorkerPoolSize = 5"

definition defaultMaxWorkerPoolSize :: int where
  "defaultMaxWorkerPoolSize = 100"

type_synonym ('c, 'v, 'r) srv_mw = "('c \<times> 'v, string, 'r) server_middleware"

record ('c, 'v, 'r, 'h) serverOption =
  srvMiddleware :: "('c, 'v, 'r) srv_mw option"
  so_chainMiddlewares :: "('c, 'v, 'r) srv_mw list"
  so_tlsConfig :: bool
  so_readTimeout :: duration
  so_writeTimeout :: duration
  so_maxReceiveMessageSize :: int
  so_maxSendMessageSize :: int
  AuthFunc :: "('c \<Rightarrow> Message \<Rightarrow> string \<Rightarrow> goerr option) option"
  ServerErrorFunc :: "(Message \<Rightarrow> goerr \<Rightarrow> string) option"
  enableWorkerPool :: bool
  workerPoolSize :: int
  minWorkerPoolSize :: int
  maxWorkerPoolSize :: int
  taskQueueSize :: int
  adjustInterval :: duration
  enableDebug :: bool
  so_statsHandlers :: "'h list"

type_synonym ('c, 'v, 'r, 'h) ServerOption = "('c, 'v, 'r, 'h) serverOption \<Rightarrow> ('c, 'v, 'r, 'h) serverOption outcome"

definition defaultServerOption :: "('c, 'v, 'r, 'h) serverOption" where
  "defaultServerOption =
     \<lparr>srvMiddleware = None, so_chainMiddlewares = [], so_tlsConfig = False,
      so_readTimeout = Second * 120, so_writeTimeout = Second * 120,
      so_maxReceiveMessageSize = defaultServerMaxReceiveMessageSize,
      so_maxSendMessageSize = defaultServerMaxSendMessageSize,
      AuthFunc = None, ServerErrorFunc = None, enableWorkerPool = False,
      workerPoolSize = defaultWorkerPoolSize, minWorkerPoolSize = defaultMinWorkerPoolSize,
      maxWorkerPoolSize = defaultMaxWorkerPoolSize, taskQueueSize = defaultTaskQueueSize,
      adjustInterval = Second * 5, enableDebug = False, so_statsHandlers = []\<rparr>"

definition WithMiddleware :: "('c, 'v, 'r) srv_mw \<Rightarrow> ('c, 'v, 'r, 'h) ServerOption" where
  "WithMiddleware mw o1 =
     (case srvMiddleware o1 of Some _ \<Rightarrow> Panic | None \<Rightarrow> Ok (o1\<lparr>srvMiddleware := Some mw\<rparr>))"

definition WithChainMiddleware :: "('c, 'v, 'r) srv_mw list \<Rightarrow> ('c, 'v, 'r, 'h) ServerOption" where
  "WithChainMiddleware mws o1 = Ok (o1\<lparr>so_chainMiddlewares := so_chainMiddlewares o1 @ mws\<rparr>)"

definition WithReadTimeout :: "duration \<Rightarrow> ('c, 'v, 'r, 'h) ServerOption" where
  "WithReadTimeout d o1 = Ok (o1\<lparr>so_readTimeout := d\<rparr>)"

definition WithWriteTimeout :: "duration \<Rightarrow> ('c, 'v, 'r, 'h) ServerOption" where
  "WithWriteTimeout d o1 = Ok (o1\<lparr>so_writeTimeout := d\<rparr>)"

definition WithTLSConfig :: "bool \<Rightarrow> ('c, 'v, 'r, 'h) ServerOption" where
  "WithTLSConfig tls o1 = Ok (o1\<lparr>so_tlsConfig := tls\<rparr>)"

definition WithMaxReceiveMessageSize :: "int \<Rightarrow> ('c, 'v, 'r, 'h) ServerOption" where
  "WithMaxReceiveMessageSize n o1 = Ok (o1\<lparr>so_maxReceiveMessageSize := n\<rparr>)"

definition WithMaxSendMessageSize :: "int \<Rightarrow> ('c, 'v, 'r, 'h) ServerOption" where
  "WithMaxSendMessageSize n o1 = Ok (o1\<lparr>so_maxSendMessageSize := n\<rparr>)"

text \<open>The sizes are positive where they are divided, so Go's division is \<open>div\<close>.\<close>

definition WithWorkerPool :: "int \<Rightarrow> ('c, 'v, 'r, 'h) ServerOption" where
  "WithWorkerPool sz o1 =
     (let o1 = o1\<lparr>enableWorkerPool := True\<rparr> in
      Ok (if sz > 0
          then o1\<lparr>workerPoolSize := sz, minWorkerPoolSize := sz div 4, maxWorkerPoolSize := sz * 2\<rparr>
          else o1))"

definition WithTaskQueueSize :: "int \<Rightarrow> ('c, 'v, 'r, 'h) ServerOption" where
  "WithTaskQueueSize sz o1 = Ok (if sz > 0 then o1\<lparr>taskQueueSize := sz\<rparr> else o1)"

definition WithWorkerPoolAdjustInterval :: "duration \<Rightarrow> ('c, 'v, 'r, 'h) ServerOption" where
  "WithWorkerPoolAdjustInterval d o1 = Ok (if d > 0 then o1\<lparr>adjustInterval := d\<rparr> else o1)"

definition WithWorkerPoolSize :: "int \<Rightarrow> int \<Rightarrow> ('c, 'v, 'r, 'h) ServerOption" where
  "WithWorkerPoolSize mn mx o1 =
     (let o1 = o1\<lparr>enableWorkerPool := True\<rparr> in
      Ok (if mn > 0 \<and> mx \<ge> mn
          then o1\<lparr>minWorkerPoolSize := mn, maxWorkerPoolSize := mx, workerPoolSize := (mn + mx) div 2\<rparr>
          else o1))"

definition WithStatsHandler :: "'h \<Rightarrow> ('c, 'v, 'r, 'h) ServerOption" where
  "WithStatsHandler handler o1 = Ok (o1\<lparr>so_statsHandlers := so_statsHandlers o1 @ [handler]\<rparr>)"

end
