(* ===== verification/WorkerPool.thy ===== *)
theory WorkerPool
  imports Prelude "HOL-Library.Multiset"
begin

text \<open>
  The server's pool of workers (\<^verbatim>\<open>server.go\<close>: \<open>initFunctionWorkerPool\<close>, \<open>serverWorker\<close>,
  \<open>updatePoolMetrics\<close>, \<open>monitorWorkerPool\<close>, \<open>quickScaleUp\<close>, and the part of \<open>stop\<close> that
  drains the queue).

  The queue is the buffered channel \<open>workerFuncChannel\<close>; a task has type \<open>'f\<close>. \<open>numWorkers\<close>
  is the counter that the code keeps, \<open>running\<close> the worker goroutines there really are, by
  the id they were started with. \<open>accepted\<close> and \<open>taken\<close> record which tasks entered the queue
  and which left it, the latter with how: to a worker, or drained by \<open>stop\<close>.

  The load tests are on floating point numbers. Queue length, capacity and loads are far
  below \<open>2 ^ 50\<close>, where rounding decides the tests only at equality: a quotient of exactly
  0.8 is not above the literal 0.8, but \<open>1.0 - 0.8\<close> is below the literal 0.2, and
  \<open>1.0 - 0.2\<close> is not above 0.8. The tests below are the integer form of this. Likewise
  \<open>int32(float64(n) * 1.2)\<close> is \<open>6 * n div 5\<close> and \<open>int32(float64(n) * 0.8)\<close> is \<open>4 * n div 5\<close>.
\<close>

datatype exit = Run | Drained

record 'f WorkerPool =
  numWorkers :: int
  queue :: "'f list"
  queueCap :: nat
  queueClosed :: bool
  queueUsage :: "nat \<times> nat" \<comment> \<open>length and capacity at the last update of the metrics\<close>
  workerLoads :: "int list"
  minWorkers :: int
  maxWorkers :: int
  running :: "int list"
  accepted :: "'f list"
  taken :: "('f \<times> exit) list"

definition workerCreator :: "'f WorkerPool \<Rightarrow> 'f WorkerPool" where
  "workerCreator p = p\<lparr>numWorkers := numWorkers p + 1, running := running p @ [numWorkers p]\<rparr>"

definition initFunctionWorkerPool :: "int \<Rightarrow> int \<Rightarrow> nat \<Rightarrow> 'f WorkerPool" where
  "initFunctionWorkerPool mn mx cap =
     (workerCreator ^^ nat mn) \<lparr>numWorkers = mn, queue = [], queueCap = cap, queueClosed = False,
        queueUsage = (0, cap), workerLoads = replicate (nat mx) 0, minWorkers = mn, maxWorkers = mx,
        running = [], accepted = [], taken = []\<rparr>"

text \<open>The send of \<open>serveRequest\<close>: \<open>None\<close> is the panic of a send on a closed channel, \<open>False\<close> a full queue.\<close>

definition submit :: "'f \<Rightarrow> 'f WorkerPool \<Rightarrow> (bool \<times> 'f WorkerPool) option" where
  "submit f p =
     (if queueClosed p then None
      else if length (queue p) < queueCap p
      then Some (True, p\<lparr>queue := queue p @ [f], accepted := accepted p @ [f]\<rparr>)
      else Some (False, p))"

text \<open>
  One round of a worker: \<open>None\<close> when it has nothing to run. The load of the worker is up
  while the task runs and down again afterwards, so the round leaves it as it was.
\<close>

definition add_load :: "int \<Rightarrow> int \<Rightarrow> 'f WorkerPool \<Rightarrow> 'f WorkerPool" where
  "add_load w d p =
     (if 0 \<le> w \<and> w < int (length (workerLoads p))
      then p\<lparr>workerLoads := (workerLoads p)[nat w := workerLoads p ! nat w + d]\<rparr> else p)"

definition worker_take :: "int \<Rightarrow> 'f WorkerPool \<Rightarrow> ('f \<times> 'f WorkerPool) option" where
  "worker_take w p =
     (case queue p of
        [] \<Rightarrow> None
      | f # q \<Rightarrow> Some (f, add_load w 1 (p\<lparr>queue := q, taken := taken p @ [(f, Run)]\<rparr>)))"

definition worker_finish :: "int \<Rightarrow> 'f WorkerPool \<Rightarrow> 'f WorkerPool" where
  "worker_finish w p = add_load w (-1) p"

text \<open>
  A worker ends when the queue is closed and empty; after its round limit, which idle
  rounds count towards as well, or on a panic of its own, it starts a successor.
\<close>

definition serverWorkerResetThreshold :: nat where
  "serverWorkerResetThreshold = 2 ^ 16"

definition worker_exit :: "int \<Rightarrow> 'f WorkerPool \<Rightarrow> 'f WorkerPool" where
  "worker_exit w p = p\<lparr>running := remove1 w (running p)\<rparr>"

definition worker_recycle :: "int \<Rightarrow> 'f WorkerPool \<Rightarrow> 'f WorkerPool" where
  "worker_recycle w p = worker_exit w (workerCreator p)"

fun serverWorker_idle :: "int \<Rightarrow> nat \<Rightarrow> 'f WorkerPool \<Rightarrow> 'f WorkerPool" where
  "serverWorker_idle w 0 p = worker_recycle w p"
| "serverWorker_idle w (Suc n) p =
     (if queueClosed p \<and> queue p = [] then worker_exit w p else serverWorker_idle w n p)"

section \<open>Scaling\<close>

definition active :: "'f WorkerPool \<Rightarrow> int list" where
  "active p = take (nat (numWorkers p)) (workerLoads p)"

definition updatePoolMetrics :: "'f WorkerPool \<Rightarrow> 'f WorkerPool" where
  "updatePoolMetrics p = p\<lparr>queueUsage := (length (queue p), queueCap p)\<rparr>"

definition usage_high :: "'f WorkerPool \<Rightarrow> bool" where
  "usage_high p \<longleftrightarrow> 5 * fst (queueUsage p) > 4 * snd (queueUsage p)"

definition usage_low :: "'f WorkerPool \<Rightarrow> bool" where
  "usage_low p \<longleftrightarrow> 5 * fst (queueUsage p) < snd (queueUsage p)"

text \<open>\<open>idleWorkers < 0.2\<close> and \<open>idleWorkers > 0.8\<close>; with no active worker the ratio is 1.\<close>

definition few_idle :: "'f WorkerPool \<Rightarrow> bool" where
  "few_idle p \<longleftrightarrow> active p \<noteq> [] \<and> 5 * sum_list (active p) \<ge> 4 * int (length (active p))"

definition many_idle :: "'f WorkerPool \<Rightarrow> bool" where
  "many_idle p \<longleftrightarrow> active p = [] \<or> 5 * sum_list (active p) < int (length (active p))"

definition targetWorkers :: "'f WorkerPool \<Rightarrow> int" where
  "targetWorkers p =
     (let n = numWorkers p in
      if usage_high p \<or> few_idle p then
        (if n < maxWorkers p then min (6 * n div 5) (maxWorkers p) else n)
      else if usage_low p \<and> many_idle p then
        (if n > minWorkers p then max (4 * n div 5) (minWorkers p) else n)
      else n)"

definition monitor_tick :: "'f WorkerPool \<Rightarrow> 'f WorkerPool" where
  "monitor_tick p =
     (let p = updatePoolMetrics p; t = targetWorkers p; adjustment = t - numWorkers p in
      if adjustment > 0 then ((workerCreator ^^ nat adjustment) p)\<lparr>numWorkers := t\<rparr>
      else if adjustment < 0 then p\<lparr>numWorkers := t\<rparr>
      else p)"

text \<open>\<open>cas\<close> says whether the compare-and-swap finds the value that was read.\<close>

fun add_batches :: "nat \<Rightarrow> nat \<Rightarrow> 'f WorkerPool \<Rightarrow> 'f WorkerPool" where
  "add_batches 0 todo p = p"
| "add_batches (Suc k) todo p =
     (if todo = 0 then p
      else let b = (if todo < 10 then todo else 10) in add_batches k (todo - b) ((workerCreator ^^ b) p))"

definition quickScaleUp :: "bool \<Rightarrow> 'f WorkerPool \<Rightarrow> 'f WorkerPool" where
  "quickScaleUp cas p =
     (let n = numWorkers p in
      if n \<ge> maxWorkers p then p
      else
        (let t = min (6 * n div 5) (maxWorkers p); workersToAdd = t - n in
         if workersToAdd \<le> 0 then p
         else if \<not> cas then p
         else add_batches (nat workersToAdd) (nat workersToAdd) (p\<lparr>numWorkers := t\<rparr>)))"

section \<open>Shutdown\<close>

text \<open>The draining goroutine of \<open>stop\<close> throws queued tasks away, then closes the channel.\<close>

definition drain_one :: "'f WorkerPool \<Rightarrow> 'f WorkerPool" where
  "drain_one p = (case queue p of [] \<Rightarrow> p\<lparr>queueClosed := True\<rparr>
     | f # q \<Rightarrow> p\<lparr>queue := q, taken := taken p @ [(f, Drained)]\<rparr>)"

definition drain_timeout :: "'f WorkerPool \<Rightarrow> 'f WorkerPool" where
  "drain_timeout p = p\<lparr>queueClosed := True\<rparr>"

section \<open>Executions\<close>

inductive worker_step :: "'f WorkerPool \<Rightarrow> 'f WorkerPool \<Rightarrow> bool" where
  submit: "submit f p = Some (b, p') \<Longrightarrow> worker_step p p'"
| take: "w \<in> set (running p) \<Longrightarrow> worker_take w p = Some (f, p') \<Longrightarrow> worker_step p p'"
| finish: "w \<in> set (running p) \<Longrightarrow> worker_step p (worker_finish w p)"
| idle: "w \<in> set (running p) \<Longrightarrow> worker_step p (serverWorker_idle w n p)"
| monitor: "worker_step p (monitor_tick p)"
| quick: "worker_step p (quickScaleUp cas p)"
| drain: "worker_step p (drain_one p)"
| timeout: "worker_step p (drain_timeout p)"

lemma add_load_fields [simp]:
  "numWorkers (add_load w d p) = numWorkers p" "queue (add_load w d p) = queue p"
  "queueCap (add_load w d p) = queueCap p" "running (add_load w d p) = running p"
  "accepted (add_load w d p) = accepted p" "taken (add_load w d p) = taken p"
  "minWorkers (add_load w d p) = minWorkers p"
  by (simp_all add: add_load_def)

lemma workerCreator_fields [simp]:
  "numWorkers (workerCreator p) = numWorkers p + 1" "queue (workerCreator p) = queue p"
  "queueCap (workerCreator p) = queueCap p" "running (workerCreator p) = running p @ [numWorkers p]"
  "accepted (workerCreator p) = accepted p" "taken (workerCreator p) = taken p"
  "minWorkers (workerCreator p) = minWorkers p" "maxWorkers (workerCreator p) = maxWorkers p"
  by (simp_all add: workerCreator_def)

lemma create_many [simp]:
  "numWorkers ((workerCreator ^^ k) p) = numWorkers p + int k" "queue ((workerCreator ^^ k) p) = queue p"
  "queueCap ((workerCreator ^^ k) p) = queueCap p" "accepted ((workerCreator ^^ k) p) = accepted p"
  "taken ((workerCreator ^^ k) p) = taken p" "minWorkers ((workerCreator ^^ k) p) = minWorkers p"
  "length (running ((workerCreator ^^ k) p)) = length (running p) + k"
  by (induction k) simp_all

lemma create_many_add: "(workerCreator ^^ a) ((workerCreator ^^ b) p) = (workerCreator ^^ (b + a)) p"
  by (metis add.commute comp_apply funpow_add)

lemma add_batches_create: "todo \<le> k \<Longrightarrow> add_batches k todo p = (workerCreator ^^ todo) p"
proof (induction k arbitrary: todo p)
  case 0
  then show ?case by simp
next
  case (Suc k)
  show ?case
  proof (cases "todo = 0")
    case True
    then show ?thesis by simp
  next
    case False
    let ?b = "if todo < 10 then todo else 10"
    have "todo - ?b \<le> k" "?b + (todo - ?b) = todo" using Suc.prems False by auto
    with Suc.IH [of "todo - ?b"] False show ?thesis by (simp only: add_batches.simps if_False Let_def create_many_add)
  qed
qed

section \<open>The queue is first in, first out\<close>

definition queue_inv :: "'f WorkerPool \<Rightarrow> bool" where
  "queue_inv p \<longleftrightarrow> map fst (taken p) @ queue p = accepted p \<and> length (queue p) \<le> queueCap p"

definition pool_init :: "'f WorkerPool \<Rightarrow> bool" where
  "pool_init p \<longleftrightarrow> (\<exists>mn mx cap. 0 \<le> mn \<and> p = initFunctionWorkerPool mn mx cap)"

lemma queue_inv_cong:
  "queue_inv p \<Longrightarrow> taken p' = taken p \<Longrightarrow> queue p' = queue p \<Longrightarrow> accepted p' = accepted p \<Longrightarrow> queueCap p' = queueCap p
   \<Longrightarrow> queue_inv p'"
  by (simp add: queue_inv_def)

lemma serverWorker_idle_cases:
  "serverWorker_idle w n p = worker_recycle w p \<or> serverWorker_idle w n p = worker_exit w p"
  by (induction n) auto

lemma worker_end_fields [simp]:
  "queue (worker_recycle w p) = queue p" "queueCap (worker_recycle w p) = queueCap p"
  "accepted (worker_recycle w p) = accepted p" "taken (worker_recycle w p) = taken p"
  "queue (worker_exit w p) = queue p" "queueCap (worker_exit w p) = queueCap p"
  "accepted (worker_exit w p) = accepted p" "taken (worker_exit w p) = taken p"
  by (simp_all add: worker_recycle_def worker_exit_def)

lemma scaling_queue_fields [simp]:
  "queue (monitor_tick p) = queue p" "queueCap (monitor_tick p) = queueCap p"
  "accepted (monitor_tick p) = accepted p" "taken (monitor_tick p) = taken p"
  "queue (quickScaleUp cas p) = queue p" "queueCap (quickScaleUp cas p) = queueCap p"
  "accepted (quickScaleUp cas p) = accepted p" "taken (quickScaleUp cas p) = taken p"
  by (simp_all add: monitor_tick_def updatePoolMetrics_def quickScaleUp_def Let_def add_batches_create)

interpretation wq: invariant_system pool_init worker_step queue_inv
proof
  fix p :: "'f WorkerPool"
  assume "pool_init p"
  then show "queue_inv p" by (auto simp: pool_init_def queue_inv_def initFunctionWorkerPool_def)
next
  fix p p' :: "'f WorkerPool"
  assume "worker_step p p'" "queue_inv p"
  then show "queue_inv p'"
  proof (cases rule: worker_step.cases)
    case (idle w n)
    with \<open>queue_inv p\<close> serverWorker_idle_cases [of w n p] show ?thesis by (auto intro: queue_inv_cong)
  qed (auto simp: queue_inv_def submit_def worker_take_def worker_finish_def drain_one_def drain_timeout_def
        split: if_splits list.splits)
qed

section \<open>A pool without workers\<close>

definition no_workers :: "'f WorkerPool \<Rightarrow> bool" where
  "no_workers p \<longleftrightarrow> running p = [] \<and> numWorkers p = 0 \<and> minWorkers p = 0 \<and> (\<forall>x \<in> set (taken p). snd x = Drained)"

definition empty_init :: "'f WorkerPool \<Rightarrow> bool" where
  "empty_init p \<longleftrightarrow> (\<exists>mx cap. p = initFunctionWorkerPool 0 mx cap)"

interpretation nw: invariant_system empty_init worker_step no_workers
proof
  fix p :: "'f WorkerPool"
  assume "empty_init p"
  then show "no_workers p" by (auto simp: empty_init_def no_workers_def initFunctionWorkerPool_def)
next
  fix p p' :: "'f WorkerPool"
  assume "worker_step p p'" "no_workers p"
  then show "no_workers p'"
    by (cases rule: worker_step.cases)
       (auto simp: no_workers_def submit_def drain_one_def drain_timeout_def monitor_tick_def updatePoolMetrics_def
          targetWorkers_def quickScaleUp_def Let_def split: if_splits list.splits)
qed

section \<open>Properties\<close>



text \<open>
  The counter of workers runs ahead of the workers: a new pool counts each of its
  workers twice, every worker that hands over to a successor (after its rounds, idle ones
  included) adds one without a worker more, and an emergency scaling adds its new workers
  twice, so that the counter passes the configured maximum.
\<close>

theorem numWorkers_overcounts:
  assumes "0 \<le> mn" and "w \<in> set (running p)" and "numWorkers p < maxWorkers p" and "5 \<le> numWorkers p"
  shows "numWorkers (initFunctionWorkerPool mn mx cap) = 2 * mn \<and> int (length (running (initFunctionWorkerPool mn mx cap))) = mn
    \<and> numWorkers (worker_recycle w p) = numWorkers p + 1 \<and> length (running (worker_recycle w p)) = length (running p)
    \<and> (let t = min (6 * numWorkers p div 5) (maxWorkers p); p' = quickScaleUp True p in
       int (length (running p')) = int (length (running p)) + (t - numWorkers p)
       \<and> numWorkers p' = t + (t - numWorkers p))"
proof -
  have "length (running p) \<noteq> 0" using assms(2) by auto
  moreover have "numWorkers p < min (6 * numWorkers p div 5) (maxWorkers p)" using assms(3,4) by linarith
  ultimately show ?thesis using assms
    by (auto simp: initFunctionWorkerPool_def worker_recycle_def worker_exit_def length_remove1 remove1_append
        quickScaleUp_def add_batches_create Let_def)
qed

definition busy_pool :: "nat WorkerPool" where
  "busy_pool = (initFunctionWorkerPool 50 110 10)"

theorem numWorkers_overcounts_witness:
  "numWorkers (quickScaleUp True busy_pool) = 120 \<and> maxWorkers busy_pool = 110"
proof -
  have mx: "maxWorkers ((workerCreator ^^ k) q) = maxWorkers q" for k and q :: "nat WorkerPool" by (induction k) simp_all
  have f: "numWorkers busy_pool = 100" "maxWorkers busy_pool = 110" "length (running busy_pool) = 50"
    by (simp_all add: busy_pool_def initFunctionWorkerPool_def mx)
  then obtain w where "w \<in> set (running busy_pool)" by (cases "running busy_pool") auto
  from numWorkers_overcounts [where mn = 0 and mx = 0 and cap = 0, OF _ this] f show ?thesis by (auto simp: Let_def)
qed

text \<open>
  A tick of the monitor keeps the pool within its limits: if it raises the counter,
  then to at most the maximum and by exactly the workers it starts; if it lowers the
  counter, then to at least the minimum, and no worker is stopped.
\<close>

theorem monitor_tick_bounds:
  assumes "0 \<le> numWorkers p"
  shows "(numWorkers p < numWorkers (monitor_tick p) \<longrightarrow> numWorkers (monitor_tick p) \<le> maxWorkers p
      \<and> int (length (running (monitor_tick p))) = int (length (running p)) + (numWorkers (monitor_tick p) - numWorkers p))
   \<and> (numWorkers (monitor_tick p) < numWorkers p \<longrightarrow> minWorkers p \<le> numWorkers (monitor_tick p)
      \<and> running (monitor_tick p) = running p)"
proof -
  let ?p = "updatePoolMetrics p"
  have u: "numWorkers ?p = numWorkers p" "maxWorkers ?p = maxWorkers p" "minWorkers ?p = minWorkers p" "running ?p = running p"
    by (simp_all add: updatePoolMetrics_def)
  have t: "numWorkers p < targetWorkers ?p \<Longrightarrow> targetWorkers ?p \<le> maxWorkers p"
    "targetWorkers ?p < numWorkers p \<Longrightarrow> minWorkers p \<le> targetWorkers ?p"
    using assms u by (auto simp: targetWorkers_def Let_def split: if_splits)
  with u show ?thesis by (auto simp: monitor_tick_def Let_def)
qed

theorem monitor_tick_bounds_witness:
  "numWorkers (monitor_tick (busy_pool\<lparr>queue := [1, 2, 3, 4, 5, 6, 7, 8, 9]\<rparr>)) \<le> 110"
proof -
  let ?p = "busy_pool\<lparr>queue := [1, 2, 3, 4, 5, 6, 7, 8, 9]\<rparr>"
  have mx: "maxWorkers ((workerCreator ^^ k) q) = maxWorkers q" for k and q :: "nat WorkerPool" by (induction k) simp_all
  have f: "numWorkers ?p = 100" "maxWorkers ?p = 110"
    by (simp_all add: busy_pool_def initFunctionWorkerPool_def mx)
  show ?thesis using monitor_tick_bounds [of ?p] f by (cases "numWorkers ?p < numWorkers (monitor_tick ?p)") simp_all
qed

end
