(* ===== verification/Server.thy ===== *)
theory Server
  imports ServerOption Client_Call WorkerPool Wire_Safety
begin

text \<open>
  The server (\<^verbatim>\<open>server.go\<close>), service registration (\<^verbatim>\<open>service.go\<close>), the listeners
  (\<^verbatim>\<open>listener.go\<close>), and the code the protoc plugin generates for a service
  (\<^verbatim>\<open>cmd/protoc-gen-go-zrpc/zrpc.go\<close>).

  \<^item> A connection is a number. \<open>outbox\<close> holds the bytes written to each connection; what
    arrives on one is an argument of \<open>serve_stream\<close>.
  \<^item> A method handler is a program that may decode the request, any number of times, and
    then ends in a result (\<open>hprog\<close>): the reply, the error, and the metadata it passed to
    \<open>SetMeta\<close>; or a panic.
  \<^item> A panic of \<open>processOneRequest\<close> is recovered there. Nothing recovers one of
    \<open>serveRequest\<close>, which runs in a goroutine of its own: \<open>Panic\<close> is the end of the process.
    \<open>zap.L().Fatal\<close> ends the process as well.
  \<^item> Goroutines started for a request run to their end before the next step. Deadlines on
    connections and log output are left out.
\<close>

section \<open>Handlers and services\<close>

datatype 'v method_result = Returns "'v option" "goerr option" "MD list" | Panics

datatype 'v hprog = Dec 'v "goerr + 'v \<Rightarrow> 'v hprog" | Done "'v method_result"

type_synonym 'v smw = "(ctx, 'v, 'v method_result) srv_mw"
type_synonym 'v MethodHandler = "ctx \<Rightarrow> 'v smw option \<Rightarrow> 'v hprog"

record 'v ServiceDesc =
  sd_ServiceName :: string
  sd_Methods :: "(string \<times> 'v MethodHandler) list"

type_synonym 'v service = "(string \<times> 'v MethodHandler) list"
type_synonym task = "ctx \<times> Message \<times> nat"

record ('v, 'h) Server =
  s_opt :: "(ctx, 'v, 'v method_result, 'h) serverOption"
  s_conns :: "nat list option"
  serviceMap :: "(string \<times> 'v service) list"
  s_serve :: bool
  handleMsgCount :: int
  inShutdown :: bool
  s_pool :: "task WorkerPool option"
  connMutexes :: "nat list"
  s_log :: "'v rpc_event list"
  s_connlog :: "conn_event list"
  s_closed :: "nat list"
  outbox :: "nat \<Rightarrow> bytes"

definition NewServer ::
  "(ctx, 'v, 'v method_result, 'h) ServerOption list \<Rightarrow> (ctx, 'v, 'v method_result, 'h) serverOption
   \<Rightarrow> ((ctx, 'v, 'v method_result, 'h) serverOption \<times> ('v, 'h) Server) outcome" where
  "NewServer opts shared =
     (case apply_options opts shared of
        Fail e \<Rightarrow> Fail e | Panic \<Rightarrow> Panic
      | Ok o1 \<Rightarrow>
          (let o2 = o1\<lparr>srvMiddleware := chainServerMiddlewares (srvMiddleware o1) (so_chainMiddlewares o1)\<rparr> in
           Ok (o2, \<lparr>s_opt = o2, s_conns = Some [], serviceMap = [], s_serve = False, handleMsgCount = 0,
                    inShutdown = False,
                    s_pool = (if enableWorkerPool o2
                              then Some (initFunctionWorkerPool (minWorkerPoolSize o2) (maxWorkerPoolSize o2)
                                           (nat (taskQueueSize o2)))
                              else None),
                    connMutexes = [], s_log = [], s_connlog = [], s_closed = [], outbox = (\<lambda>_. [])\<rparr>)))"

definition register :: "'v ServiceDesc \<Rightarrow> ('v, 'h) Server \<Rightarrow> ('v, 'h) Server outcome" where
  "register sd s =
     (if s_serve s then Panic
      else if map_of (serviceMap s) (sd_ServiceName sd) \<noteq> None then Panic
      else Ok (s\<lparr>serviceMap := AList.update (sd_ServiceName sd)
             (fold (\<lambda>(name, h) ms. AList.update name h ms) (sd_Methods sd) []) (serviceMap s)\<rparr>))"

text \<open>\<open>implements\<close>: nil, or an implementation with or without the methods of the service's interface.\<close>

definition RegisterService :: "bool option \<Rightarrow> 'v ServiceDesc \<Rightarrow> ('v, 'h) Server \<Rightarrow> ('v, 'h) Server outcome" where
  "RegisterService implements sd s = (if implements = Some False then Panic else register sd s)"

section \<open>Generated code\<close>

text \<open>
  A method of a service as the plugin sees it: its name in the proto file, its Go name, a
  new request and reply message, and the implementation that the user registers.
\<close>

record 'v proto_method =
  pm_Name :: string
  pm_GoName :: string
  pm_In :: 'v
  pm_Out :: 'v
  pm_Impl :: "ctx \<times> 'v \<Rightarrow> 'v method_result"

definition genFullMethod :: "string \<Rightarrow> 'v proto_method \<Rightarrow> string" where
  "genFullMethod service m = service @ ''/'' @ pm_GoName m"

definition genServerMethod :: "string \<Rightarrow> 'v proto_method \<Rightarrow> 'v MethodHandler" where
  "genServerMethod service m cx middleware =
     Dec (pm_In m) (\<lambda>r. case r of
         Inl e \<Rightarrow> Done (Returns None (Some e) [])
       | Inr v \<Rightarrow> Done (case middleware of
             None \<Rightarrow> pm_Impl m (cx, v)
           | Some mw \<Rightarrow> mw (cx, v) (genFullMethod service m) (pm_Impl m)))"

definition genServiceDesc :: "string \<Rightarrow> 'v proto_method list \<Rightarrow> 'v ServiceDesc" where
  "genServiceDesc service ms =
     \<lparr>sd_ServiceName = service, sd_Methods = map (\<lambda>m. (pm_Name m, genServerMethod service m)) ms\<rparr>"

text \<open>The generated client method, over the \<open>Invoke\<close> of its client.\<close>

definition genClientMethod ::
  "(string \<Rightarrow> 'v option \<Rightarrow> 'v option \<Rightarrow> 'v outcome \<times> 'c) \<Rightarrow> string \<Rightarrow> 'v proto_method \<Rightarrow> 'v \<Rightarrow> 'v outcome \<times> 'c" where
  "genClientMethod Invoke service m in_msg = Invoke (genFullMethod service m) (Some in_msg) (Some (pm_Out m))"

section \<open>Responses\<close>

definition s_notify :: "'v rpc_event \<Rightarrow> ('v, 'h) Server \<Rightarrow> ('v, 'h) Server" where
  "s_notify e s = s\<lparr>s_log := s_log s @ replicate (length (so_statsHandlers (s_opt s))) e\<rparr>"

definition getConnMutex :: "nat \<Rightarrow> ('v, 'h) Server \<Rightarrow> ('v, 'h) Server" where
  "getConnMutex conn s = s\<lparr>connMutexes := (if conn \<in> set (connMutexes s) then connMutexes s else connMutexes s @ [conn])\<rparr>"

text \<open>A write under the connection's mutex; \<open>wok\<close> says whether the network takes it.\<close>

definition conn_Write :: "bool \<Rightarrow> nat \<Rightarrow> bytes \<Rightarrow> ('v, 'h) Server \<Rightarrow> ('v, 'h) Server" where
  "conn_Write wok conn buf s =
     (let s = getConnMutex conn s in
      if wok then s\<lparr>outbox := (outbox s)(conn := outbox s conn @ buf)\<rparr> else s)"

definition handleError :: "('c, 'v, 'r, 'h) serverOption \<Rightarrow> Message \<Rightarrow> goerr \<Rightarrow> Message" where
  "handleError o1 res err =
     (let res = res\<lparr>Hdr := SetMessageStatusType (Hdr res) Error_status\<rparr>;
          val = (case ServerErrorFunc o1 of Some f \<Rightarrow> f res err | None \<Rightarrow> Error_text err)
      in if MD_Len (entries res) = 0 then res\<lparr>Metadata := Some (New [(ServiceError, val)])\<rparr>
         else res\<lparr>Metadata := Some (Join [entries res, Pairs_loop [ServiceError, val] []])\<rparr>)"

definition SetMeta :: "Message \<Rightarrow> MD \<Rightarrow> Message" where
  "SetMeta res md = (if MD_Len md = 0 then res else res\<lparr>Metadata := Some (Join [entries res, md])\<rparr>)"

text \<open>The response with its payload: the reply's encoding, compressed if it is large and the request was.\<close>

definition response_message ::
  "'v proto_lib \<Rightarrow> (nat \<Rightarrow> bytes) \<Rightarrow> ('c, 'v, 'r, 'h) serverOption \<Rightarrow> goerr option \<Rightarrow> Message \<Rightarrow> Message \<Rightarrow> 'v option \<Rightarrow> Message" where
  "response_message lib bufs o1 originalErr req res rep =
     (let (res, d) =
        (case rep of
           None \<Rightarrow> (res, [])
         | Some v \<Rightarrow>
             (case Marshal lib bufs v of
                Inl e \<Rightarrow> (if originalErr = None then handleError o1 res e else res, [])
              | Inr d \<Rightarrow> (res, d)))
      in if slice_Len d > 0 then
           (let res = res\<lparr>Payload := Materialize d\<rparr> in
            if length (Payload res) > 1024 \<and> GetCompressType (Hdr req) \<noteq> None_compress
            then res\<lparr>Hdr := SetCompressType (Hdr res) (GetCompressType (Hdr req))\<rparr> else res)
         else res)"

definition srv_sendResponse ::
  "'v proto_lib \<Rightarrow> gzip_lib \<Rightarrow> (nat \<Rightarrow> bytes) \<Rightarrow> bool \<Rightarrow> nat \<Rightarrow> goerr option \<Rightarrow> Message \<Rightarrow> Message \<Rightarrow> 'v option
   \<Rightarrow> ('v, 'h) Server \<Rightarrow> ('v, 'h) Server option" where
  "srv_sendResponse lib gz bufs wok conn originalErr req res rep s =
     (case Encode gz bufs (response_message lib bufs (s_opt s) originalErr req res rep) of
        None \<Rightarrow> None
      | Some (res, msgBuffer) \<Rightarrow> Some (conn_Write wok conn msgBuffer s))"

section \<open>One request\<close>

text \<open>The decoder \<open>df\<close> that a handler gets, and the run of a handler with it.\<close>

definition decode_request :: "'v proto_lib \<Rightarrow> (nat \<Rightarrow> bytes) \<Rightarrow> Message \<Rightarrow> 'v \<Rightarrow> goerr + 'v" where
  "decode_request lib bufs req v =
     (case Unmarshal lib bufs [Payload req] v of
        Inl e \<Rightarrow> Inl (Errorf (''zrpc: error unmarshalling request: '' @ Error_text e))
      | Inr x \<Rightarrow> Inr x)"

primrec run_handler ::
  "('v \<Rightarrow> goerr + 'v) \<Rightarrow> ('v \<Rightarrow> 'v rpc_event) \<Rightarrow> 'v hprog \<Rightarrow> ('v, 'h) Server \<Rightarrow> 'v method_result \<times> ('v, 'h) Server" where
  "run_handler df ev (Done r) s = (r, s)"
| "run_handler df ev (Dec v k) s =
     (case df v of
        Inl e \<Rightarrow> run_handler df ev (k (Inl e)) s
      | Inr x \<Rightarrow> run_handler df ev (k (Inr x)) (s_notify (ev x) s))"

definition in_event :: "gzip_lib \<Rightarrow> Message \<Rightarrow> 'v \<Rightarrow> 'v rpc_event" where
  "in_event gz req v =
     (let n = in_payload_len gz req in InPayload v (Payload req) (length (Payload req)) n (n + 11))"

definition out_event ::
  "'v proto_lib \<Rightarrow> gzip_lib \<Rightarrow> (nat \<Rightarrow> bytes) \<Rightarrow> Message \<Rightarrow> 'v option \<Rightarrow> ('v, 'h) Server \<Rightarrow> ('v, 'h) Server" where
  "out_event lib gz bufs res rep s =
     (case rep of
        None \<Rightarrow> s
      | Some v \<Rightarrow>
          (case Marshal lib bufs v of
             Inl _ \<Rightarrow> s
           | Inr d \<Rightarrow>
               (let payload = Materialize d; uncompressedLen = length payload;
                    compressedLen =
                      (if GetCompressType (Hdr res) \<noteq> None_compress \<and> uncompressedLen \<ge> CompressThreshold
                       then (case Compressors gz (GetCompressType (Hdr res)) of
                               Some (Zip, Unzip) \<Rightarrow>
                                 (case Zip payload of Inr z \<Rightarrow> length z | Inl _ \<Rightarrow> uncompressedLen)
                             | None \<Rightarrow> uncompressedLen)
                       else uncompressedLen)
                in s_notify (OutPayload (Some v) payload uncompressedLen (int compressedLen) (compressedLen + 11)) s)))"

text \<open>The body after the lookup of the service: the flag is false when it panicked.\<close>

definition finish_request ::
  "'v proto_lib \<Rightarrow> gzip_lib \<Rightarrow> (nat \<Rightarrow> bytes) \<Rightarrow> bool \<Rightarrow> nat \<Rightarrow> Message \<Rightarrow> Message \<Rightarrow> 'v option \<Rightarrow> goerr option
   \<Rightarrow> ('v, 'h) Server \<Rightarrow> bool \<times> ('v, 'h) Server" where
  "finish_request lib gz bufs wok conn req res rep err s =
     (let s = s_notify (End err) (out_event lib gz bufs res rep s) in
      case srv_sendResponse lib gz bufs wok conn err req res rep s of
        Some s \<Rightarrow> (True, s) | None \<Rightarrow> (False, s))"

definition call_method ::
  "'v proto_lib \<Rightarrow> gzip_lib \<Rightarrow> (nat \<Rightarrow> bytes) \<Rightarrow> bool \<Rightarrow> ctx \<Rightarrow> Message \<Rightarrow> nat \<Rightarrow> 'v service
   \<Rightarrow> ('v, 'h) Server \<Rightarrow> bool \<times> ('v, 'h) Server" where
  "call_method lib gz bufs wok cx req conn srv s =
     (let res = Clone req in
      case map_of srv (ServiceMethod req) of
        None \<Rightarrow> finish_request lib gz bufs wok conn req res None None s
      | Some h \<Rightarrow>
          (let res = res\<lparr>Hdr := SetMessageType (Hdr res) Response\<rparr> in
           case run_handler (decode_request lib bufs req) (in_event gz req) (h cx (srvMiddleware (s_opt s))) s of
             (Panics, s) \<Rightarrow> (False, s)
           | (Returns rep err mds, s) \<Rightarrow>
               (let res = fold (\<lambda>md r. SetMeta r md) mds res;
                    res = (case err of Some e \<Rightarrow> handleError (s_opt s) res e | None \<Rightarrow> res)
                in finish_request lib gz bufs wok conn req res rep err s)))"

definition process_body ::
  "'v proto_lib \<Rightarrow> gzip_lib \<Rightarrow> (nat \<Rightarrow> bytes) \<Rightarrow> bool \<Rightarrow> ctx \<Rightarrow> Message \<Rightarrow> nat \<Rightarrow> ('v, 'h) Server \<Rightarrow> bool \<times> ('v, 'h) Server" where
  "process_body lib gz bufs wok cx req conn s =
     (let s = s_notify Begin s in
      if IsHeartBeat (Hdr req) then
        (let res = Clone req; res = res\<lparr>Hdr := SetMessageType (Hdr res) Response\<rparr> in
         case Encode gz bufs res of
           None \<Rightarrow> (False, s)
         | Some (_, buf) \<Rightarrow> (True, conn_Write wok conn buf s))
      else case map_of (serviceMap s) (ServiceName req) of
             None \<Rightarrow> (False, s) \<comment> \<open>\<open>srv\<close> is nil and \<open>srv.methods\<close> dereferences it\<close>
           | Some srv \<Rightarrow> call_method lib gz bufs wok cx req conn srv s)"

definition processOneRequest ::
  "'v proto_lib \<Rightarrow> gzip_lib \<Rightarrow> (nat \<Rightarrow> bytes) \<Rightarrow> bool \<Rightarrow> task \<Rightarrow> ('v, 'h) Server \<Rightarrow> ('v, 'h) Server" where
  "processOneRequest lib gz bufs wok t s =
     (case t of (cx, req, conn) \<Rightarrow>
        (let s = s\<lparr>handleMsgCount := handleMsgCount s + 1\<rparr>;
             s = snd (process_body lib gz bufs wok cx req conn s)
         in s\<lparr>handleMsgCount := handleMsgCount s - 1\<rparr>))"

section \<open>Serving a request\<close>

definition AuthKey :: string where "AuthKey = ''zrpc_auth''"

text \<open>\<open>Ok None\<close> is success. \<open>token[0]\<close> panics when the request carries no token.\<close>

definition auth :: "('c, 'v, 'r, 'h) serverOption \<Rightarrow> 'c \<Rightarrow> Message \<Rightarrow> goerr option outcome" where
  "auth o1 cx req =
     (case AuthFunc o1 of
        None \<Rightarrow> Ok None
      | Some f \<Rightarrow>
          (case md_index (entries req) AuthKey of [] \<Rightarrow> Panic | token # _ \<Rightarrow> Ok (f cx req token)))"

definition request_deadline :: "time \<Rightarrow> Message \<Rightarrow> time option \<Rightarrow> time option" where
  "request_deadline now req dl =
     (if Metadata req = None then dl
      else case MD_Get (entries req) TimeoutHeader of
        [] \<Rightarrow> dl
      | t # _ \<Rightarrow>
          (case DecodeTimeout t of
             Inl _ \<Rightarrow> dl
           | Inr timeout \<Rightarrow>
               if timeout > 0 then Some (case dl of None \<Rightarrow> now + timeout | Some d \<Rightarrow> min d (now + timeout)) else dl))"

fun tag_all ::
  "('h \<Rightarrow> string \<Rightarrow> ctx \<Rightarrow> ctx) \<Rightarrow> string \<Rightarrow> 'v rpc_event \<Rightarrow> 'h list \<Rightarrow> ctx \<Rightarrow> 'v rpc_event list \<Rightarrow> ctx \<times> 'v rpc_event list" where
  "tag_all tagRPC full ev [] cx es = (cx, es)"
| "tag_all tagRPC full ev (sh # shs) cx es = tag_all tagRPC full ev shs (tagRPC sh full cx) (es @ [ev])"

text \<open>The hand-over to the worker pool, or to a goroutine of its own.\<close>

definition dispatch_request ::
  "'v proto_lib \<Rightarrow> gzip_lib \<Rightarrow> (nat \<Rightarrow> bytes) \<Rightarrow> bool \<Rightarrow> bool \<Rightarrow> task \<Rightarrow> ('v, 'h) Server \<Rightarrow> unit outcome \<times> ('v, 'h) Server" where
  "dispatch_request lib gz bufs wok cas t s =
     (case s_pool s of
        None \<Rightarrow> (Ok (), processOneRequest lib gz bufs wok t s)
      | Some p \<Rightarrow>
          (case submit t p of
             None \<Rightarrow> (Panic, s)
           | Some (True, p) \<Rightarrow> (Ok (), s\<lparr>s_pool := Some p\<rparr>)
           | Some (False, p) \<Rightarrow>
               (let p = (if usage_high p then quickScaleUp cas p else p) in
                (Ok (), processOneRequest lib gz bufs wok t (s\<lparr>s_pool := Some p\<rparr>)))))"

definition serveRequest ::
  "'v proto_lib \<Rightarrow> gzip_lib \<Rightarrow> (nat \<Rightarrow> bytes) \<Rightarrow> ('h \<Rightarrow> string \<Rightarrow> ctx \<Rightarrow> ctx) \<Rightarrow> bool \<Rightarrow> bool \<Rightarrow> time \<Rightarrow> ctx \<Rightarrow> Message \<Rightarrow> nat
   \<Rightarrow> ('v, 'h) Server \<Rightarrow> unit outcome \<times> ('v, 'h) Server" where
  "serveRequest lib gz bufs tagRPC wok cas now cx req conn s =
     (let cx = NewInComingContext cx (entries req);
          fullMethod = ''/'' @ ServiceName req @ ''/'' @ ServiceMethod req;
          (cx, es) = tag_all tagRPC fullMethod
             (InHeader (Metadata req) (compression_name (GetCompressType (Hdr req))) 11 fullMethod)
             (so_statsHandlers (s_opt s)) cx [];
          s = s\<lparr>s_log := s_log s @ es\<rparr>;
          cx = cx\<lparr>deadline := request_deadline now req (deadline cx)\<rparr>
      in case (if \<not> IsHeartBeat (Hdr req) then auth (s_opt s) cx req else Ok None) of
           Panic \<Rightarrow> (Panic, s)
         | Fail e \<Rightarrow> (Fail e, s)
         | Ok (Some err) \<Rightarrow>
             (let res = Clone req; res = res\<lparr>Hdr := SetMessageType (Hdr res) Response\<rparr>;
                  res = handleError (s_opt s) res err
              in case srv_sendResponse lib gz bufs wok conn (Some err) req res None s of
                   None \<Rightarrow> (Panic, s) | Some s \<Rightarrow> (Ok (), s))
         | Ok None \<Rightarrow> dispatch_request lib gz bufs wok cas (cx, req, conn) s)"

text \<open>A worker of the pool runs the request at the head of the queue.\<close>

definition worker_run ::
  "'v proto_lib \<Rightarrow> gzip_lib \<Rightarrow> (nat \<Rightarrow> bytes) \<Rightarrow> bool \<Rightarrow> int \<Rightarrow> ('v, 'h) Server \<Rightarrow> ('v, 'h) Server" where
  "worker_run lib gz bufs wok w s =
     (case s_pool s of
        None \<Rightarrow> s
      | Some p \<Rightarrow>
          (case worker_take w p of
             None \<Rightarrow> s
           | Some (t, p) \<Rightarrow>
               (let s = processOneRequest lib gz bufs wok t (s\<lparr>s_pool := Some p\<rparr>) in
                s\<lparr>s_pool := map_option (worker_finish w) (s_pool s)\<rparr>)))"

section \<open>Connections\<close>

definition readRequest :: "gzip_lib \<Rightarrow> ('c, 'v, 'r, 'h) serverOption \<Rightarrow> bytes \<Rightarrow> (goerr + Message) \<times> bytes" where
  "readRequest gz o1 r =
     (case Decode gz (so_maxReceiveMessageSize o1) r NewMessage of
        (Some e, _, rest) \<Rightarrow> (Inl e, rest)
      | (None, req, rest) \<Rightarrow> (Inr req, rest))"

lemma readRequest_shorter:
  assumes "readRequest gz o1 r = (Inr req, rest)"
  shows "length rest < length r"
proof -
  obtain m where d: "Decode gz (so_maxReceiveMessageSize o1) r NewMessage = (None, m, rest)"
    using assms by (auto simp: readRequest_def split: prod.splits option.splits)
  show ?thesis
  proof (cases "11 \<le> length r")
    case True
    from d True show ?thesis
      by (auto simp: Decode_def ReadFull_def Let_def split: if_splits prod.splits outcome.splits)
  next
    case False
    then have "ReadFull 11 r = (Inl EOF, []) \<or> ReadFull 11 r = (Inl UnexpectedEOF, [])" by (simp add: ReadFull_def)
    with d show ?thesis by (auto simp: Decode_def)
  qed
qed

text \<open>The loop of \<open>serveConn\<close> over the bytes that arrive before the connection ends.\<close>

function serve_stream ::
  "'v proto_lib \<Rightarrow> gzip_lib \<Rightarrow> (nat \<Rightarrow> bytes) \<Rightarrow> ('h \<Rightarrow> string \<Rightarrow> ctx \<Rightarrow> ctx) \<Rightarrow> bool \<Rightarrow> bool \<Rightarrow> time \<Rightarrow> ctx \<Rightarrow> nat \<Rightarrow> bytes
   \<Rightarrow> ('v, 'h) Server \<Rightarrow> unit outcome \<times> ('v, 'h) Server" where
  "serve_stream lib gz bufs tagRPC wok cas now cx conn r s =
     (if inShutdown s then (Ok (), s)
      else case readRequest gz (s_opt s) r of
             (Inl e, rest) \<Rightarrow> (Ok (), s)
           | (Inr req, rest) \<Rightarrow>
               (case serveRequest lib gz bufs tagRPC wok cas now cx req conn s of
                  (Panic, s) \<Rightarrow> (Panic, s)
                | (_, s) \<Rightarrow> serve_stream lib gz bufs tagRPC wok cas now cx conn rest s))"
  by pat_completeness auto
termination
  by (relation "measure (\<lambda>(lib, gz, bufs, tagRPC, wok, cas, now, cx, conn, r, s). length r)")
     (auto dest: readRequest_shorter [OF sym])

declare serve_stream.simps [simp del]

text \<open>\<open>acquired\<close> says whether the server's lock is got within five seconds.\<close>

definition removeConn :: "bool \<Rightarrow> nat \<Rightarrow> ('v, 'h) Server \<Rightarrow> ('v, 'h) Server" where
  "removeConn acquired conn s =
     (let s = (if acquired then s\<lparr>s_conns := map_option (removeAll conn) (s_conns s)\<rparr> else s)
      in s\<lparr>connMutexes := removeAll conn (connMutexes s), s_closed := s_closed s @ [conn]\<rparr>)"

definition serveConn ::
  "'v proto_lib \<Rightarrow> gzip_lib \<Rightarrow> (nat \<Rightarrow> bytes) \<Rightarrow> ('h \<Rightarrow> string \<Rightarrow> ctx \<Rightarrow> ctx) \<Rightarrow> ('h \<Rightarrow> ctx \<Rightarrow> ctx) \<Rightarrow> goerr option \<Rightarrow> bool \<Rightarrow> bool \<Rightarrow> bool
   \<Rightarrow> time \<Rightarrow> ctx \<Rightarrow> nat \<Rightarrow> bytes \<Rightarrow> ('v, 'h) Server \<Rightarrow> unit outcome \<times> ('v, 'h) Server" where
  "serveConn lib gz bufs tagRPC tagConn handshake wok cas acquired now cx conn r s =
     (let hs = so_statsHandlers (s_opt s);
          cx = fold tagConn hs cx;
          s = s\<lparr>s_connlog := s_connlog s @ replicate (length hs) (ConnBegin conn)\<rparr>
      in if inShutdown s then (Ok (), removeConn acquired conn s)
         else
           (let (res, s) =
              (case handshake of
                 Some e \<Rightarrow> (Ok (), s)
               | None \<Rightarrow> serve_stream lib gz bufs tagRPC wok cas now cx conn r s)
            in if res = Panic then (Panic, s)
               else (Ok (), removeConn acquired conn
                       (s\<lparr>s_connlog := s_connlog s @ replicate (length hs) (ConnEnd conn)\<rparr>))))"

section \<open>Listening and shutting down\<close>

definition makeListener :: "(string \<Rightarrow> bool \<Rightarrow> string \<Rightarrow> goerr + unit) \<Rightarrow> ('c, 'v, 'r, 'h) serverOption \<Rightarrow> string \<Rightarrow> string \<Rightarrow> goerr + unit" where
  "makeListener listen o1 network address =
     (if network \<in> {''tcp'', ''tcp4'', ''tcp6''} then listen network (so_tlsConfig o1) address
      else Inl (Errorf (''can not make listener for '' @ network)))"

datatype accept_result = AcceptError bool goerr | AcceptNil | AcceptConn nat

definition isRecoverableError :: "bool \<Rightarrow> bool \<Rightarrow> bool" where
  "isRecoverableError econnreset eintr \<longleftrightarrow> econnreset \<or> eintr"

definition next_delay :: "duration \<Rightarrow> duration" where
  "next_delay tempDelay =
     (let d = (if tempDelay = 0 then 5 * Millisecond else tempDelay * 2) in
      if d > 1 * Second then 1 * Second else d)"

text \<open>
  The accept loop on a sequence of results, the flag of an error telling whether it is a
  timeout or recoverable; \<open>stopped i\<close> says whether the wait after result \<open>i\<close> ends by shutdown.
  It returns the waits, the connections to serve, and the error it ends with, if it ends.
\<close>

fun accept_loop ::
  "(nat \<Rightarrow> bool) \<Rightarrow> nat \<Rightarrow> duration \<Rightarrow> accept_result list \<Rightarrow> ('v, 'h) Server
   \<Rightarrow> goerr option option \<times> duration list \<times> nat list \<times> ('v, 'h) Server" where
  "accept_loop stopped i tempDelay [] s = (None, [], [], s)"
| "accept_loop stopped i tempDelay (AcceptError tmp e # rs) s =
     (if tmp then
        (let d = next_delay tempDelay in
         if stopped i then (Some None, [d], [], s)
         else case accept_loop stopped (Suc i) d rs s of (r, ds, cs, s) \<Rightarrow> (r, d # ds, cs, s))
      else (Some (Some e), [], [], s))"
| "accept_loop stopped i tempDelay (AcceptNil # rs) s = accept_loop stopped (Suc i) tempDelay rs s"
| "accept_loop stopped i tempDelay (AcceptConn c # rs) s =
     (case s_conns s of
        Some cs0 \<Rightarrow>
          (case accept_loop stopped (Suc i) 0 rs (s\<lparr>s_conns := Some (List.insert c cs0)\<rparr>) of
             (r, ds, cs, s) \<Rightarrow> (r, ds, c # cs, s))
      | None \<Rightarrow> accept_loop stopped (Suc i) 0 rs (s\<lparr>s_closed := s_closed s @ [c]\<rparr>))"

definition serveListener ::
  "(nat \<Rightarrow> bool) \<Rightarrow> accept_result list \<Rightarrow> ('v, 'h) Server \<Rightarrow> goerr option option \<times> duration list \<times> nat list \<times> ('v, 'h) Server" where
  "serveListener stopped rs s = accept_loop stopped 0 0 rs (s\<lparr>s_serve := True\<rparr>)"

definition Serve ::
  "(string \<Rightarrow> bool \<Rightarrow> string \<Rightarrow> goerr + unit) \<Rightarrow> (nat \<Rightarrow> bool) \<Rightarrow> accept_result list \<Rightarrow> string \<Rightarrow> string \<Rightarrow> ('v, 'h) Server
   \<Rightarrow> goerr option option \<times> duration list \<times> nat list \<times> ('v, 'h) Server" where
  "Serve listen stopped rs network address s =
     (case makeListener listen (s_opt s) network address of
        Inl e \<Rightarrow> (Some (Some e), [], [], s)
      | Inr _ \<Rightarrow> serveListener stopped rs s)"

definition isShutDown :: "('v, 'h) Server \<Rightarrow> bool" where
  "isShutDown s = inShutdown s"

definition startShutdown :: "('v, 'h) Server \<Rightarrow> ('v, 'h) Server" where
  "startShutdown s = s\<lparr>inShutdown := True\<rparr>"

text \<open>
  \<open>stop\<close> with the requests still in the queue: the draining goroutine takes \<open>n\<close> of them out
  before its deadline, then the queue is closed; the waits for connections only delay it.
\<close>

definition stop :: "nat \<Rightarrow> ('v, 'h) Server \<Rightarrow> ('v, 'h) Server" where
  "stop n s =
     (let s = startShutdown s;
          s = s\<lparr>s_pool := map_option (\<lambda>p. drain_timeout ((drain_one ^^ n) p)) (s_pool s)\<rparr>
      in s\<lparr>s_conns := None\<rparr>)"

end
