(* ===== verification/Server_Props.thy ===== *)
theory Server_Props
  imports Server Client_Props
begin

text \<open>
  Properties of the server: what a request may touch, the one response a handled request
  gets, what stays unanswered, what authentication guards, the options that servers
  share, the names generated code calls and registers, and pools without workers.
\<close>

section \<open>What a request touches\<close>

text \<open>
  \<open>quiet conn s s'\<close>: nothing but the log, the mutex table, the pool and the bytes on
  connection \<open>conn\<close> differs, and those bytes only by some that were appended.
\<close>

definition quiet :: "nat \<Rightarrow> ('v, 'h) Server \<Rightarrow> ('v, 'h) Server \<Rightarrow> bool" where
  "quiet conn s s' \<longleftrightarrow> s_opt s' = s_opt s \<and> s_conns s' = s_conns s \<and> serviceMap s' = serviceMap s
     \<and> s_serve s' = s_serve s \<and> handleMsgCount s' = handleMsgCount s \<and> inShutdown s' = inShutdown s
     \<and> s_pool s' = s_pool s \<and> s_connlog s' = s_connlog s \<and> s_closed s' = s_closed s
     \<and> (\<forall>c. c \<noteq> conn \<longrightarrow> outbox s' c = outbox s c) \<and> (\<exists>bs. outbox s' conn = outbox s conn @ bs)"

lemma quiet_refl [simp]: "quiet conn s s"
  by (simp add: quiet_def)

lemma quiet_trans: "quiet conn a b \<Longrightarrow> quiet conn b c \<Longrightarrow> quiet conn a c"
  by (auto simp: quiet_def)

lemma quiet_notify [simp]: "quiet conn s (s_notify e s)"
  by (simp add: quiet_def s_notify_def)

lemma quiet_write [simp]: "quiet conn s (conn_Write wok conn buf s)"
  by (simp add: quiet_def conn_Write_def getConnMutex_def Let_def)

lemma quiet_out_event [simp]: "quiet conn s (out_event lib gz bufs res rep s)"
  by (simp add: out_event_def Let_def split: option.split sum.split)

lemma quiet_run: "run_handler df ev h s = (r, s') \<Longrightarrow> quiet conn s s'"
proof (induction h arbitrary: s)
  case (Dec v k)
  show ?case
  proof (cases "df v")
    case (Inl e)
    with Dec.IH [OF rangeI [of k "Inl e"]] Dec.prems show ?thesis by simp
  next
    case (Inr x)
    with Dec.IH [OF rangeI [of k "Inr x"], of "s_notify (ev x) s"] Dec.prems show ?thesis by (auto intro: quiet_trans [OF quiet_notify])
  qed
qed simp

lemma quiet_response: "srv_sendResponse lib gz bufs wok conn oe req res rep s = Some s' \<Longrightarrow> quiet conn s s'"
  by (auto simp: srv_sendResponse_def split: option.splits)

lemma quiet_finish:
  assumes "finish_request lib gz bufs wok conn req res rep err s = (b, s')"
  shows "quiet conn s s'"
proof -
  let ?s = "s_notify (End err) (out_event lib gz bufs res rep s)"
  have q: "quiet conn s ?s" by (rule quiet_trans [OF quiet_out_event quiet_notify])
  show ?thesis
  proof (cases "srv_sendResponse lib gz bufs wok conn err req res rep ?s")
    case None
    with assms q show ?thesis by (simp add: finish_request_def Let_def)
  next
    case (Some s2)
    with assms q quiet_response [OF Some] show ?thesis by (auto simp: finish_request_def Let_def intro: quiet_trans)
  qed
qed

lemma quiet_call:
  assumes "call_method lib gz bufs wok cx req conn srv s = (b, s')"
  shows "quiet conn s s'"
proof (cases "map_of srv (ServiceMethod req)")
  case None
  with assms show ?thesis by (auto simp: call_method_def Let_def dest: quiet_finish)
next
  case (Some h)
  obtain r s1 where r: "run_handler (decode_request lib bufs req) (in_event gz req) (h cx (srvMiddleware (s_opt s))) s = (r, s1)"
    by fastforce
  note q = quiet_run [OF r, of conn]
  show ?thesis
  proof (cases r)
    case (Returns rep err mds)
    with assms Some r obtain res where "finish_request lib gz bufs wok conn req res rep err s1 = (b, s')"
      by (auto simp: call_method_def Let_def)
    from quiet_trans [OF q quiet_finish [OF this]] show ?thesis .
  next
    case Panics
    with assms Some r q show ?thesis by (simp add: call_method_def Let_def)
  qed
qed

lemma quiet_body:
  assumes "process_body lib gz bufs wok cx req conn s = (b, s')"
  shows "quiet conn s s'"
proof -
  have n: "quiet conn s (s_notify Begin s)" by simp
  show ?thesis
  proof (cases "IsHeartBeat (Hdr req)")
    case True
    with assms n quiet_trans [OF n quiet_write] show ?thesis
      by (auto simp: process_body_def Let_def split: option.splits)
  next
    case False
    with assms n show ?thesis
      by (auto simp: process_body_def Let_def split: option.splits dest!: quiet_call intro: quiet_trans [OF n])
  qed
qed

lemma quiet_process: "quiet conn s (processOneRequest lib gz bufs wok (cx, req, conn) s)"
proof -
  let ?s = "s\<lparr>handleMsgCount := handleMsgCount s + 1\<rparr>"
  have "quiet conn ?s (snd (process_body lib gz bufs wok cx req conn ?s))" by (rule quiet_body [OF surjective_pairing])
  then show ?thesis by (simp add: processOneRequest_def Let_def quiet_def)
qed

section \<open>The response\<close>

lemma Clone_header: "header_ok (Hdr req) \<Longrightarrow> header_ok (Hdr (Clone req))"
  by (simp add: Clone_def)

lemma handleError_fields:
  "ServiceName (handleError o1 res e) = ServiceName res" "ServiceMethod (handleError o1 res e) = ServiceMethod res"
  "Hdr (handleError o1 res e) = SetMessageStatusType (Hdr res) Error_status"
  by (simp_all add: handleError_def Let_def)

lemma SetMeta_fold_Hdr: "Hdr (fold (\<lambda>md r. SetMeta r md) mds res) = Hdr res"
  by (induction mds arbitrary: res) (simp_all add: SetMeta_def)

lemma response_message_ok:
  "header_ok (Hdr res) \<Longrightarrow> header_ok (Hdr (response_message lib bufs o1 oe req res rep))"
  by (simp add: response_message_def Let_def handleError_fields split: option.split sum.split)

lemma Encode_frame_of:
  assumes "sized bufs" "header_ok (Hdr m)"
  shows "\<exists>m'. Encode gz bufs m = Some (m', frame_of gz bufs m)"
proof -
  obtain m' p where "choose_payload gz m = (m', p)" by fastforce
  from Encode_layout [OF assms this] show ?thesis by (simp add: frame_of_def)
qed

lemma srv_sendResponse_writes:
  assumes "sized bufs" "header_ok (Hdr res)"
  shows "srv_sendResponse lib gz bufs wok conn oe req res rep s =
    Some (conn_Write wok conn (frame_of gz bufs (response_message lib bufs (s_opt s) oe req res rep)) s)"
  using Encode_frame_of [OF assms(1) response_message_ok [OF assms(2)], of gz lib bufs "s_opt s" oe req rep]
  by (auto simp: srv_sendResponse_def)

text \<open>The response to a handled request, before its payload.\<close>

definition reply_head :: "('c, 'v, 'r, 'h) serverOption \<Rightarrow> Message \<Rightarrow> goerr option \<Rightarrow> MD list \<Rightarrow> Message" where
  "reply_head o1 req err mds =
     (let res = (Clone req)\<lparr>Hdr := SetMessageType (Hdr (Clone req)) Response\<rparr>;
          res = fold (\<lambda>md r. SetMeta r md) mds res
      in case err of Some e \<Rightarrow> handleError o1 res e | None \<Rightarrow> res)"

lemma reply_head_ok: "header_ok (Hdr req) \<Longrightarrow> header_ok (Hdr (reply_head o1 req err mds))"
  by (simp add: reply_head_def Let_def handleError_fields SetMeta_fold_Hdr Clone_header split: option.split)

lemma finish_request_outbox:
  assumes "sized bufs" "header_ok (Hdr res)"
  shows "outbox (snd (finish_request lib gz bufs True conn req res rep err s)) conn =
    outbox s conn @ frame_of gz bufs (response_message lib bufs (s_opt s) err req res rep)"
proof -
  let ?s = "s_notify (End err) (out_event lib gz bufs res rep s)"
  have q: "s_opt ?s = s_opt s" "outbox ?s = outbox s"
    by (simp_all add: s_notify_def out_event_def Let_def split: option.split sum.split)
  show ?thesis
    by (simp add: finish_request_def Let_def srv_sendResponse_writes [OF assms] q conn_Write_def getConnMutex_def)
qed

lemma run_handler_outbox: "run_handler df ev h s = (r, s') \<Longrightarrow> outbox s' = outbox s \<and> s_opt s' = s_opt s"
proof (induction h arbitrary: s)
  case (Dec v k)
  show ?case
  proof (cases "df v")
    case (Inl e)
    with Dec.IH [OF rangeI [of k "Inl e"]] Dec.prems show ?thesis by simp
  next
    case (Inr x)
    with Dec.IH [OF rangeI [of k "Inr x"], of "s_notify (ev x) s"] Dec.prems show ?thesis by (simp add: s_notify_def)
  qed
qed simp

lemma processOneRequest_outbox:
  fixes s :: "('v, 'h) Server"
  assumes "sized bufs" "header_ok (Hdr req)" "\<not> IsHeartBeat (Hdr req)"
    and "map_of (serviceMap s) (ServiceName req) = Some srv" "map_of srv (ServiceMethod req) = Some h"
    and run: "\<And>s1 :: ('v, 'h) Server. fst (run_handler (decode_request lib bufs req) (in_event gz req) (h cx (srvMiddleware (s_opt s))) s1)
           = Returns rep err mds"
  shows "outbox (processOneRequest lib gz bufs True (cx, req, conn) s) conn =
    outbox s conn @ frame_of gz bufs (response_message lib bufs (s_opt s) err req (reply_head (s_opt s) req err mds) rep)"
proof -
  let ?s = "s_notify Begin (s\<lparr>handleMsgCount := handleMsgCount s + 1\<rparr>)"
  have s: "serviceMap ?s = serviceMap s" "s_opt ?s = s_opt s" "outbox ?s = outbox s" by (simp_all add: s_notify_def)
  obtain s1 where r: "run_handler (decode_request lib bufs req) (in_event gz req) (h cx (srvMiddleware (s_opt s))) ?s
      = (Returns rep err mds, s1)" using run [of ?s] by (metis prod.collapse)
  from run_handler_outbox [OF r] s have s1: "outbox s1 = outbox s" "s_opt s1 = s_opt s" by simp_all
  have "snd (process_body lib gz bufs True cx req conn (s\<lparr>handleMsgCount := handleMsgCount s + 1\<rparr>)) =
      snd (finish_request lib gz bufs True conn req (reply_head (s_opt s) req err mds) rep err s1)"
    using assms(3-5) s s1 r by (simp add: process_body_def call_method_def reply_head_def Let_def cong: option.case_cong)
  then show ?thesis
    using finish_request_outbox [OF assms(1) reply_head_ok [OF assms(2)], of lib gz conn req "s_opt s" err mds rep err s1] s1
    by (simp add: processOneRequest_def Let_def)
qed

section \<open>Properties\<close>

text \<open>
  \<^bold>\<open>C32\<close>. Processing a request, whatever its handler does (panics included), disturbs
  nothing else: it appends bytes to its own connection only, and leaves the message
  counter, the services, the connections, the pool and the options as they were.
\<close>

theorem processOneRequest_isolated:
  "quiet conn s (processOneRequest lib gz bufs wok (cx, req, conn) s)"
  by (rule quiet_process)


text \<open>A server with one service, whose method adds a byte to its request.\<close>

definition echo_method :: "bytes proto_method" where
  "echo_method = \<lparr>pm_Name = ''m'', pm_GoName = ''m'', pm_In = [], pm_Out = [],
     pm_Impl = (\<lambda>(cx, v). Returns (Some (9 # v)) None [])\<rparr>"

definition echo_server :: "(bytes, unit) Server" where
  "echo_server = \<lparr>s_opt = defaultServerOption, s_conns = Some [0],
     serviceMap = [(''s'', [(''m'', genServerMethod ''s'' echo_method)])], s_serve = True, handleMsgCount = 0,
     inShutdown = False, s_pool = None, connMutexes = [], s_log = [], s_connlog = [], s_closed = [], outbox = (\<lambda>_. [])\<rparr>"

lemma echo_run:
  "fst (run_handler (decode_request raw_proto zeros sample_req) (in_event run_length_gz sample_req)
     (genServerMethod ''s'' echo_method sample_ctx (srvMiddleware (s_opt echo_server))) s1) = Returns (Some [9, 1, 2]) None []"
proof -
  have "decode_request raw_proto zeros sample_req [] = Inr [1, 2]" by code_simp
  then show ?thesis by (simp add: genServerMethod_def echo_method_def echo_server_def defaultServerOption_def)
qed


text \<open>
  \<^bold>\<open>C36\<close>. Requests that name nothing the server knows get no usable answer. For an unknown
  service the lookup result is dereferenced although it is nil, and the recovered panic
  writes nothing at all. For an unknown method of a known service a frame is written, but
  its type is still \<open>Request\<close>, so that the client rejects it as invalid.
\<close>

theorem unknown_target_unanswered:
  assumes "sized bufs" and "header_ok (Hdr req)" and "\<not> IsHeartBeat (Hdr req)" and "GetMessageType (Hdr req) = Request"
  shows "(map_of (serviceMap s) (ServiceName req) = None \<longrightarrow>
      outbox (processOneRequest lib gz bufs True (cx, req, conn) s) = outbox s)
    \<and> (\<forall>srv. map_of (serviceMap s) (ServiceName req) = Some srv \<and> map_of srv (ServiceMethod req) = None \<longrightarrow>
      outbox (processOneRequest lib gz bufs True (cx, req, conn) s) conn =
        outbox s conn @ frame_of gz bufs (Clone req)
      \<and> GetMessageType (Hdr (Clone req)) = Request
      \<and> fst (read_reply lib gz bufs v0 (Clone req) c) = Inl (Errorf ''invalid response message''))"
proof -
  let ?s = "s\<lparr>handleMsgCount := handleMsgCount s + 1\<rparr>"
  have n: "serviceMap (s_notify Begin ?s) = serviceMap s" "outbox (s_notify Begin ?s) = outbox s" by (simp_all add: s_notify_def)
  have "is_bit None_compress" by (simp add: is_bit_def None_compress_def)
  with assms(2,4) have t: "GetMessageType (Hdr (Clone req)) = Request" by (simp add: Clone_def compress_other_fields)
  have "Request \<noteq> Response" by (simp add: Request_def Response_def)
  then have rr: "fst (read_reply lib gz bufs v0 (Clone req) c) = Inl (Errorf ''invalid response message'')"
    using t by (simp add: read_reply_def)
  have none: "map_of (serviceMap s) (ServiceName req) = None \<Longrightarrow>
      outbox (processOneRequest lib gz bufs True (cx, req, conn) s) = outbox s"
    using assms(3) n by (simp add: processOneRequest_def process_body_def Let_def)
  have some: "outbox (processOneRequest lib gz bufs True (cx, req, conn) s) conn = outbox s conn @ frame_of gz bufs (Clone req)"
    if "map_of (serviceMap s) (ServiceName req) = Some srv" "map_of srv (ServiceMethod req) = None" for srv
    using that assms(3) n finish_request_outbox [OF assms(1) Clone_header [OF assms(2)], of lib gz conn req None None "s_notify Begin ?s"]
    by (simp add: processOneRequest_def process_body_def call_method_def Let_def response_message_def slice_Len_def)
  from none some t rr show ?thesis by blast
qed

theorem unknown_target_unanswered_witness:
  "outbox (processOneRequest raw_proto run_length_gz zeros True (sample_ctx, sample_req, 0) (echo_server\<lparr>serviceMap := []\<rparr>))
     = outbox echo_server"
proof -
  have h: "header_ok (Hdr sample_req)" "\<not> IsHeartBeat (Hdr sample_req)" "GetMessageType (Hdr sample_req) = Request" by code_simp+
  show ?thesis using unknown_target_unanswered [OF sized_zeros h, of "echo_server\<lparr>serviceMap := []\<rparr>"] by simp
qed

section \<open>Authentication\<close>

lemma tag_all_log: "snd (tag_all tagRPC full ev hs cx es) = es @ replicate (length hs) ev"
  by (induction hs arbitrary: cx es) (simp_all add: replicate_app_Cons_same)

lemma serveRequest_eq:
  fixes s :: "('v, 'h) Server"
  assumes "\<not> IsHeartBeat (Hdr req)"
  obtains cx2 s1 where "s_opt s1 = s_opt s" "outbox s1 = outbox s" "s_pool s1 = s_pool s" "serviceMap s1 = serviceMap s"
    "quiet conn s s1" "begins (s_log s1) = begins (s_log s)"
    "serveRequest lib gz bufs tagRPC wok cas now cx req conn s =
      (case auth (s_opt s) cx2 req of
         Panic \<Rightarrow> (Panic, s1) | Fail e \<Rightarrow> (Fail e, s1)
       | Ok (Some err) \<Rightarrow>
           (case srv_sendResponse lib gz bufs wok conn (Some err) req (reply_head (s_opt s) req (Some err) []) None s1 of
              None \<Rightarrow> (Panic, s1) | Some s \<Rightarrow> (Ok (), s))
       | Ok None \<Rightarrow> dispatch_request lib gz bufs wok cas (cx2, req, conn) s1)"
proof -
  define full where "full = ''/'' @ ServiceName req @ ''/'' @ ServiceMethod req"
  define ev :: "'v rpc_event" where "ev = InHeader (Metadata req) (compression_name (GetCompressType (Hdr req))) 11 full"
  obtain cx1 es where t: "tag_all tagRPC full ev (so_statsHandlers (s_opt s)) (NewInComingContext cx (entries req)) [] = (cx1, es)"
    by fastforce
  have es: "es = replicate (length (so_statsHandlers (s_opt s))) ev"
    using tag_all_log [of tagRPC full ev "so_statsHandlers (s_opt s)" "NewInComingContext cx (entries req)" "[]"] t by simp
  define s1 where "s1 = s\<lparr>s_log := s_log s @ es\<rparr>"
  define cx2 where "cx2 = cx1\<lparr>deadline := request_deadline now req (deadline cx1)\<rparr>"
  show thesis
  proof (rule that [of s1 cx2])
    show "s_opt s1 = s_opt s" "outbox s1 = outbox s" "s_pool s1 = s_pool s" "serviceMap s1 = serviceMap s"
      "quiet conn s s1" "begins (s_log s1) = begins (s_log s)"
      by (simp_all add: s1_def quiet_def es ev_def begins_def filter_replicate)
  qed (use assms t [unfolded ev_def full_def] in \<open>simp add: serveRequest_def Let_def reply_head_def s1_def cx2_def
        split: outcome.split option.split\<close>)
qed

text \<open>
  \<^bold>\<open>C31\<close>. With an \<open>AuthFunc\<close> no handler runs for a request it rejects: the request is
  answered with its error and nothing is begun, queued or called. A request without a
  token at all, however, ends the server process, because \<open>token[0]\<close> is evaluated in a
  goroutine that recovers nothing.
\<close>

theorem auth_guards:
  assumes "AuthFunc (s_opt s) = Some f" and "\<not> IsHeartBeat (Hdr req)" and "sized bufs" and "header_ok (Hdr req)"
  shows "(md_index (entries req) AuthKey = [] \<longrightarrow>
      fst (serveRequest lib gz bufs tagRPC wok cas now cx req conn s) = Panic)
    \<and> (\<forall>token rest err. md_index (entries req) AuthKey = token # rest \<and> (\<forall>cx. f cx req token = Some err) \<longrightarrow>
      (\<exists>s'. serveRequest lib gz bufs tagRPC wok cas now cx req conn s = (Ok (), s')
        \<and> quiet conn s s' \<and> begins (s_log s') = begins (s_log s)
        \<and> (wok \<longrightarrow> outbox s' conn = outbox s conn @ frame_of gz bufs (reply_head (s_opt s) req (Some err) []))))"
proof -
  obtain cx2 s1 where s1: "s_opt s1 = s_opt s" "outbox s1 = outbox s" "quiet conn s s1" "begins (s_log s1) = begins (s_log s)"
    and sr: "serveRequest lib gz bufs tagRPC wok cas now cx req conn s =
      (case auth (s_opt s) cx2 req of
         Panic \<Rightarrow> (Panic, s1) | Fail e \<Rightarrow> (Fail e, s1)
       | Ok (Some err) \<Rightarrow>
           (case srv_sendResponse lib gz bufs wok conn (Some err) req (reply_head (s_opt s) req (Some err) []) None s1 of
              None \<Rightarrow> (Panic, s1) | Some s \<Rightarrow> (Ok (), s))
       | Ok None \<Rightarrow> dispatch_request lib gz bufs wok cas (cx2, req, conn) s1)"
    by (rule serveRequest_eq [OF assms(2)])
  have "\<exists>s'. serveRequest lib gz bufs tagRPC wok cas now cx req conn s = (Ok (), s')
        \<and> quiet conn s s' \<and> begins (s_log s') = begins (s_log s)
        \<and> (wok \<longrightarrow> outbox s' conn = outbox s conn @ frame_of gz bufs (reply_head (s_opt s) req (Some err) []))"
    if "md_index (entries req) AuthKey = token # rest" "\<forall>cx. f cx req token = Some err" for token rest err
  proof -
    have a: "auth (s_opt s) cx2 req = Ok (Some err)" using assms(1) that by (simp add: auth_def)
    let ?s = "conn_Write wok conn (frame_of gz bufs (reply_head (s_opt s) req (Some err) [])) s1"
    have "srv_sendResponse lib gz bufs wok conn (Some err) req (reply_head (s_opt s) req (Some err) []) None s1 = Some ?s"
      using srv_sendResponse_writes [OF assms(3) reply_head_ok [OF assms(4)], of lib gz wok conn "Some err" req "s_opt s" "Some err" "[]" None s1]
      by (simp add: response_message_def slice_Len_def)
    moreover have "begins (s_log ?s) = begins (s_log s1)" "wok \<longrightarrow> outbox ?s conn = outbox s1 conn @ frame_of gz bufs (reply_head (s_opt s) req (Some err) [])"
      by (simp_all add: conn_Write_def getConnMutex_def Let_def)
    ultimately show ?thesis using a sr s1 quiet_trans [OF s1(3) quiet_write] by auto
  qed
  moreover have "md_index (entries req) AuthKey = [] \<Longrightarrow> auth (s_opt s) cx2 req = Panic" using assms(1) by (simp add: auth_def)
  ultimately show ?thesis using sr by auto
qed

definition guarded_server :: "(bytes, unit) Server" where
  "guarded_server = echo_server\<lparr>s_opt := (s_opt echo_server)\<lparr>AuthFunc := Some (\<lambda>_ _ _. Some (Errorf ''denied''))\<rparr>\<rparr>"

theorem auth_guards_witness:
  "fst (serveRequest raw_proto run_length_gz zeros (\<lambda>_ _ cx. cx) True True 0 sample_ctx sample_req 0 guarded_server) = Panic"
proof -
  have h: "\<not> IsHeartBeat (Hdr sample_req)" "header_ok (Hdr sample_req)" "md_index (entries sample_req) AuthKey = []" by code_simp+
  have "AuthFunc (s_opt guarded_server) = Some (\<lambda>_ _ _. Some (Errorf ''denied''))" by (simp add: guarded_server_def)
  from auth_guards [OF this h(1) sized_zeros h(2)] h(3) show ?thesis by blast
qed

section \<open>Shared options\<close>

text \<open>
  Servers share their options: a server made with a chain of middlewares leaves
  them in the defaults, so that a second server made with no options at all runs each of
  them, the whole chain twice, and giving the second one a middleware panics.
\<close>

theorem server_options_shared:
  assumes "mws \<noteq> []"
  shows "\<exists>shared s1 shared' s2 mw. NewServer [WithChainMiddleware mws] defaultServerOption = Ok (shared, s1)
    \<and> NewServer [] shared = Ok (shared', s2) \<and> srvMiddleware (s_opt s2) = Some mw
    \<and> (\<forall>req info h. mw req info h = wrap_all (map (\<lambda>m r. m r info) (mws @ mws)) h req)
    \<and> NewServer [WithMiddleware m0] shared = Panic"
proof -
  obtain mw1 where m1: "chainServerMiddlewares None mws = Some mw1"
    and w1: "\<forall>req info h. mw1 req info h = wrap_all (map (\<lambda>m r. m r info) mws) h req"
    using server_chain_Some [of None mws] assms by (auto simp: prepend_def)
  obtain mw2 where m2: "chainServerMiddlewares (Some mw1) mws = Some mw2"
    and w2: "\<forall>req info h. mw2 req info h = wrap_all (map (\<lambda>m r. m r info) (mw1 # mws)) h req"
    using server_chain_Some [of "Some mw1" mws] by (auto simp: prepend_def)
  have w: "mw2 req info h = wrap_all (map (\<lambda>m r. m r info) (mws @ mws)) h req" for req info h
    using w1 w2 by (simp only: list.map wrap_all_simps map_append wrap_all_append)
  define o1 :: "(ctx, 'a, 'a method_result, 'b) serverOption" where
    "o1 = defaultServerOption\<lparr>so_chainMiddlewares := mws, srvMiddleware := Some mw1\<rparr>"
  have n1: "\<exists>s1. NewServer [WithChainMiddleware mws] defaultServerOption = Ok (o1, s1)"
    by (simp add: NewServer_def WithChainMiddleware_def Let_def o1_def m1 defaultServerOption_def)
  have n2: "\<exists>shared' s2. NewServer [] o1 = Ok (shared', s2) \<and> srvMiddleware (s_opt s2) = Some mw2"
    by (simp add: NewServer_def Let_def o1_def m2)
  have n3: "NewServer [WithMiddleware m0] o1 = Panic"
    by (simp add: NewServer_def WithMiddleware_def o1_def)
  from n1 n2 n3 w show ?thesis by blast
qed

definition tag_mw :: "byte \<Rightarrow> bytes smw" where
  "tag_mw b args info h = h (fst args, b # snd args)"

theorem server_options_shared_witness:
  "\<exists>shared s1 shared' s2 mw. NewServer [WithChainMiddleware [tag_mw 1]] defaultServerOption = Ok (shared, s1 :: (bytes, unit) Server)
    \<and> NewServer [] shared = Ok (shared', s2 :: (bytes, unit) Server) \<and> srvMiddleware (s_opt s2) = Some mw
    \<and> (\<forall>cx v info h. mw (cx, v) info h = h (cx, 1 # 1 # v))"
proof -
  from server_options_shared [of "[tag_mw 1]" "tag_mw 2"]
  obtain shared shared' mw and s1 s2 :: "(bytes, unit) Server" where
    "NewServer [WithChainMiddleware [tag_mw 1]] defaultServerOption = Ok (shared, s1)"
    "NewServer [] shared = Ok (shared', s2)" "srvMiddleware (s_opt s2) = Some mw"
    and w: "\<forall>req info h. mw req info h = wrap_all (map (\<lambda>m r. m r info) ([tag_mw 1] @ [tag_mw 1])) h req"
    by blast
  moreover have "\<forall>cx v info h. mw (cx, v) info h = h (cx, 1 # 1 # v)" using w by (simp add: tag_mw_def)
  ultimately show ?thesis by blast
qed

section \<open>Pools without workers\<close>

text \<open>
  A server given a worker pool of size one, two or three starts no worker, and no
  course of submissions, scaling and shutdown ever starts one: the requests its queue
  takes are never run, they leave it only when \<open>stop\<close> throws them away.
\<close>

theorem small_pool_never_serves:
  assumes "1 \<le> sz" and "sz \<le> 3" and "NewServer [WithWorkerPool sz] defaultServerOption = Ok (shared, s)"
  shows "\<exists>p0. s_pool s = Some p0 \<and>
    (\<forall>p. reach (\<lambda>p. p = p0) worker_step p \<longrightarrow> running p = [] \<and> (\<forall>x \<in> set (taken p). snd x = Drained))"
proof -
  have z: "sz div 4 = 0" using assms(1,2) by simp
  then obtain mx cap where p0: "s_pool s = Some (initFunctionWorkerPool 0 mx cap)"
    using assms(1,3) by (auto simp: NewServer_def WithWorkerPool_def Let_def)
  have "no_workers p" if "reach (\<lambda>p. p = initFunctionWorkerPool 0 mx cap) worker_step p" for p :: "task WorkerPool"
    using that
  proof (induction rule: reach.induct)
    case (reach_init p)
    then have "empty_init p" unfolding empty_init_def by blast
    then show ?case by (rule nw.init_inv)
  next
    case (reach_step p q)
    from nw.step_inv [OF reach_step.hyps(2) reach_step.IH] show ?case .
  qed
  then have "\<forall>p :: task WorkerPool. reach (\<lambda>p. p = initFunctionWorkerPool 0 mx cap) worker_step p \<longrightarrow>
      running p = [] \<and> (\<forall>x \<in> set (taken p). snd x = Drained)" unfolding no_workers_def by blast
  with p0 show ?thesis by blast
qed

theorem small_pool_never_serves_witness:
  "\<exists>shared s p0. NewServer [WithWorkerPool 3] defaultServerOption = Ok (shared, s :: (bytes, unit) Server) \<and> s_pool s = Some p0 \<and>
    (\<forall>p. reach (\<lambda>p. p = p0) worker_step p \<longrightarrow> running p = [])"
proof -
  obtain shared and s :: "(bytes, unit) Server" where n: "NewServer [WithWorkerPool 3] defaultServerOption = Ok (shared, s)"
    by (simp add: NewServer_def WithWorkerPool_def Let_def)
  from small_pool_never_serves [OF _ _ n] n show ?thesis by fastforce
qed

section \<open>Generated code\<close>

lemma newCall_simple:
  assumes "CHR ''/'' \<notin> set mtd" "svc \<noteq> []" "hd svc \<noteq> CHR ''/''"
  shows "newCall (svc @ ''/'' @ mtd) args =
    Inr (zero_Call\<lparr>Call_ServiceName := svc, Call_ServiceMethod := mtd, Call_req := args, Call_Done := Some 0\<rparr>)"
proof -
  have "LastIndex (svc @ ''/'' @ mtd) (CHR ''/'') = Some (length svc)"
    using assms(1) by (simp add: LastIndex_Some)
  moreover have "(svc @ ''/'' @ mtd) ! 0 \<noteq> CHR ''/''" using assms(2,3) by (simp add: nth_append hd_conv_nth)
  ultimately show ?thesis by (simp add: newCall_def Let_def)
qed

lemma registered_methods:
  "map_of (fold (\<lambda>(name, h) ms. AList.update name h ms) xs acc) = map_of acc ++ map_of (rev xs)"
  by (induction xs arbitrary: acc) (auto simp: update_conv' map_add_def fun_eq_iff split: option.split)

text \<open>
  \<^bold>\<open>C37\<close>. Generated clients and servers meet only if a method's name in the proto file is
  already its Go name. The client calls the Go name while the service description
  registers the proto name: with equal names the call reaches its handler, and a method
  whose Go name is no proto name of the service is never found.
\<close>

theorem generated_names:
  assumes "m \<in> set ms" and "distinct (map pm_Name ms)" and "CHR ''/'' \<notin> set (pm_GoName m)" and "svc \<noteq> []" and "hd svc \<noteq> CHR ''/''"
    and "register (genServiceDesc svc ms) s = Ok s'" and "newCall (genFullMethod svc m) args = Inr call"
  shows "\<exists>srv. map_of (serviceMap s') (Call_ServiceName call) = Some srv
    \<and> (pm_GoName m = pm_Name m \<longrightarrow> map_of srv (Call_ServiceMethod call) = Some (genServerMethod svc m))
    \<and> (pm_GoName m \<notin> pm_Name ` set ms \<longrightarrow> map_of srv (Call_ServiceMethod call) = None)"
proof -
  let ?xs = "map (\<lambda>m. (pm_Name m, genServerMethod svc m)) ms"
  have c: "Call_ServiceName call = svc" "Call_ServiceMethod call = pm_GoName m"
    using assms(7) newCall_simple [OF assms(3-5), of args] by (auto simp: genFullMethod_def)
  define srv where "srv = fold (\<lambda>(name, h) ms. AList.update name h ms) ?xs []"
  have "map_of (serviceMap s') svc = Some srv"
    using assms(6) by (auto simp: register_def genServiceDesc_def srv_def update_conv' split: if_splits)
  moreover have srv: "map_of srv = map_of (rev ?xs)" unfolding srv_def registered_methods by simp
  moreover have "map_of (rev ?xs) (pm_Name m) = Some (genServerMethod svc m)"
    using assms(1,2) by (intro map_of_is_SomeI) (auto simp: rev_map [symmetric] comp_def)
  moreover have "pm_GoName m \<notin> pm_Name ` set ms \<Longrightarrow> map_of (rev ?xs) (pm_GoName m) = None"
    by (auto simp: map_of_eq_None_iff)
  ultimately show ?thesis using c by auto
qed

definition snake_method :: "bytes proto_method" where
  "snake_method = echo_method\<lparr>pm_Name := ''say_hi'', pm_GoName := ''SayHi''\<rparr>"

theorem generated_names_witness:
  "\<exists>s' srv call. register (genServiceDesc ''s'' [snake_method]) (echo_server\<lparr>serviceMap := [], s_serve := False\<rparr>) = Ok s'
    \<and> newCall (genFullMethod ''s'' snake_method) (Some [1 :: byte]) = Inr call
    \<and> map_of (serviceMap s') (Call_ServiceName call) = Some srv \<and> map_of srv (Call_ServiceMethod call) = None"
proof -
  obtain s' where r: "register (genServiceDesc ''s'' [snake_method]) (echo_server\<lparr>serviceMap := [], s_serve := False\<rparr>) = Ok s'"
    by (simp add: register_def)
  obtain call where c: "newCall (genFullMethod ''s'' snake_method) (Some [1 :: byte]) = Inr call"
    by (simp add: newCall_def genFullMethod_def snake_method_def Let_def)
  have "\<exists>srv. map_of (serviceMap s') (Call_ServiceName call) = Some srv \<and> map_of srv (Call_ServiceMethod call) = None"
    using generated_names [OF _ _ _ _ _ r c] by (simp add: snake_method_def)
  with r c show ?thesis by blast
qed

end
