(* ===== verification/ServerStop.thy ===== *)
theory ServerStop
  imports Server_Props
begin

text \<open>
  The life of connections and the shutdown of the server (\<^verbatim>\<open>server.go\<close>: \<open>serveListener\<close>, \<open>serveConn\<close>, \<open>removeConn\<close>,
  \<open>stop\<close>) at the level of goroutines. Theory \<open>Server\<close> has what one of these functions does when it runs alone; here
  they run interleaved, and what matters is who waits for whom: for the mutex \<open>s.mu\<close>, for the wait group
  \<open>serveWG\<close>, for the condition variable \<open>s.cv\<close>, for a channel, or for a timer.

  A critical section that is not left before it is over is one step, which needs the mutex to be free. The exception is
  \<open>removeConn\<close>, where one goroutine takes the mutex and another one releases it. Timers may fire
  only if the flag \<open>slow\<close> of the step relation is set.
\<close>

section \<open>State\<close>

text \<open>Where the goroutine of a connection is: from \<open>Accept\<close> to the return of \<open>serveConn\<close>.\<close>

datatype conn_pc = Unknown | Accepted | Listed | Starting | Reading | Removing | Released | Refused

text \<open>The inner goroutine of \<open>removeConn\<close>, which takes the mutex, and the outer one, which waits for it.\<close>

datatype helper_pc = NoHelper | Wants | Holds | Handed
datatype remover_pc = NoRemover | Selecting | Cleaning | Finished

text \<open>The function \<open>stop\<close>, and the goroutine in which a graceful one waits for the connections.\<close>

datatype stop_pc = Running | ShuttingDown | ListenerClosed | Draining | Clearing | Stopped
datatype waiter_pc = NoWaiter | Checks | Waits | Signalled

record stop_state =
  st_mu :: "nat option"
  st_conns :: "nat list option"
  st_closed :: "nat list"
  st_next :: nat
  st_lis :: bool
  st_done :: bool
  st_wg :: nat
  st_waitDone :: bool
  st_pc :: "nat \<Rightarrow> conn_pc"
  st_helper :: "nat \<Rightarrow> helper_pc"
  st_remover :: "nat \<Rightarrow> remover_pc"
  st_stop :: stop_pc
  st_waiter :: waiter_pc

definition stop_init :: "stop_state \<Rightarrow> bool" where
  "stop_init s \<longleftrightarrow> s = \<lparr>st_mu = None, st_conns = Some [], st_closed = [], st_next = 0, st_lis = True, st_done = False, st_wg = 0, st_waitDone = False,
     st_pc = (\<lambda>_. Unknown), st_helper = (\<lambda>_. NoHelper), st_remover = (\<lambda>_. NoRemover), st_stop = Running, st_waiter = NoWaiter\<rparr>"

section \<open>Connections\<close>

text \<open>The loop of \<open>serveListener\<close>: \<open>Accept\<close>, the entry into \<open>s.conns\<close> under the mutex, and the start of the goroutine.\<close>

definition accept_next :: "stop_state \<Rightarrow> stop_state option" where
  "accept_next s =
     (if st_lis s \<and> (\<forall>c < st_next s. st_pc s c \<notin> {Accepted, Listed})
      then Some (s\<lparr>st_next := st_next s + 1, st_pc := (st_pc s)(st_next s := Accepted)\<rparr>) else None)"

definition list_conn :: "nat \<Rightarrow> stop_state \<Rightarrow> stop_state option" where
  "list_conn c s =
     (if st_pc s c = Accepted \<and> st_mu s = None
      then (case st_conns s of
              Some cs \<Rightarrow> Some (s\<lparr>st_conns := Some (List.insert c cs), st_pc := (st_pc s)(c := Listed)\<rparr>)
            | None \<Rightarrow> Some (s\<lparr>st_closed := st_closed s @ [c], st_pc := (st_pc s)(c := Refused)\<rparr>))
      else None)"

definition start_conn :: "nat \<Rightarrow> stop_state \<Rightarrow> stop_state option" where
  "start_conn c s =
     (if st_pc s c = Listed then Some (s\<lparr>st_wg := st_wg s + 1, st_pc := (st_pc s)(c := Starting)\<rparr>) else None)"

text \<open>\<open>removeConn\<close> starts its two goroutines and waits.\<close>

definition call_removeConn :: "nat \<Rightarrow> stop_state \<Rightarrow> stop_state" where
  "call_removeConn c s =
     s\<lparr>st_pc := (st_pc s)(c := Removing), st_helper := (st_helper s)(c := Wants), st_remover := (st_remover s)(c := Selecting)\<rparr>"

text \<open>\<open>serveConn\<close>: a server that shuts down serves no new connection; the read loop ends when it likes.\<close>

definition begin_conn :: "nat \<Rightarrow> stop_state \<Rightarrow> stop_state option" where
  "begin_conn c s =
     (if st_pc s c = Starting
      then Some (if st_done s then call_removeConn c s else s\<lparr>st_pc := (st_pc s)(c := Reading)\<rparr>)
      else None)"

definition end_conn :: "nat \<Rightarrow> stop_state \<Rightarrow> stop_state option" where
  "end_conn c s = (if st_pc s c = Reading then Some (call_removeConn c s) else None)"

definition take_lock :: "nat \<Rightarrow> stop_state \<Rightarrow> stop_state option" where
  "take_lock c s =
     (if st_helper s c = Wants \<and> st_mu s = None
      then Some (s\<lparr>st_mu := Some c, st_helper := (st_helper s)(c := Holds)\<rparr>) else None)"

text \<open>The branch of the channel: the connection is deleted, waiters are woken, and the mutex is released.\<close>

definition delete_conn :: "nat \<Rightarrow> stop_state \<Rightarrow> stop_state option" where
  "delete_conn c s =
     (if st_remover s c = Selecting \<and> st_helper s c = Holds
      then Some (s\<lparr>st_conns := map_option (removeAll c) (st_conns s),
                   st_waiter := (if st_waiter s = Waits then Checks else st_waiter s),
                   st_mu := None, st_helper := (st_helper s)(c := Handed), st_remover := (st_remover s)(c := Cleaning)\<rparr>)
      else None)"

text \<open>The branch of the timer.\<close>

definition lock_timeout :: "nat \<Rightarrow> stop_state \<Rightarrow> stop_state option" where
  "lock_timeout c s =
     (if st_remover s c = Selecting then Some (s\<lparr>st_remover := (st_remover s)(c := Cleaning)\<rparr>) else None)"

definition close_conn :: "nat \<Rightarrow> stop_state \<Rightarrow> stop_state option" where
  "close_conn c s =
     (if st_remover s c = Cleaning
      then Some (s\<lparr>st_closed := st_closed s @ [c], st_remover := (st_remover s)(c := Finished)\<rparr>) else None)"

text \<open>\<open>removeConn\<close> returns when its goroutine is done or after ten seconds, and with it \<open>serveConn\<close>.\<close>

definition release_conn :: "bool \<Rightarrow> nat \<Rightarrow> stop_state \<Rightarrow> stop_state option" where
  "release_conn timeout c s =
     (if st_pc s c = Removing \<and> (timeout \<or> st_remover s c = Finished)
      then Some (s\<lparr>st_wg := st_wg s - 1, st_pc := (st_pc s)(c := Released)\<rparr>) else None)"

section \<open>Shutdown\<close>

definition begin_stop :: "stop_state \<Rightarrow> stop_state option" where
  "begin_stop s = (if st_stop s = Running then Some (s\<lparr>st_done := True, st_stop := ShuttingDown\<rparr>) else None)"

definition close_listener :: "stop_state \<Rightarrow> stop_state option" where
  "close_listener s =
     (if st_stop s = ShuttingDown \<and> st_mu s = None then Some (s\<lparr>st_lis := False, st_stop := ListenerClosed\<rparr>) else None)"

definition signal_served :: "stop_state \<Rightarrow> stop_state option" where
  "signal_served s =
     (if st_stop s \<notin> {Running, ShuttingDown} \<and> \<not> st_waitDone s \<and> st_wg s = 0 then Some (s\<lparr>st_waitDone := True\<rparr>) else None)"

definition wait_serving :: "bool \<Rightarrow> bool \<Rightarrow> stop_state \<Rightarrow> stop_state option" where
  "wait_serving timeout graceful s =
     (if st_stop s = ListenerClosed \<and> (timeout \<or> st_waitDone s)
      then Some (if graceful then s\<lparr>st_stop := Draining, st_waiter := Checks\<rparr> else s\<lparr>st_stop := Clearing\<rparr>)
      else None)"

text \<open>The waiting goroutine: the loop around \<open>s.cv.Wait()\<close>, which releases the mutex.\<close>

definition check_conns :: "stop_state \<Rightarrow> stop_state option" where
  "check_conns s =
     (if st_waiter s = Checks \<and> st_mu s = None
      then Some (s\<lparr>st_waiter := (if st_conns s \<in> {None, Some []} then Signalled else Waits)\<rparr>) else None)"

definition wait_drained :: "bool \<Rightarrow> stop_state \<Rightarrow> stop_state option" where
  "wait_drained timeout s =
     (if st_stop s = Draining \<and> (timeout \<or> st_waiter s = Signalled) then Some (s\<lparr>st_stop := Clearing\<rparr>) else None)"

definition clear_conns :: "stop_state \<Rightarrow> stop_state option" where
  "clear_conns s =
     (if st_stop s = Clearing \<and> st_mu s = None then Some (s\<lparr>st_conns := None, st_stop := Stopped\<rparr>) else None)"

text \<open>The steps of the goroutines of one connection, and all steps. A branch of a timer is taken only if \<open>slow\<close> is set.\<close>

inductive conn_step :: "bool \<Rightarrow> nat \<Rightarrow> stop_state \<Rightarrow> stop_state \<Rightarrow> bool" for slow c where
  list: "list_conn c s = Some t \<Longrightarrow> conn_step slow c s t"
| start: "start_conn c s = Some t \<Longrightarrow> conn_step slow c s t"
| begin_serving: "begin_conn c s = Some t \<Longrightarrow> conn_step slow c s t"
| end_serving: "end_conn c s = Some t \<Longrightarrow> conn_step slow c s t"
| take: "take_lock c s = Some t \<Longrightarrow> conn_step slow c s t"
| delete: "delete_conn c s = Some t \<Longrightarrow> conn_step slow c s t"
| timeout: "slow \<Longrightarrow> lock_timeout c s = Some t \<Longrightarrow> conn_step slow c s t"
| close: "close_conn c s = Some t \<Longrightarrow> conn_step slow c s t"
| release: "b \<longrightarrow> slow \<Longrightarrow> release_conn b c s = Some t \<Longrightarrow> conn_step slow c s t"

inductive stop_step :: "bool \<Rightarrow> bool \<Rightarrow> stop_state \<Rightarrow> stop_state \<Rightarrow> bool" for slow graceful where
  accept: "accept_next s = Some t \<Longrightarrow> stop_step slow graceful s t"
| conn: "conn_step slow c s t \<Longrightarrow> stop_step slow graceful s t"
| begin_stop: "begin_stop s = Some t \<Longrightarrow> stop_step slow graceful s t"
| close_listener: "close_listener s = Some t \<Longrightarrow> stop_step slow graceful s t"
| served: "signal_served s = Some t \<Longrightarrow> stop_step slow graceful s t"
| wait_serving: "b \<longrightarrow> slow \<Longrightarrow> wait_serving b graceful s = Some t \<Longrightarrow> stop_step slow graceful s t"
| check: "check_conns s = Some t \<Longrightarrow> stop_step slow graceful s t"
| drained: "b \<longrightarrow> slow \<Longrightarrow> wait_drained b s = Some t \<Longrightarrow> stop_step slow graceful s t"
| clear: "clear_conns s = Some t \<Longrightarrow> stop_step slow graceful s t"

lemmas conn_defs = list_conn_def start_conn_def begin_conn_def end_conn_def call_removeConn_def take_lock_def
  delete_conn_def lock_timeout_def close_conn_def release_conn_def
lemmas stop_defs = begin_stop_def close_listener_def signal_served_def wait_serving_def check_conns_def wait_drained_def clear_conns_def

end
