(* ===== verification/ServerStop_Props.thy ===== *)
theory ServerStop_Props
  imports ServerStop
begin

text \<open>
  Properties of the shutdown: the invariant of connections, mutex and wait group under every interleaving; that every
  execution in which no timer fires ends, with \<open>stop\<close> returned and every connection closed; and the mutex that
  stays locked after the timer of \<open>removeConn\<close> has fired.
\<close>

section \<open>Invariant\<close>

definition serving :: "stop_state \<Rightarrow> nat set" where
  "serving s = {c. st_pc s c \<in> {Starting, Reading, Removing}}"

definition conn_inv :: "stop_state \<Rightarrow> nat \<Rightarrow> bool" where
  "conn_inv s c \<longleftrightarrow> (st_helper s c = Holds \<longleftrightarrow> st_mu s = Some c)
     \<and> (st_pc s c \<in> {Removing, Released} \<longleftrightarrow> st_remover s c \<noteq> NoRemover)
     \<and> (st_helper s c = NoHelper \<longleftrightarrow> st_remover s c = NoRemover)
     \<and> (st_pc s c = Unknown \<longleftrightarrow> st_next s \<le> c)
     \<and> (st_remover s c = Finished \<or> st_pc s c = Refused \<longrightarrow> c \<in> set (st_closed s))
     \<and> (st_waitDone s \<longrightarrow> st_pc s c \<noteq> Reading)"

definition stop_inv :: "stop_state \<Rightarrow> bool" where
  "stop_inv s \<longleftrightarrow> (\<forall>c. conn_inv s c) \<and> st_wg s = card (serving s)
     \<and> st_done s = (st_stop s \<noteq> Running) \<and> st_lis s = (st_stop s \<in> {Running, ShuttingDown})
     \<and> (st_waitDone s \<longrightarrow> st_stop s \<notin> {Running, ShuttingDown})"

text \<open>While no timer fires, only connections that are not yet deleted are listed, and a graceful stop is woken in time.\<close>

definition listed :: "stop_state \<Rightarrow> nat set" where
  "listed s = (case st_conns s of None \<Rightarrow> {} | Some cs \<Rightarrow> set cs)"

definition fast_conn :: "stop_state \<Rightarrow> nat \<Rightarrow> bool" where
  "fast_conn s c \<longleftrightarrow> (st_remover s c = Selecting \<longleftrightarrow> st_helper s c \<in> {Wants, Holds})
     \<and> (st_pc s c = Released \<longrightarrow> st_remover s c = Finished)
     \<and> (c \<in> listed s \<longrightarrow> st_pc s c \<in> {Listed, Starting, Reading, Removing} \<and> st_remover s c \<in> {NoRemover, Selecting})"

definition waiter_inv :: "stop_state \<Rightarrow> bool" where
  "waiter_inv s \<longleftrightarrow> (st_waiter s = Waits \<longrightarrow> listed s \<noteq> {}) \<and> (st_waiter s \<in> {Checks, Waits} \<longrightarrow> st_stop s = Draining)
     \<and> (st_stop s = Draining \<longrightarrow> st_waiter s \<noteq> NoWaiter) \<and> (st_stop s \<in> {Draining, Clearing, Stopped} \<longrightarrow> st_waitDone s)"

definition fast_inv :: "stop_state \<Rightarrow> bool" where
  "fast_inv s \<longleftrightarrow> stop_inv s \<and> (\<forall>c. fast_conn s c) \<and> waiter_inv s"

lemma conn_inv_known: "conn_inv s c \<Longrightarrow> st_pc s c \<noteq> Unknown \<Longrightarrow> c < st_next s"
  by (simp add: conn_inv_def)

lemma finite_serving:
  assumes "\<forall>c. conn_inv s c"
  shows "finite (serving s)"
proof -
  have "c < st_next s" if "c \<in> serving s" for c
    using that assms by (intro conn_inv_known) (auto simp: serving_def)
  then show ?thesis unfolding finite_nat_set_iff_bounded by blast
qed

lemma serving_pc:
  "st_pc t = (st_pc s)(e := x) \<Longrightarrow> serving t = (if x \<in> {Starting, Reading, Removing} then insert e (serving s) else serving s - {e})"
  "st_pc t = st_pc s \<Longrightarrow> serving t = serving s"
  by (auto simp: serving_def)

lemma stop_init_inv: "stop_init s \<Longrightarrow> fast_inv s"
  by (simp add: stop_init_def fast_inv_def stop_inv_def conn_inv_def fast_conn_def serving_def listed_def waiter_inv_def)

text \<open>A step of one connection leaves the others alone.\<close>

lemma conn_step_frame:
  assumes "conn_step slow e s t" "conn_inv s e" "c \<noteq> e"
  shows "st_pc t c = st_pc s c" "st_helper t c = st_helper s c" "st_remover t c = st_remover s c"
    "st_mu t = Some c \<longleftrightarrow> st_mu s = Some c" "c \<in> listed t \<longleftrightarrow> c \<in> listed s"
proof -
  have mu: "st_mu s = Some e" if "st_helper s e = Holds" using that assms(2) by (simp add: conn_inv_def)
  have "st_pc t c = st_pc s c \<and> st_helper t c = st_helper s c \<and> st_remover t c = st_remover s c
    \<and> (st_mu t = Some c \<longleftrightarrow> st_mu s = Some c) \<and> (c \<in> listed t \<longleftrightarrow> c \<in> listed s)"
    using assms(1,3) by cases (auto simp: conn_defs listed_def mu split: if_splits option.splits)
  then show "st_pc t c = st_pc s c" "st_helper t c = st_helper s c" "st_remover t c = st_remover s c"
    "st_mu t = Some c \<longleftrightarrow> st_mu s = Some c" "c \<in> listed t \<longleftrightarrow> c \<in> listed s" by simp_all
qed

lemma conn_step_fields:
  assumes "conn_step slow e s t"
  shows "st_next t = st_next s" "set (st_closed s) \<subseteq> set (st_closed t)" "st_waitDone t = st_waitDone s" "st_stop t = st_stop s"
    "st_done t = st_done s" "st_lis t = st_lis s" "st_waiter t = st_waiter s \<or> st_waiter s = Waits \<and> st_waiter t = Checks"
  using assms by (cases; auto simp: conn_defs split: if_splits option.splits)+

lemma conn_step_own:
  assumes "conn_step slow e s t" "conn_inv s e" "st_waitDone s \<longrightarrow> st_done s"
  shows "conn_inv t e"
  using assms(1)
proof cases
  case begin_serving
  with assms(2,3) show ?thesis by (cases "st_done s") (auto simp: conn_inv_def conn_defs split: if_splits)
qed (use assms(2) in \<open>cases "st_pc s e"; cases "st_remover s e"; simp add: conn_inv_def conn_defs split: if_splits option.splits; clarsimp\<close>)+

lemma conn_inv_conn:
  assumes "conn_step slow e s t" "conn_inv s c" "conn_inv s e" "st_waitDone s \<longrightarrow> st_done s"
  shows "conn_inv t c"
proof (cases "c = e")
  case True
  with conn_step_own [OF assms(1,3,4)] show ?thesis by simp
next
  case False
  note f = conn_step_frame [OF assms(1,3) False] and g = conn_step_fields [OF assms(1)]
  show ?thesis using assms(2) g(2) unfolding conn_inv_def f g(1,3) by blast
qed

lemma conn_inv_accept:
  assumes "accept_next s = Some t" "conn_inv s c"
  shows "conn_inv t c"
proof (cases "c = st_next s")
  case True
  with assms show ?thesis by (simp add: conn_inv_def accept_next_def split: if_splits) clarsimp
next
  case False
  then have "st_next s + 1 \<le> c \<longleftrightarrow> st_next s \<le> c" by auto
  with False assms(1) have "conn_inv t c = conn_inv s c" by (clarsimp simp: conn_inv_def accept_next_def split: if_splits)
  with assms(2) show ?thesis by simp
qed

lemma conn_inv_frame [simp]:
  "conn_inv (s\<lparr>st_stop := a\<rparr>) c = conn_inv s c" "conn_inv (s\<lparr>st_done := b\<rparr>) c = conn_inv s c"
  "conn_inv (s\<lparr>st_lis := b\<rparr>) c = conn_inv s c" "conn_inv (s\<lparr>st_waiter := w\<rparr>) c = conn_inv s c"
  "conn_inv (s\<lparr>st_conns := cs\<rparr>) c = conn_inv s c"
  by (simp_all add: conn_inv_def)

lemma stop_inv_flags:
  assumes "stop_inv s"
  shows "st_done s = (st_stop s \<noteq> Running)" "st_lis s = (st_stop s \<in> {Running, ShuttingDown})"
    "st_waitDone s \<Longrightarrow> st_stop s \<notin> {Running, ShuttingDown}"
  using assms unfolding stop_inv_def by blast+

lemma conn_inv_step:
  assumes "stop_step slow g s t" "stop_inv s"
  shows "conn_inv t c"
proof -
  have inv: "conn_inv s d" for d using assms(2) by (simp add: stop_inv_def)
  have d: "st_waitDone s \<longrightarrow> st_done s" using stop_inv_flags [OF assms(2)] by auto
  have z: "st_wg s = 0 \<Longrightarrow> st_pc s c \<noteq> Reading"
    using assms(2) finite_serving [of s] by (auto simp: stop_inv_def serving_def)
  show ?thesis using assms(1)
  proof cases
    case accept
    then show ?thesis using inv by (rule conn_inv_accept)
  next
    case conn
    then show ?thesis using inv inv d by (rule conn_inv_conn)
  next
    case served
    then show ?thesis using inv [of c] z by (simp add: conn_inv_def signal_served_def split: if_splits) force
  qed (auto simp: inv stop_defs split: if_splits)
qed

lemma serving_conn:
  assumes "conn_step slow e s t" "st_wg s = card (serving s)" "finite (serving s)"
  shows "st_wg t = card (serving t)"
proof -
  have same: "st_wg t = card (serving t)" if "st_wg t = st_wg s" "\<forall>c. c \<in> serving t \<longleftrightarrow> c \<in> serving s"
    using that assms(2) by (simp add: set_eq_iff [symmetric])
  show ?thesis using assms(1)
  proof cases
    case start
    then have "st_wg t = st_wg s + 1" "serving t = insert e (serving s)" "e \<notin> serving s"
      by (auto simp: start_conn_def serving_def split: if_splits)
    with assms(2,3) show ?thesis by simp
  next
    case release
    then have "st_wg t = st_wg s - 1" "serving t = serving s - {e}" "e \<in> serving s"
      by (auto simp: release_conn_def serving_def split: if_splits)
    with assms(2,3) show ?thesis by simp
  qed (rule same; auto simp: conn_defs serving_def split: if_splits option.splits)+
qed

lemma serving_count:
  assumes "stop_step slow g s t" "stop_inv s"
  shows "st_wg t = card (serving t)"
proof -
  have w: "st_wg s = card (serving s)" "finite (serving s)" using assms(2) finite_serving by (auto simp: stop_inv_def)
  have n: "st_pc s (st_next s) = Unknown" using assms(2) by (simp add: stop_inv_def conn_inv_def)
  show ?thesis using assms(1)
  proof cases
    case accept
    with n have "serving t = serving s" "st_wg t = st_wg s" by (auto simp: accept_next_def serving_def split: if_splits)
    with w show ?thesis by simp
  next
    case conn
    then show ?thesis using w by (rule serving_conn)
  qed (use w(1) in \<open>auto simp: stop_defs serving_def split: if_splits\<close>)
qed

lemma stop_inv_step:
  assumes "stop_step slow g s t" "stop_inv s"
  shows "stop_inv t"
proof -
  note f = stop_inv_flags [OF assms(2)]
  have "st_done t = (st_stop t \<noteq> Running) \<and> st_lis t = (st_stop t \<in> {Running, ShuttingDown})
      \<and> (st_waitDone t \<longrightarrow> st_stop t \<notin> {Running, ShuttingDown})"
    using assms(1)
  proof cases
    case (conn e)
    from conn_step_fields [OF this] f show ?thesis by simp
  qed (use f(3) in \<open>clarsimp simp: f(1,2) stop_defs accept_next_def split: if_splits\<close>)+
  with conn_inv_step [OF assms] serving_count [OF assms] show ?thesis unfolding stop_inv_def by blast
qed

lemma fast_conn_same:
  "fast_conn s c \<Longrightarrow> st_pc t c = st_pc s c \<Longrightarrow> st_helper t c = st_helper s c \<Longrightarrow> st_remover t c = st_remover s c
    \<Longrightarrow> (c \<in> listed t \<Longrightarrow> c \<in> listed s) \<Longrightarrow> fast_conn t c"
  by (auto simp: fast_conn_def)

lemma fast_conn_conn:
  assumes "conn_step False e s t" "fast_conn s c" "conn_inv s e"
  shows "fast_conn t c"
proof (cases "c = e")
  case True
  show ?thesis using assms(1)
    by cases (use assms(2,3) True in \<open>simp add: conn_inv_def fast_conn_def conn_defs listed_def split: if_splits option.splits; auto\<close>)+
next
  case False
  from conn_step_frame [OF assms(1,3) False] show ?thesis by (intro fast_conn_same [OF assms(2)]) auto
qed

lemma fast_conn_frame [simp]:
  "fast_conn (s\<lparr>st_stop := a\<rparr>) c = fast_conn s c" "fast_conn (s\<lparr>st_done := b\<rparr>) c = fast_conn s c"
  "fast_conn (s\<lparr>st_lis := b\<rparr>) c = fast_conn s c" "fast_conn (s\<lparr>st_waiter := w\<rparr>) c = fast_conn s c"
  "fast_conn (s\<lparr>st_waitDone := b\<rparr>) c = fast_conn s c"
  by (simp_all add: fast_conn_def listed_def)

lemma fast_conn_step:
  assumes "stop_step False g s t" "fast_inv s"
  shows "fast_conn t c"
proof -
  have inv: "conn_inv s d" and fast: "fast_conn s d" for d using assms(2) by (auto simp: fast_inv_def stop_inv_def)
  show ?thesis using assms(1)
  proof cases
    case accept
    show ?thesis
    proof (cases "c = st_next s")
      case True
      with inv [of c] fast [of c] accept show ?thesis by (simp add: conn_inv_def fast_conn_def accept_next_def listed_def split: if_splits) auto
    next
      case False
      with accept show ?thesis by (intro fast_conn_same [OF fast]) (auto simp: accept_next_def listed_def split: if_splits)
    qed
  next
    case conn
    then show ?thesis using fast inv by (rule fast_conn_conn)
  next
    case clear
    then have "t = s\<lparr>st_conns := None, st_stop := Stopped\<rparr>" by (simp add: clear_conns_def split: if_splits)
    with fast [of c] show ?thesis by (auto simp: fast_conn_def listed_def)
  qed (auto simp: fast stop_defs split: if_splits)
qed

lemma waiter_inv_step:
  assumes "stop_step False g s t" "waiter_inv s"
  shows "waiter_inv t"
  using assms(1)
proof cases
  case (conn e)
  note f = conn_step_fields(3,4,7) [OF conn]
  have "listed s \<subseteq> listed t \<or> st_waiter t \<noteq> Waits"
    using conn by cases (auto simp: conn_defs listed_def split: if_splits option.splits)
  with assms(2) f show ?thesis unfolding waiter_inv_def by auto
qed (cases "st_waiter s"; use assms(2) in \<open>auto simp: accept_next_def stop_defs waiter_inv_def listed_def split: if_splits option.splits\<close>)+

lemma fast_inv_step: "stop_step False g s t \<Longrightarrow> fast_inv s \<Longrightarrow> fast_inv t"
  unfolding fast_inv_def using stop_inv_step waiter_inv_step fast_conn_step fast_inv_def by blast

interpretation sd: invariant_system stop_init "stop_step slow g" stop_inv for slow g
  by unfold_locales (auto simp: fast_inv_def dest: stop_init_inv intro: stop_inv_step)

interpretation sf: invariant_system stop_init "stop_step False g" fast_inv for g
  by unfold_locales (auto dest: stop_init_inv intro: fast_inv_step)

section \<open>Progress\<close>

text \<open>What is left to do: for each connection, for \<open>stop\<close> and for its waiting goroutine.\<close>

fun pc_left :: "conn_pc \<Rightarrow> nat" where
  "pc_left Accepted = 5" | "pc_left Listed = 4" | "pc_left Starting = 3" | "pc_left Reading = 2" | "pc_left Removing = 1" | "pc_left _ = 0"

fun helper_left :: "helper_pc \<Rightarrow> nat" where
  "helper_left NoHelper = 3" | "helper_left Wants = 2" | "helper_left Holds = 1" | "helper_left Handed = 0"

fun remover_left :: "remover_pc \<Rightarrow> nat" where
  "remover_left NoRemover = 3" | "remover_left Selecting = 2" | "remover_left Cleaning = 1" | "remover_left Finished = 0"

fun stop_left :: "stop_pc \<Rightarrow> nat" where
  "stop_left Running = 5" | "stop_left ShuttingDown = 4" | "stop_left ListenerClosed = 3" | "stop_left Draining = 2"
| "stop_left Clearing = 1" | "stop_left Stopped = 0"

fun waiter_left :: "waiter_pc \<Rightarrow> nat" where
  "waiter_left Checks = 2" | "waiter_left Waits = 1" | "waiter_left _ = 0"

definition conn_left :: "stop_state \<Rightarrow> nat \<Rightarrow> nat" where
  "conn_left s c = pc_left (st_pc s c) + helper_left (st_helper s c) + remover_left (st_remover s c)"

definition left :: "stop_state \<Rightarrow> nat" where
  "left s = 4 * (\<Sum>c < st_next s. conn_left s c) + 4 * stop_left (st_stop s) + waiter_left (st_waiter s) + (if st_waitDone s then 0 else 1)"

lemma left_conn:
  assumes "conn_left t e < conn_left s e" "e < st_next s" "st_next t = st_next s" "st_stop t = st_stop s" "st_waitDone t = st_waitDone s"
    and "waiter_left (st_waiter t) \<le> waiter_left (st_waiter s) + 1" "\<And>c. c \<noteq> e \<Longrightarrow> conn_left t c = conn_left s c"
  shows "left t < left s"
proof -
  have "conn_left t c \<le> conn_left s c" for c using assms(1,7) by (cases "c = e") auto
  with assms(1,2) have "(\<Sum>c < st_next s. conn_left t c) < (\<Sum>c < st_next s. conn_left s c)"
    by (intro sum_strict_mono_ex1) auto
  with assms(3-6) show ?thesis by (simp add: left_def)
qed

lemma left_step:
  assumes "stop_step slow g s t" "stop_inv s" "\<not> st_lis s"
  shows "left t < left s"
proof -
  have inv: "conn_inv s c" for c using assms(2) by (simp add: stop_inv_def)
  have known: "st_pc s c \<noteq> Unknown \<or> st_remover s c \<noteq> NoRemover \<or> st_helper s c \<noteq> NoHelper \<Longrightarrow> c < st_next s" for c
    using inv [of c] conn_inv_known [of s c] by (auto simp: conn_inv_def)
  have fresh: "st_pc s c \<in> {Starting, Reading} \<Longrightarrow> st_remover s c = NoRemover \<and> st_helper s c = NoHelper" for c
    using inv [of c] by (auto simp: conn_inv_def)
  show ?thesis using assms(1)
  proof cases
    case accept
    with assms(3) show ?thesis by (simp add: accept_next_def)
  next
    case (conn e)
    note f = conn_step_fields [OF conn] and c = conn_step_frame [OF conn inv]
    have "waiter_left (st_waiter t) \<le> waiter_left (st_waiter s) + 1" using f(7) by auto
    moreover have "conn_left t e < conn_left s e \<and> e < st_next s"
      using conn by cases (use known [of e] fresh [of e] in \<open>auto simp: conn_defs conn_left_def split: if_splits option.splits\<close>)
    moreover have "conn_left t d = conn_left s d" if "d \<noteq> e" for d using c [OF that] by (simp add: conn_left_def)
    ultimately show ?thesis using f(1,3,4) by (intro left_conn [of t e]) auto
  qed (auto simp: stop_defs left_def conn_left_def split: if_splits)
qed

text \<open>A connection that is not released or refused has a step to go on with, unless it waits for the mutex.\<close>

lemma conn_progress:
  assumes "fast_inv s" "st_pc s c \<notin> {Unknown, Released, Refused}"
  shows "\<exists>t. stop_step False g s t"
proof -
  have i: "conn_inv s c" "fast_conn s c" "stop_inv s" using assms(1) by (auto simp: fast_inv_def stop_inv_def)
  show ?thesis
  proof (cases "st_mu s")
    case (Some d)
    have "conn_inv s d" "fast_conn s d" using assms(1) by (auto simp: fast_inv_def stop_inv_def)
    with Some have "st_helper s d = Holds" "st_remover s d = Selecting" by (auto simp: conn_inv_def fast_conn_def)
    then have "\<exists>t. delete_conn d s = Some t" by (simp add: delete_conn_def)
    then show ?thesis by (blast intro: stop_step.intros conn_step.intros)
  next
    case None
    consider "st_pc s c = Accepted" | "st_pc s c = Listed" | "st_pc s c = Starting" | "st_pc s c = Reading" | "st_pc s c = Removing"
      using assms(2) by (cases "st_pc s c") auto
    then show ?thesis
    proof cases
      case 1
      then have "\<exists>t. list_conn c s = Some t" using None by (simp add: list_conn_def split: option.split)
      then show ?thesis by (blast intro: stop_step.intros conn_step.intros)
    next
      case 2
      then have "\<exists>t. start_conn c s = Some t" by (simp add: start_conn_def)
      then show ?thesis by (blast intro: stop_step.intros conn_step.intros)
    next
      case 3
      then have "\<exists>t. begin_conn c s = Some t" by (simp add: begin_conn_def)
      then show ?thesis by (blast intro: stop_step.intros conn_step.intros)
    next
      case 4
      then have "\<exists>t. end_conn c s = Some t" by (simp add: end_conn_def)
      then show ?thesis by (blast intro: stop_step.intros conn_step.intros)
    next
      case 5
      then have r: "st_remover s c \<noteq> NoRemover" using i(1) by (simp add: conn_inv_def)
      have "st_helper s c \<noteq> Holds" using i(1) None by (simp add: conn_inv_def)
      with r i(2) consider "st_helper s c = Wants" | "st_remover s c = Cleaning" | "st_remover s c = Finished"
        by (cases "st_remover s c") (auto simp: fast_conn_def)
      then show ?thesis
      proof cases
        case 1
        then have "\<exists>t. take_lock c s = Some t" using None by (simp add: take_lock_def)
        then show ?thesis by (blast intro: stop_step.intros conn_step.intros)
      next
        case 2
        then have "\<exists>t. close_conn c s = Some t" by (simp add: close_conn_def)
        then show ?thesis by (blast intro: stop_step.intros conn_step.intros)
      next
        case 3
        then have "\<exists>t. release_conn False c s = Some t" using 5 by (simp add: release_conn_def)
        then show ?thesis by (blast intro: stop_step.intros conn_step.intros)
      qed
    qed
  qed
qed

lemma stuck_stopped:
  assumes inv: "fast_inv s" and stuck: "\<nexists>t. stop_step False g s t"
  shows "st_stop s = Stopped" "st_wg s = 0" "c < st_next s \<Longrightarrow> c \<in> set (st_closed s)"
proof -
  have i: "conn_inv s d" "fast_conn s d" "stop_inv s" "waiter_inv s" for d using inv by (auto simp: fast_inv_def stop_inv_def)
  have pc: "st_pc s d \<in> {Unknown, Released, Refused}" for d using conn_progress [OF inv, of d g] stuck by blast
  have mu: "st_mu s = None"
  proof (cases "st_mu s")
    case (Some d)
    then have "st_helper s d = Holds" using i(1) [of d] by (simp add: conn_inv_def)
    then have "st_remover s d = Selecting" using i(2) [of d] by (simp add: fast_conn_def)
    then show ?thesis using i(1,2) [of d] pc [of d] by (auto simp: conn_inv_def fast_conn_def)
  qed simp
  have "d \<notin> serving s" for d using pc [of d] by (auto simp: serving_def)
  then have "serving s = {}" by blast
  then show wg: "st_wg s = 0" using i(3) by (simp add: stop_inv_def)
  have "d \<notin> listed s" for d using i(2) [of d] pc [of d] by (auto simp: fast_conn_def)
  then have "listed s = {}" by blast
  then have w: "st_waiter s \<noteq> Waits" using i(4) by (simp add: waiter_inv_def)
  show "st_stop s = Stopped"
  proof (cases "st_stop s")
    case Running
    then have "\<exists>t. begin_stop s = Some t" by (simp add: begin_stop_def)
    with stuck show ?thesis by (blast intro: stop_step.intros conn_step.intros)
  next
    case ShuttingDown
    then have "\<exists>t. close_listener s = Some t" using mu by (simp add: close_listener_def)
    with stuck show ?thesis by (blast intro: stop_step.intros conn_step.intros)
  next
    case ListenerClosed
    then have "(\<exists>t. signal_served s = Some t) \<or> (\<exists>t. wait_serving False g s = Some t)" using wg by (simp add: signal_served_def wait_serving_def)
    with stuck show ?thesis by (blast intro: stop_step.intros conn_step.intros)
  next
    case Draining
    then have "(\<exists>t. check_conns s = Some t) \<or> (\<exists>t. wait_drained False s = Some t)"
      using mu w i(4) by (cases "st_waiter s") (simp_all add: check_conns_def wait_drained_def waiter_inv_def)
    with stuck show ?thesis by (blast intro: stop_step.intros conn_step.intros)
  next
    case Clearing
    then have "\<exists>t. clear_conns s = Some t" using mu by (simp add: clear_conns_def)
    with stuck show ?thesis by (blast intro: stop_step.intros conn_step.intros)
  qed simp
  show "c \<in> set (st_closed s)" if "c < st_next s"
    using that i(1,2) [of c] pc [of c] by (auto simp: conn_inv_def fast_conn_def)
qed

lemma reach_steps:
  assumes "reach init step s" "step\<^sup>*\<^sup>* s t"
  shows "reach init step t"
  using assms(2,1) by (induction rule: rtranclp_induct) (auto intro: reach_step)

lemma listener_stays_closed: "stop_step slow g s t \<Longrightarrow> \<not> st_lis s \<Longrightarrow> \<not> st_lis t"
  by (erule stop_step.cases) (auto simp: stop_defs accept_next_def conn_step_fields(6) split: if_splits)


text \<open>A server that reads from one connection when it is stopped.\<close>

definition one_conn :: stop_state where
  "one_conn = \<lparr>st_mu = None, st_conns = Some [0], st_closed = [], st_next = 1, st_lis = True, st_done = False, st_wg = 1, st_waitDone = False,
     st_pc = (\<lambda>_. Unknown)(0 := Reading), st_helper = (\<lambda>_. NoHelper), st_remover = (\<lambda>_. NoRemover), st_stop = Running, st_waiter = NoWaiter\<rparr>"

lemma reach_one_conn: "reach stop_init (stop_step slow g) one_conn"
proof -
  define s0 where "s0 = one_conn\<lparr>st_conns := Some [], st_next := 0, st_wg := 0, st_pc := \<lambda>_. Unknown\<rparr>"
  define s1 where "s1 = s0\<lparr>st_next := 1, st_pc := (\<lambda>_. Unknown)(0 := Accepted)\<rparr>"
  define s2 where "s2 = s1\<lparr>st_conns := Some [0], st_pc := (\<lambda>_. Unknown)(0 := Listed)\<rparr>"
  define s3 where "s3 = s2\<lparr>st_wg := 1, st_pc := (\<lambda>_. Unknown)(0 := Starting)\<rparr>"
  note defs = s0_def s1_def s2_def s3_def one_conn_def
  have "reach stop_init (stop_step slow g) s0" by (rule reach_init) (simp add: stop_init_def defs)
  moreover have "stop_step slow g s0 s1" by (rule accept) (simp add: defs accept_next_def)
  moreover have "stop_step slow g s1 s2" by (rule conn [OF list [of 0]]) (simp add: defs list_conn_def)
  moreover have "stop_step slow g s2 s3" by (rule conn [OF start [of 0]]) (simp add: defs start_conn_def)
  moreover have "stop_step slow g s3 one_conn" by (rule conn [OF begin_serving [of 0]]) (simp add: defs begin_conn_def)
  ultimately show ?thesis by (blast intro: reach_step)
qed

definition stopping :: stop_state where
  "stopping = one_conn\<lparr>st_done := True, st_lis := False, st_stop := ListenerClosed\<rparr>"

lemma reach_stopping: "reach stop_init (stop_step slow g) stopping"
proof -
  define s1 where "s1 = one_conn\<lparr>st_done := True, st_stop := ShuttingDown\<rparr>"
  note defs = s1_def stopping_def one_conn_def
  have "stop_step slow g one_conn s1" by (rule stop_step.begin_stop) (simp add: defs begin_stop_def)
  moreover have "stop_step slow g s1 stopping" by (rule stop_step.close_listener) (simp add: defs close_listener_def)
  ultimately show ?thesis using reach_one_conn [of slow g] by (blast intro: reach_step)
qed


section \<open>The timer of removeConn\<close>

fun unserved :: "conn_pc \<Rightarrow> bool" where
  "unserved Unknown = True" | "unserved Accepted = True" | "unserved _ = False"

definition lock_leaked :: "nat \<Rightarrow> stop_state \<Rightarrow> bool" where
  "lock_leaked c s \<longleftrightarrow> st_helper s c = Holds \<and> st_remover s c \<in> {Cleaning, Finished} \<and> st_stop s \<noteq> Stopped"

lemma leaked_lock_step:
  assumes "stop_step slow g s t" "stop_inv s" "lock_leaked c s"
  shows "lock_leaked c t \<and> st_conns t = st_conns s \<and> unserved (st_pc t d) = unserved (st_pc s d)"
proof -
  have inv: "conn_inv s e" for e using assms(2) by (simp add: stop_inv_def)
  have mu: "st_mu s = Some c" using inv [of c] assms(3) by (simp add: conn_inv_def lock_leaked_def)
  have "st_remover s c \<noteq> NoRemover" using assms(3) by (auto simp: lock_leaked_def)
  then have rem: "st_pc s c = Removing \<or> st_pc s c = Released" using inv [of c] by (simp add: conn_inv_def)
  have new: "st_pc s (st_next s) = Unknown" using inv [of "st_next s"] by (simp add: conn_inv_def)
  have "st_helper s e = Holds \<longleftrightarrow> st_mu s = Some e" for e using inv [of e] by (simp add: conn_inv_def)
  then have only: "st_helper s e = Holds \<longleftrightarrow> e = c" for e using mu by auto
  show ?thesis using assms(1)
  proof cases
    case accept
    with new assms(3) show ?thesis by (auto simp: accept_next_def lock_leaked_def split: if_splits)
  next
    case (conn e)
    have "st_conns t = st_conns s \<and> unserved (st_pc t e) = unserved (st_pc s e) \<and> (e = c \<longrightarrow> lock_leaked c t)"
      using conn by cases (use only [of e] mu rem assms(3) in \<open>auto simp: conn_defs lock_leaked_def split: if_splits option.splits\<close>)
    moreover have "d \<noteq> e \<Longrightarrow> unserved (st_pc t d) = unserved (st_pc s d)" "c \<noteq> e \<Longrightarrow> lock_leaked c t"
      using conn_step_frame [OF conn inv] conn_step_fields(4) [OF conn] assms(3) by (auto simp: lock_leaked_def)
    ultimately show ?thesis by metis
  qed (use assms(3) in \<open>auto simp: mu stop_defs lock_leaked_def split: if_splits\<close>)
qed

text \<open>
  \<^bold>\<open>C35\<close>. The timer that is to avert a deadlock causes one. When it fires in \<open>removeConn\<close> although the inner goroutine gets the
  mutex, nobody releases the mutex any more: whatever happens next, the mutex stays locked, \<open>stop\<close> does not
  return, no connection is taken off the list, and no connection that waits to be served gets to be served.
\<close>

theorem lock_timeout_blocks_stop:
  assumes "reach stop_init (stop_step True graceful) s" and "lock_leaked c s" and "(stop_step True graceful)\<^sup>*\<^sup>* s t"
  shows "st_mu t = Some c \<and> st_stop t \<noteq> Stopped \<and> st_conns t = st_conns s \<and> unserved (st_pc t d) = unserved (st_pc s d)"
proof -
  have "reach stop_init (stop_step True graceful) t \<and> lock_leaked c t \<and> st_conns t = st_conns s \<and> unserved (st_pc t d) = unserved (st_pc s d)"
    using assms(3)
  proof (induction rule: rtranclp_induct)
    case base
    with assms show ?case by simp
  next
    case (step u t)
    then have u: "reach stop_init (stop_step True graceful) u" "lock_leaked c u" by blast+
    have "reach stop_init (stop_step True graceful) t" using u(1) step(2) by (rule reach_step)
    with leaked_lock_step [OF step(2) sd.reach_inv [OF u(1)] u(2)] step.IH show ?case by simp
  qed
  moreover from this have "stop_inv t" using sd.reach_inv by blast
  ultimately show ?thesis by (simp add: stop_inv_def conn_inv_def lock_leaked_def)
qed

text \<open>The inner goroutine has the mutex, and the outer one has just given up waiting for it.\<close>

definition gave_up :: stop_state where
  "gave_up = one_conn\<lparr>st_pc := (\<lambda>_. Unknown)(0 := Removing), st_mu := Some 0, st_helper := (\<lambda>_. NoHelper)(0 := Holds),
     st_remover := (\<lambda>_. NoRemover)(0 := Cleaning)\<rparr>"

lemma reach_gave_up: "reach stop_init (stop_step True g) gave_up"
proof -
  define s1 where "s1 = call_removeConn 0 one_conn"
  define s2 where "s2 = s1\<lparr>st_mu := Some 0, st_helper := (\<lambda>_. NoHelper)(0 := Holds)\<rparr>"
  note defs = s1_def s2_def gave_up_def one_conn_def call_removeConn_def
  have "stop_step True g one_conn s1" by (rule conn [OF end_serving [of 0]]) (simp add: defs end_conn_def)
  moreover have "stop_step True g s1 s2" by (rule conn [OF take [of 0]]) (simp add: defs take_lock_def)
  moreover have "stop_step True g s2 gave_up" by (rule conn [OF timeout [where c = 0]]) (simp_all add: defs lock_timeout_def)
  ultimately show ?thesis using reach_one_conn [of True g] by (blast intro: reach_step)
qed

theorem lock_timeout_blocks_stop_witness:
  "reach stop_init (stop_step True True) gave_up \<and> (\<nexists>t. (stop_step True True)\<^sup>*\<^sup>* gave_up t \<and> st_stop t = Stopped)"
proof -
  have "lock_leaked 0 gave_up" by (simp add: lock_leaked_def gave_up_def one_conn_def)
  from lock_timeout_blocks_stop [OF reach_gave_up this] reach_gave_up show ?thesis by blast
qed

text \<open>A removal in which no timer fires does what \<open>removeConn\<close> does when it runs alone.\<close>

lemma removal_refines:
  assumes "st_pc s c = Reading" "st_mu s = None" "st_conns s = s_conns srv" "st_closed s = s_closed srv"
  shows "\<exists>t u v w. end_conn c s = Some t \<and> take_lock c t = Some u \<and> delete_conn c u = Some v \<and> close_conn c v = Some w
    \<and> st_mu w = None \<and> st_conns w = s_conns (removeConn True c srv) \<and> st_closed w = s_closed (removeConn True c srv)"
  using assms by (simp add: end_conn_def call_removeConn_def take_lock_def delete_conn_def close_conn_def removeConn_def Let_def)

end
