(* ===== verification/BufferPool.thy ===== *)
theory BufferPool
  imports Wire_Codec "HOL-Library.Multiset"
begin

text \<open>
  The pool of byte buffers (\<^verbatim>\<open>mem/buffer_pool.go\<close>).

  A backing array is a number; \<open>heap\<close> gives its bytes, as many as its capacity. The pool has
  one \<open>sync.Pool\<close> per size class, modelled as a list of the arrays it holds. A \<open>sync.Pool\<close> may
  hand out any array it holds or make a new one: the argument \<open>pick\<close> chooses a position, and
  one past the end means a new array. Capacities are natural numbers; \<open>Get\<close> takes a Go \<open>int\<close>.

  \<open>bp_step\<close> interleaves any users of the pool: they get arrays, write into those they hold,
  and put them back. The invariant says that no array has two owners and that the arrays of
  a class are large enough for it, so that \<open>Get\<close> neither panics nor returns a buffer of another
  length. This is the hypothesis \<open>sized\<close> of the wire codec.
\<close>

record bufferPool =
  classes :: "nat list list"
  heap :: "nat \<Rightarrow> bytes"
  fresh :: nat

definition bufferPoolSizes :: "nat list" where
  "bufferPoolSizes = map (\<lambda>k. 2 ^ k) [7..<23]"

definition maxSize :: nat where
  "maxSize = bufferPoolSizes ! (length bufferPoolSizes - 1)"

definition bufferPool_init :: bufferPool where
  "bufferPool_init = \<lparr>classes = replicate (length bufferPoolSizes) [], heap = (\<lambda>_. []), fresh = 0\<rparr>"

fun first_index :: "('a \<Rightarrow> bool) \<Rightarrow> nat \<Rightarrow> 'a list \<Rightarrow> nat option" where
  "first_index P i [] = None"
| "first_index P i (x # xs) = (if P x then Some i else first_index P (Suc i) xs)"

definition findPool :: "nat \<Rightarrow> nat option" where
  "findPool sz = first_index (\<lambda>poolSize. sz = poolSize) 0 bufferPoolSizes"

definition findBestFitPool :: "nat \<Rightarrow> nat option" where
  "findBestFitPool sz = first_index (\<lambda>poolSize. sz \<le> poolSize) 0 bufferPoolSizes"

fun closest_from :: "nat \<Rightarrow> nat \<Rightarrow> nat" where
  "closest_from sz 0 = 0"
| "closest_from sz (Suc i) = (if sz \<ge> bufferPoolSizes ! i then i else closest_from sz i)"

definition findClosestPool :: "nat \<Rightarrow> nat" where
  "findClosestPool sz = closest_from sz (length bufferPoolSizes)"

definition alloc :: "nat \<Rightarrow> bufferPool \<Rightarrow> nat \<times> bufferPool" where
  "alloc cap p = (fresh p, p\<lparr>heap := (heap p)(fresh p := replicate cap 0), fresh := fresh p + 1\<rparr>)"

definition take_nth :: "nat \<Rightarrow> 'a list \<Rightarrow> 'a list" where
  "take_nth i xs = take i xs @ drop (Suc i) xs"

definition class_Get :: "nat \<Rightarrow> nat \<Rightarrow> bufferPool \<Rightarrow> nat \<times> bufferPool" where
  "class_Get pick i p =
     (let held = classes p ! i in
      if pick < length held then (held ! pick, p\<lparr>classes := (classes p)[i := take_nth pick held]\<rparr>)
      else alloc (bufferPoolSizes ! i) p)"

text \<open>The result is the array and the length of the slice \<open>(*buf)[0:size]\<close>, which must not exceed its capacity.\<close>

definition resliced :: "nat \<Rightarrow> nat \<times> bufferPool \<Rightarrow> (nat \<times> nat) outcome \<times> bufferPool" where
  "resliced sz r = (case r of (a, p) \<Rightarrow> (if sz \<le> length (heap p a) then Ok (a, sz) else Panic, p))"

definition bufferPool_Get :: "nat \<Rightarrow> int \<Rightarrow> bufferPool \<Rightarrow> (nat \<times> nat) outcome \<times> bufferPool" where
  "bufferPool_Get pick sz p =
     (if sz \<le> 0 then resliced 0 (alloc 0 p)
      else case findPool (nat sz) of
        Some i \<Rightarrow> resliced (nat sz) (class_Get pick i p)
      | None \<Rightarrow>
          (case findBestFitPool (nat sz) of
             Some i \<Rightarrow> resliced (nat sz) (class_Get pick i p)
           | None \<Rightarrow> resliced (nat sz) (alloc (nat sz) p)))"

definition class_Put :: "nat \<Rightarrow> nat \<Rightarrow> bufferPool \<Rightarrow> bufferPool" where
  "class_Put a i p = p\<lparr>classes := (classes p)[i := a # classes p ! i]\<rparr>"

definition bufferPool_Put :: "nat option \<Rightarrow> bufferPool \<Rightarrow> bufferPool" where
  "bufferPool_Put buffer p =
     (case buffer of
        None \<Rightarrow> p
      | Some a \<Rightarrow>
          (let sz = length (heap p a) in
           if sz \<le> 0 \<or> sz > maxSize then p
           else case findPool sz of
                  Some i \<Rightarrow> class_Put a i p
                | None \<Rightarrow> class_Put a (findClosestPool sz) p))"

section \<open>The classes\<close>

lemma sizes: "length bufferPoolSizes = 16" "bufferPoolSizes ! 0 = 128" "128 \<in> set bufferPoolSizes"
  by (simp_all add: bufferPoolSizes_def)

lemma sizes_ge: "i < 16 \<Longrightarrow> 128 \<le> bufferPoolSizes ! i"
proof -
  assume "i < 16"
  then have "bufferPoolSizes ! i \<in> set bufferPoolSizes" by (simp add: sizes)
  moreover have "\<forall>x \<in> set bufferPoolSizes. 128 \<le> x" by (simp add: bufferPoolSizes_def)
  ultimately show ?thesis by blast
qed

lemma first_index_None: "first_index P k xs = None \<Longrightarrow> x \<in> set xs \<Longrightarrow> \<not> P x"
  by (induction xs arbitrary: k) (auto split: if_splits)

lemma findBestFitPool_None: "findBestFitPool sz = None \<Longrightarrow> 128 \<le> sz"
  using first_index_None [of "\<lambda>poolSize. sz \<le> poolSize" 0 bufferPoolSizes 128] sizes(3) by (simp add: findBestFitPool_def)

lemma first_index_Some: "first_index P k xs = Some i \<Longrightarrow> k \<le> i \<and> i - k < length xs \<and> P (xs ! (i - k))"
proof (induction xs arbitrary: k)
  case (Cons x xs)
  show ?case
  proof (cases "P x")
    case True
    with Cons.prems show ?thesis by simp
  next
    case False
    with Cons.IH [of "Suc k"] Cons.prems have "Suc k \<le> i" "i - Suc k < length xs" "P (xs ! (i - Suc k))" by simp_all
    then show ?thesis by (simp add: nth_Cons' Suc_diff_Suc)
  qed
qed simp

lemma findPool_Some: "findPool sz = Some i \<Longrightarrow> i < 16 \<and> sz = bufferPoolSizes ! i"
  using first_index_Some [of _ 0 bufferPoolSizes i] by (fastforce simp: findPool_def sizes)

lemma findBestFitPool_Some: "findBestFitPool sz = Some i \<Longrightarrow> i < 16 \<and> sz \<le> bufferPoolSizes ! i"
  using first_index_Some [of _ 0 bufferPoolSizes i] by (fastforce simp: findBestFitPool_def sizes)

lemma closest_from_le: "n \<le> 16 \<Longrightarrow> bufferPoolSizes ! 0 \<le> sz \<Longrightarrow> closest_from sz n < 16 \<and> bufferPoolSizes ! closest_from sz n \<le> sz"
  by (induction n) auto

lemma findClosestPool_le: "128 \<le> sz \<Longrightarrow> findClosestPool sz < 16 \<and> bufferPoolSizes ! findClosestPool sz \<le> sz"
  using closest_from_le [of 16 sz] by (simp add: findClosestPool_def sizes)

section \<open>Executions\<close>

text \<open>A state: the pool, and the arrays that users hold.\<close>

inductive bp_step :: "bufferPool \<times> nat list \<Rightarrow> bufferPool \<times> nat list \<Rightarrow> bool" where
  get: "bufferPool_Get pick sz p = (Ok (a, n), p') \<Longrightarrow> bp_step (p, out) (p', a # out)"
| put: "a \<in> set out \<Longrightarrow> bp_step (p, out) (bufferPool_Put (Some a) p, remove1 a out)"
| store: "a \<in> set out \<Longrightarrow> length bs = length (heap p a) \<Longrightarrow> bp_step (p, out) (p\<lparr>heap := (heap p)(a := bs)\<rparr>, out)"

definition bp_init :: "bufferPool \<times> nat list \<Rightarrow> bool" where
  "bp_init s \<longleftrightarrow> s = (bufferPool_init, [])"

definition bp_inv :: "bufferPool \<times> nat list \<Rightarrow> bool" where
  "bp_inv s \<longleftrightarrow> (case s of (p, out) \<Rightarrow> length (classes p) = 16
     \<and> (\<forall>i < 16. \<forall>a \<in> set (classes p ! i). bufferPoolSizes ! i \<le> length (heap p a))
     \<and> mset (concat (classes p)) + mset out \<subseteq># mset_set {..<fresh p}
     \<and> (\<forall>a \<in> set out. length (heap p a) = 0 \<or> 128 \<le> length (heap p a)))"

lemma mset_concat_update:
  "i < length xss \<Longrightarrow> mset (concat (xss[i := ys])) + mset (xss ! i) = mset (concat xss) + mset ys"
proof (induction xss arbitrary: i)
  case (Cons xs xss)
  then show ?case by (cases i) (auto simp: ac_simps)
qed simp

lemma mset_take_nth: "i < length xs \<Longrightarrow> mset (take_nth i xs) + {#xs ! i#} = mset xs"
  by (metis id_take_nth_drop mset_append mset.simps(2) take_nth_def add.commute union_mset_add_mset_right add_mset_add_single)

lemma set_take_nth: "set (take_nth i xs) \<subseteq> set xs"
  by (auto simp: take_nth_def dest: in_set_takeD in_set_dropD)

lemma alloc_inv:
  assumes "bp_inv (p, out)" "cap = 0 \<or> 128 \<le> cap" "alloc cap p = (a, p')"
  shows "bp_inv (p', a # out)" "length (heap p' a) = cap"
proof -
  have a: "a = fresh p" "p' = p\<lparr>heap := (heap p)(a := replicate cap 0), fresh := fresh p + 1\<rparr>"
    using assms(3) by (auto simp: alloc_def)
  have m: "mset (concat (classes p)) + mset out \<subseteq># mset_set {..<fresh p}" using assms(1) by (simp add: bp_inv_def)
  have "x < fresh p" if "x \<in> set (concat (classes p)) \<union> set out" for x
    using mset_subset_eqD [OF m, of x] that by auto
  then have ne: "x \<noteq> fresh p" if "x \<in> set (concat (classes p)) \<union> set out" for x using that by blast
  have "add_mset (fresh p) (mset (concat (classes p)) + mset out) \<subseteq># add_mset (fresh p) (mset_set {..<fresh p})"
    using m by simp
  then have "mset (concat (classes p)) + mset (a # out) \<subseteq># mset_set {..<fresh p + 1}"
    by (simp add: a(1) lessThan_Suc)
  moreover have "heap p' x = heap p x" if "x \<in> set (concat (classes p)) \<union> set out" for x
    using ne [OF that] by (simp add: a)
  moreover have "classes p' = classes p" "fresh p' = fresh p + 1" "length (heap p' a) = cap" by (simp_all add: a)
  moreover have "x \<in> set (concat (classes p))" if "i < 16" "x \<in> set (classes p ! i)" for i x
    using that assms(1) nth_mem [of i "classes p"] by (auto simp: bp_inv_def)
  ultimately show "bp_inv (p', a # out)" "length (heap p' a) = cap"
    using assms(1,2) by (auto simp: bp_inv_def)
qed

lemma class_Get_inv:
  assumes "bp_inv (p, out)" "i < 16" "class_Get pick i p = (a, p')"
  shows "bp_inv (p', a # out)" "bufferPoolSizes ! i \<le> length (heap p' a)"
proof -
  have "bp_inv (p', a # out) \<and> bufferPoolSizes ! i \<le> length (heap p' a)"
  proof (cases "pick < length (classes p ! i)")
    case True
    then have a: "a = classes p ! i ! pick" "p' = p\<lparr>classes := (classes p)[i := take_nth pick (classes p ! i)]\<rparr>"
      using assms(3) by (auto simp: class_Get_def Let_def)
    have l: "i < length (classes p)" using assms(1,2) by (simp add: bp_inv_def)
    have "mset (concat (classes p')) + mset (classes p ! i) = mset (concat (classes p)) + mset (take_nth pick (classes p ! i))"
      unfolding a(2) using mset_concat_update [OF l] by simp
    moreover have "mset (classes p ! i) = mset (take_nth pick (classes p ! i)) + {#a#}" using mset_take_nth [OF True] a(1) by simp
    ultimately have m: "mset (concat (classes p')) + mset (a # out) = mset (concat (classes p)) + mset out"
      by (simp add: ac_simps)
    have "a \<in> set (classes p ! i)" using True a(1) by simp
    then have big: "bufferPoolSizes ! i \<le> length (heap p a)" using assms(1,2) by (simp add: bp_inv_def)
    have "set (classes p' ! j) \<subseteq> set (classes p ! j)" for j
      using set_take_nth [of pick "classes p ! i"] l by (cases "j = i") (auto simp: a(2))
    then have "\<forall>j < 16. \<forall>x \<in> set (classes p' ! j). bufferPoolSizes ! j \<le> length (heap p x)"
      using assms(1) by (auto simp: bp_inv_def)
    moreover have "heap p' = heap p" "fresh p' = fresh p" "length (classes p') = length (classes p)" by (simp_all add: a(2))
    moreover have "128 \<le> length (heap p a)" using big sizes_ge [OF assms(2)] by simp
    moreover have "mset (concat (classes p')) + mset (a # out) \<subseteq># mset_set {..<fresh p}"
      unfolding m using assms(1) by (simp add: bp_inv_def)
    ultimately show ?thesis using assms(1) big by (simp add: bp_inv_def)
  next
    case False
    then have "alloc (bufferPoolSizes ! i) p = (a, p')" using assms(3) by (simp add: class_Get_def Let_def)
    from alloc_inv [OF assms(1) _ this] sizes_ge [OF assms(2)] show ?thesis by simp
  qed
  then show "bp_inv (p', a # out)" "bufferPoolSizes ! i \<le> length (heap p' a)" by simp_all
qed

text \<open>\<open>Get\<close> keeps the invariant and never panics.\<close>

lemma bufferPool_Get_ok:
  assumes "bp_inv (p, out)"
  shows "\<exists>a p'. bufferPool_Get pick sz p = (Ok (a, nat sz), p') \<and> bp_inv (p', a # out) \<and> nat sz \<le> length (heap p' a)"
proof -
  have cls: "\<exists>a p'. resliced (nat sz) (class_Get pick i p) = (Ok (a, nat sz), p') \<and> bp_inv (p', a # out) \<and> nat sz \<le> length (heap p' a)"
    if "i < 16" "nat sz \<le> bufferPoolSizes ! i" for i
  proof -
    obtain a p' where g: "class_Get pick i p = (a, p')" by fastforce
    from class_Get_inv [OF assms that(1) g] that(2) show ?thesis by (simp add: resliced_def g)
  qed
  have new: "\<exists>a p'. resliced (nat sz) (alloc (nat sz) p) = (Ok (a, nat sz), p') \<and> bp_inv (p', a # out) \<and> nat sz \<le> length (heap p' a)"
    if "nat sz = 0 \<or> 128 \<le> nat sz"
  proof -
    obtain a p' where g: "alloc (nat sz) p = (a, p')" by fastforce
    from alloc_inv [OF assms that g] show ?thesis by (simp add: resliced_def g)
  qed
  show ?thesis
  proof (cases "sz \<le> 0")
    case True
    with new show ?thesis by (simp add: bufferPool_Get_def)
  next
    case False
    show ?thesis
    proof (cases "findPool (nat sz)")
      case (Some i)
      with findPool_Some [OF Some] cls [of i] False show ?thesis by (simp add: bufferPool_Get_def)
    next
      case n: None
      show ?thesis
      proof (cases "findBestFitPool (nat sz)")
        case (Some i)
        with findBestFitPool_Some [OF Some] cls [of i] n False show ?thesis by (simp add: bufferPool_Get_def)
      next
        case None
        with findBestFitPool_None [OF None] new n False show ?thesis by (simp add: bufferPool_Get_def)
      qed
    qed
  qed
qed

lemma bufferPool_Put_inv:
  assumes "bp_inv (p, out)" "a \<in> set out"
  shows "bp_inv (bufferPool_Put (Some a) p, remove1 a out)"
proof -
  let ?sz = "length (heap p a)"
  have out: "mset (remove1 a out) + {#a#} = mset out" using assms(2) by simp
  have m: "mset (concat (classes p)) + mset out \<subseteq># mset_set {..<fresh p}" using assms(1) by (simp add: bp_inv_def)
  have drop: "bp_inv (p, remove1 a out)"
    using assms(1) m out subset_mset.order_trans [of "mset (concat (classes p)) + mset (remove1 a out)" "mset (concat (classes p)) + mset out"]
    by (auto simp: bp_inv_def dest: notin_set_remove1)
  have put: "bp_inv (class_Put a i p, remove1 a out)" if "i < 16" "bufferPoolSizes ! i \<le> ?sz" for i
  proof -
    have l: "i < length (classes p)" using assms(1) that by (simp add: bp_inv_def)
    have "mset (concat (classes (class_Put a i p))) + mset (classes p ! i) = mset (concat (classes p)) + mset (a # classes p ! i)"
      unfolding class_Put_def using mset_concat_update [OF l, of "a # classes p ! i"] by simp
    then have "mset (concat (classes (class_Put a i p))) = add_mset a (mset (concat (classes p)))" by simp
    then have "mset (concat (classes (class_Put a i p))) + mset (remove1 a out) = mset (concat (classes p)) + mset out"
      using out by simp
    with drop m that l show ?thesis by (auto simp: bp_inv_def class_Put_def nth_list_update)
  qed
  show ?thesis
  proof (cases "?sz \<le> 0 \<or> ?sz > maxSize")
    case True
    with drop show ?thesis by (auto simp: bufferPool_Put_def Let_def)
  next
    case False
    then have "128 \<le> ?sz" using assms by (auto simp: bp_inv_def)
    with False findClosestPool_le [of ?sz] findPool_Some [of ?sz] put show ?thesis
      by (auto simp: bufferPool_Put_def Let_def split: option.split)
  qed
qed

interpretation bp: invariant_system bp_init bp_step bp_inv
proof
  fix s
  assume "bp_init s"
  then show "bp_inv s" by (simp add: bp_init_def bp_inv_def bufferPool_init_def sizes)
next
  fix s t
  assume "bp_step s t" "bp_inv s"
  then show "bp_inv t"
  proof (cases rule: bp_step.cases)
    case (get pick sz p a n p' out)
    with \<open>bp_inv s\<close> bufferPool_Get_ok [of p out pick sz] show ?thesis by auto
  next
    case (put a out p)
    with \<open>bp_inv s\<close> show ?thesis by (simp add: bufferPool_Put_inv)
  next
    case (store a out bs p)
    then have "length (((heap p)(a := bs)) x) = length (heap p x)" for x by simp
    with store \<open>bp_inv s\<close> show ?thesis by (simp add: bp_inv_def del: fun_upd_apply flip: length_0_conv)
  qed
qed

section \<open>Properties\<close>

text \<open>
  \<^bold>\<open>C16\<close>. However users get, fill and return buffers, a \<open>Get\<close> never panics: it gives a
  buffer of exactly the requested length, in an array that no other user holds and that
  the pool no longer offers.
\<close>

theorem bufferPool_Get_exclusive:
  assumes "reach bp_init bp_step (p, out)"
  shows "\<exists>a p'. bufferPool_Get pick sz p = (Ok (a, nat sz), p') \<and> length (take (nat sz) (heap p' a)) = nat sz
    \<and> a \<notin> set out \<and> a \<notin> set (concat (classes p'))"
proof -
  from bufferPool_Get_ok [OF bp.reach_inv [OF assms], of pick sz] obtain a p' where
    g: "bufferPool_Get pick sz p = (Ok (a, nat sz), p')" "bp_inv (p', a # out)" "nat sz \<le> length (heap p' a)" by blast
  then have m: "mset (concat (classes p') @ a # out) \<subseteq># mset_set {..<fresh p'}" by (simp add: bp_inv_def)
  have "count (mset (concat (classes p') @ a # out)) a \<le> 1"
    using mset_subset_eq_count [OF m, of a] by (simp add: count_mset_set' split: if_splits)
  then have "count (mset (concat (classes p'))) a = 0" "count (mset out) a = 0" by simp_all
  then have "a \<notin> set out" "a \<notin> set (concat (classes p'))" by (simp_all only: count_mset_0_iff not_False_eq_True)
  with g show ?thesis by (intro exI [of _ a] exI [of _ p']) simp
qed

theorem bufferPool_Get_exclusive_witness:
  "\<exists>a p'. bufferPool_Get 0 2000 bufferPool_init = (Ok (a, 2000), p') \<and> length (take 2000 (heap p' a)) = 2000"
proof -
  have "reach bp_init bp_step (bufferPool_init, [])" by (rule reach_init) (simp add: bp_init_def)
  from bufferPool_Get_exclusive [OF this, of 0 2000] show ?thesis by auto
qed

text \<open>
  The class for a capacity below every class is class 0, so a buffer that did not come from
  \<open>Get\<close> and is smaller than 128 bytes poisons that class: a later \<open>Get\<close> panics.
\<close>

lemma foreign_buffer_poisons_pool:
  assumes "0 < length (heap p a)" "length (heap p a) < 128" "length (classes p) = 16"
  shows "fst (bufferPool_Get 0 128 (bufferPool_Put (Some a) p)) = Panic"
proof -
  let ?sz = "length (heap p a)"
  have "128 \<le> maxSize" by (simp add: maxSize_def sizes sizes_ge)
  moreover have "findPool ?sz = None"
    using findPool_Some [of ?sz] sizes_ge assms(2) by (cases "findPool ?sz") fastforce+
  moreover have "closest_from ?sz n = 0" if "n \<le> 16" for n
    using that
  proof (induction n)
    case (Suc n)
    with sizes_ge [of n] assms(2) show ?case by simp
  qed simp
  then have "findClosestPool ?sz = 0" by (simp add: findClosestPool_def sizes)
  ultimately have put: "bufferPool_Put (Some a) p = class_Put a 0 p" using assms(1,2) by (simp add: bufferPool_Put_def Let_def)
  have "findPool 128 = Some 0" by (simp add: findPool_def bufferPoolSizes_def)
  with put assms(2,3) show ?thesis
    by (simp add: bufferPool_Get_def resliced_def class_Get_def class_Put_def)
qed

end
