(* ===== verification/Buffers.thy ===== *)
theory Buffers
  imports BufferPool Codec
begin

text \<open>
  Reference-counted buffers and slices of them (\<^verbatim>\<open>mem/buffer.go\<close>, \<^verbatim>\<open>mem/buffer_slice.go\<close>)
  over an explicit store: the arrays of the buffer pool, the \<open>buffer\<close> objects and the
  counters. Objects and counters are recycled through pools of their own, so a freed object
  can come back as another buffer; \<open>choice\<close> says which element each \<open>sync.Pool\<close> hands out, as
  in the theory of the buffer pool.

  A Go slice is an array with an offset and a length. A pointer \<open>*[]byte\<close> is identified with
  the array it was made with. A counter is an integer: that 2^31 references to one buffer
  are alive at once is left out. An operation returns its outcome with the store, since a
  panic leaves the changes made before it.
\<close>

section \<open>Buffers\<close>

record slice =
  arr :: nat
  off :: nat
  len :: nat

record buffer =
  originData :: "nat option"
  view :: slice
  refs :: "nat option"
  pooled :: bool

record mem =
  arrays :: bufferPool
  objs :: "nat \<Rightarrow> buffer"
  cnts :: "nat \<Rightarrow> int"
  bufferObjectPool :: "nat list"
  refObjectPool :: "nat list"
  nobjs :: nat
  ncnts :: nat

record choice =
  pick_arr :: nat
  pick_obj :: nat
  pick_cnt :: nat

datatype Buffer = buffer_ptr nat | SliceBuffer slice | emptyBuffer

definition nil_slice :: slice where
  "nil_slice = \<lparr>arr = 0, off = 0, len = 0\<rparr>"

definition zero_buffer :: buffer where
  "zero_buffer = \<lparr>originData = None, view = nil_slice, refs = None, pooled = False\<rparr>"

definition mem_init :: mem where
  "mem_init = \<lparr>arrays = bufferPool_init, objs = (\<lambda>_. zero_buffer), cnts = (\<lambda>_. 0),
     bufferObjectPool = [], refObjectPool = [], nobjs = 0, ncnts = 0\<rparr>"

definition slice_bytes :: "mem \<Rightarrow> slice \<Rightarrow> bytes" where
  "slice_bytes m s = take (len s) (drop (off s) (heap (arrays m) (arr s)))"

definition slice_cap :: "mem \<Rightarrow> slice \<Rightarrow> nat" where
  "slice_cap m s = length (heap (arrays m) (arr s)) - off s"

definition newBuffer :: "nat \<Rightarrow> mem \<Rightarrow> nat \<times> mem" where
  "newBuffer pick m =
     (if pick < length (bufferObjectPool m)
      then (bufferObjectPool m ! pick, m\<lparr>bufferObjectPool := take_nth pick (bufferObjectPool m)\<rparr>)
      else (nobjs m, m\<lparr>objs := (objs m)(nobjs m := zero_buffer), nobjs := nobjs m + 1\<rparr>))"

definition newRefs :: "nat \<Rightarrow> mem \<Rightarrow> nat \<times> mem" where
  "newRefs pick m =
     (if pick < length (refObjectPool m)
      then (refObjectPool m ! pick, m\<lparr>refObjectPool := take_nth pick (refObjectPool m)\<rparr>)
      else (ncnts m, m\<lparr>cnts := (cnts m)(ncnts m := 0), ncnts := ncnts m + 1\<rparr>))"

definition refs_Add :: "nat \<Rightarrow> int \<Rightarrow> mem \<Rightarrow> mem" where
  "refs_Add c d m = m\<lparr>cnts := (cnts m)(c := cnts m c + d)\<rparr>"

definition set_obj :: "nat \<Rightarrow> buffer \<Rightarrow> mem \<Rightarrow> mem" where
  "set_obj b v m = m\<lparr>objs := (objs m)(b := v)\<rparr>"

definition NewBuffer :: "choice \<Rightarrow> slice \<Rightarrow> bool \<Rightarrow> mem \<Rightarrow> Buffer \<times> mem" where
  "NewBuffer ch data pool m =
     (if \<not> pool \<and> IsLessBufferPoolThreshold (slice_cap m data) then (SliceBuffer data, m)
      else
        (let (b, m) = newBuffer (pick_obj ch) m;
             (c, m) = newRefs (pick_cnt ch) m in
         (buffer_ptr b,
          refs_Add c 1 (set_obj b \<lparr>originData = Some (arr data), view = data, refs = Some c, pooled = pool\<rparr> m))))"

definition buffer_ReadOnlyData :: "nat \<Rightarrow> mem \<Rightarrow> bytes outcome" where
  "buffer_ReadOnlyData b m =
     (case refs (objs m b) of None \<Rightarrow> Panic | Some _ \<Rightarrow> Ok (slice_bytes m (view (objs m b))))"

definition buffer_Ref :: "nat \<Rightarrow> mem \<Rightarrow> unit outcome \<times> mem" where
  "buffer_Ref b m =
     (case refs (objs m b) of None \<Rightarrow> (Panic, m) | Some c \<Rightarrow> (Ok (), refs_Add c 1 m))"

definition pool_Put :: "nat option \<Rightarrow> mem \<Rightarrow> mem" where
  "pool_Put a m = m\<lparr>arrays := bufferPool_Put a (arrays m)\<rparr>"

definition release_buffer :: "nat \<Rightarrow> nat \<Rightarrow> mem \<Rightarrow> mem" where
  "release_buffer b c m =
     (let m = (if pooled (objs m b) then pool_Put (originData (objs m b)) m else m);
          m = m\<lparr>refObjectPool := c # refObjectPool m\<rparr>;
          m = set_obj b zero_buffer m in
      m\<lparr>bufferObjectPool := b # bufferObjectPool m\<rparr>)"

definition buffer_Free :: "nat \<Rightarrow> mem \<Rightarrow> unit outcome \<times> mem" where
  "buffer_Free b m =
     (case refs (objs m b) of
        None \<Rightarrow> (Panic, m)
      | Some c \<Rightarrow>
          (let m = refs_Add c (- 1) m; n = cnts m c in
           if n > 0 then (Ok (), m)
           else if n = 0 then (Ok (), release_buffer b c m)
           else (Panic, m)))"

text \<open>\<open>read(buf)\<close> gives the bytes it copied into a slice of length \<open>k\<close>, and the buffer that is left.\<close>

definition buffer_read :: "nat \<Rightarrow> nat \<Rightarrow> mem \<Rightarrow> (bytes \<times> Buffer option) outcome \<times> mem" where
  "buffer_read k b m =
     (case refs (objs m b) of
        None \<Rightarrow> (Panic, m)
      | Some _ \<Rightarrow>
          (let bs = slice_bytes m (view (objs m b)); n = min k (length bs) in
           if n = length bs then
             (case buffer_Free b m of (Ok _, m) \<Rightarrow> (Ok (take n bs, None), m) | (_, m) \<Rightarrow> (Panic, m))
           else
             (Ok (take n bs, Some (buffer_ptr b)),
              set_obj b ((objs m b)\<lparr>view := \<lparr>arr = arr (view (objs m b)), off = off (view (objs m b)) + n,
                len = len (view (objs m b)) - n\<rparr>\<rparr>) m)))"

definition buffer_split :: "choice \<Rightarrow> int \<Rightarrow> nat \<Rightarrow> mem \<Rightarrow> (Buffer \<times> Buffer) outcome \<times> mem" where
  "buffer_split ch n b m =
     (case refs (objs m b) of
        None \<Rightarrow> (Panic, m)
      | Some c \<Rightarrow>
          (let m = refs_Add c 1 m;
               (b', m) = newBuffer (pick_obj ch) m;
               v = view (objs m b) in
           if n < 0 \<or> int (len v) < n
           then (Panic, set_obj b' ((objs m b')\<lparr>originData := originData (objs m b)\<rparr>) m)
           else
             (let m = set_obj b' \<lparr>originData = originData (objs m b), view = \<lparr>arr = arr v, off = off v + nat n, len = len v - nat n\<rparr>,
                        refs = Some c, pooled = pooled (objs m b)\<rparr> m in
              (Ok (buffer_ptr b, buffer_ptr b'), set_obj b ((objs m b)\<lparr>view := v\<lparr>len := nat n\<rparr>\<rparr>) m))))"

text \<open>The methods of the interface: the three implementations.\<close>

definition ReadOnlyData :: "Buffer \<Rightarrow> mem \<Rightarrow> bytes outcome" where
  "ReadOnlyData b m =
     (case b of buffer_ptr p \<Rightarrow> buffer_ReadOnlyData p m | SliceBuffer s \<Rightarrow> Ok (slice_bytes m s) | emptyBuffer \<Rightarrow> Ok [])"

definition Ref :: "Buffer \<Rightarrow> mem \<Rightarrow> unit outcome \<times> mem" where
  "Ref b m = (case b of buffer_ptr p \<Rightarrow> buffer_Ref p m | SliceBuffer s \<Rightarrow> (Ok (), m) | emptyBuffer \<Rightarrow> (Ok (), m))"

definition Free :: "Buffer \<Rightarrow> mem \<Rightarrow> unit outcome \<times> mem" where
  "Free b m = (case b of buffer_ptr p \<Rightarrow> buffer_Free p m | SliceBuffer s \<Rightarrow> (Ok (), m) | emptyBuffer \<Rightarrow> (Ok (), m))"

definition Len :: "Buffer \<Rightarrow> mem \<Rightarrow> nat outcome" where
  "Len b m =
     (case b of
        buffer_ptr p \<Rightarrow> (case buffer_ReadOnlyData p m of Ok bs \<Rightarrow> Ok (length bs) | _ \<Rightarrow> Panic)
      | SliceBuffer s \<Rightarrow> Ok (length (slice_bytes m s))
      | emptyBuffer \<Rightarrow> Ok 0)"

definition SliceBuffer_read :: "nat \<Rightarrow> slice \<Rightarrow> mem \<Rightarrow> bytes \<times> Buffer option" where
  "SliceBuffer_read k s m =
     (let bs = slice_bytes m s; n = min k (length bs) in
      (take n bs,
       if n = length bs then None else Some (SliceBuffer (s\<lparr>off := off s + n, len := len s - n\<rparr>))))"

definition SliceBuffer_split :: "int \<Rightarrow> slice \<Rightarrow> (Buffer \<times> Buffer) outcome" where
  "SliceBuffer_split n s =
     (if n < 0 \<or> int (len s) < n then Panic
      else Ok (SliceBuffer (s\<lparr>len := nat n\<rparr>), SliceBuffer (s\<lparr>off := off s + nat n, len := len s - nat n\<rparr>)))"

definition Read :: "Buffer \<Rightarrow> nat \<Rightarrow> mem \<Rightarrow> (bytes \<times> Buffer option) outcome \<times> mem" where
  "Read b k m =
     (case b of
        buffer_ptr p \<Rightarrow> buffer_read k p m
      | SliceBuffer s \<Rightarrow> (Ok (SliceBuffer_read k s m), m)
      | emptyBuffer \<Rightarrow> (Ok ([], Some emptyBuffer), m))"

definition Split :: "choice \<Rightarrow> Buffer \<Rightarrow> int \<Rightarrow> mem \<Rightarrow> (Buffer \<times> Buffer) outcome \<times> mem" where
  "Split ch b n m =
     (case b of
        buffer_ptr p \<Rightarrow> buffer_split ch n p m
      | SliceBuffer s \<Rightarrow> (SliceBuffer_split n s, m)
      | emptyBuffer \<Rightarrow> (Ok (emptyBuffer, emptyBuffer), m))"

section \<open>Slices of buffers\<close>

fun BufferSlice_Len :: "Buffer list \<Rightarrow> mem \<Rightarrow> nat outcome" where
  "BufferSlice_Len [] m = Ok 0"
| "BufferSlice_Len (b # s) m =
     (case Len b m of
        Ok n \<Rightarrow> (case BufferSlice_Len s m of Ok k \<Rightarrow> Ok (n + k) | _ \<Rightarrow> Panic)
      | _ \<Rightarrow> Panic)"

fun BufferSlice_Free :: "Buffer list \<Rightarrow> mem \<Rightarrow> unit outcome \<times> mem" where
  "BufferSlice_Free [] m = (Ok (), m)"
| "BufferSlice_Free (b # s) m = (case Free b m of (Ok _, m) \<Rightarrow> BufferSlice_Free s m | (_, m) \<Rightarrow> (Panic, m))"

fun BufferSlice_Ref :: "Buffer list \<Rightarrow> mem \<Rightarrow> unit outcome \<times> mem" where
  "BufferSlice_Ref [] m = (Ok (), m)"
| "BufferSlice_Ref (b # s) m = (case Ref b m of (Ok _, m) \<Rightarrow> BufferSlice_Ref s m | (_, m) \<Rightarrow> (Panic, m))"

definition write_bytes :: "nat \<Rightarrow> nat \<Rightarrow> bytes \<Rightarrow> mem \<Rightarrow> mem" where
  "write_bytes a i bs m =
     (let h = heap (arrays m) a in
      m\<lparr>arrays := (arrays m)\<lparr>heap := (heap (arrays m))(a := take i h @ bs @ drop (i + length bs) h)\<rparr>\<rparr>)"

definition make_bytes :: "nat \<Rightarrow> mem \<Rightarrow> slice \<times> mem" where
  "make_bytes n m = (case alloc n (arrays m) of (a, p) \<Rightarrow> (\<lparr>arr = a, off = 0, len = n\<rparr>, m\<lparr>arrays := p\<rparr>))"

definition pool_Get :: "nat \<Rightarrow> nat \<Rightarrow> mem \<Rightarrow> slice outcome \<times> mem" where
  "pool_Get pick n m =
     (case bufferPool_Get pick (int n) (arrays m) of
        (Ok (a, k), p) \<Rightarrow> (Ok \<lparr>arr = a, off = 0, len = k\<rparr>, m\<lparr>arrays := p\<rparr>)
      | (_, p) \<Rightarrow> (Panic, m\<lparr>arrays := p\<rparr>))"

fun BufferSlice_CopyTo :: "Buffer list \<Rightarrow> slice \<Rightarrow> nat \<Rightarrow> mem \<Rightarrow> nat outcome \<times> mem" where
  "BufferSlice_CopyTo [] dst i m = (Ok i, m)"
| "BufferSlice_CopyTo (b # s) dst i m =
     (case ReadOnlyData b m of
        Ok bs \<Rightarrow>
          (let n = min (length bs) (len dst - i) in
           BufferSlice_CopyTo s dst (i + n) (write_bytes (arr dst) (off dst + i) (take n bs) m))
      | _ \<Rightarrow> (Panic, m))"

definition BufferSlice_Materialize :: "Buffer list \<Rightarrow> mem \<Rightarrow> slice outcome \<times> mem" where
  "BufferSlice_Materialize s m =
     (case BufferSlice_Len s m of
        Ok l \<Rightarrow>
          (if l = 0 then (Ok nil_slice, m)
           else
             (let (out, m) = make_bytes l m in
              case BufferSlice_CopyTo s out 0 m of (Ok _, m) \<Rightarrow> (Ok out, m) | (_, m) \<Rightarrow> (Panic, m)))
      | _ \<Rightarrow> (Panic, m))"

definition BufferSlice_MaterializeToBuffer :: "choice \<Rightarrow> Buffer list \<Rightarrow> mem \<Rightarrow> Buffer outcome \<times> mem" where
  "BufferSlice_MaterializeToBuffer ch s m =
     (if length s = 1 then (case Ref (hd s) m of (Ok _, m) \<Rightarrow> (Ok (hd s), m) | (_, m) \<Rightarrow> (Panic, m))
      else
        (case BufferSlice_Len s m of
           Ok sLen \<Rightarrow>
             (if sLen = 0 then (Ok emptyBuffer, m)
              else
                (case pool_Get (pick_arr ch) sLen m of
                   (Ok buf, m) \<Rightarrow>
                     (case BufferSlice_CopyTo s buf 0 m of
                        (Ok _, m) \<Rightarrow> (let (b, m) = NewBuffer ch buf True m in (Ok b, m))
                      | (_, m) \<Rightarrow> (Panic, m))
                 | (_, m) \<Rightarrow> (Panic, m)))
         | _ \<Rightarrow> (Panic, m)))"

definition Copy :: "choice \<Rightarrow> bytes \<Rightarrow> mem \<Rightarrow> Buffer outcome \<times> mem" where
  "Copy ch data m =
     (if IsLessBufferPoolThreshold (length data)
      then (let (s, m) = make_bytes (length data) m in (Ok (SliceBuffer s), write_bytes (arr s) 0 data m))
      else
        (case pool_Get (pick_arr ch) (length data) m of
           (Ok s, m) \<Rightarrow>
             (let (b, m) = NewBuffer ch s True (write_bytes (arr s) 0 (take (len s) data) m) in (Ok b, m))
         | (_, m) \<Rightarrow> (Panic, m)))"

section \<open>Reading and writing slices\<close>

record sliceReader =
  rdata :: "Buffer list"
  rlen :: int
  bufferIdx :: nat

definition NewReader :: "Buffer list \<Rightarrow> mem \<Rightarrow> sliceReader outcome \<times> mem" where
  "NewReader s m =
     (case BufferSlice_Ref s m of
        (Ok _, m) \<Rightarrow>
          (case BufferSlice_Len s m of
             Ok n \<Rightarrow> (Ok \<lparr>rdata = s, rlen = int n, bufferIdx = 0\<rparr>, m)
           | _ \<Rightarrow> (Panic, m))
      | (_, m) \<Rightarrow> (Panic, m))"

definition freeFirstBufferIfEmpty :: "sliceReader \<Rightarrow> mem \<Rightarrow> bool outcome \<times> sliceReader \<times> mem" where
  "freeFirstBufferIfEmpty r m =
     (case rdata r of
        [] \<Rightarrow> (Ok False, r, m)
      | b # rest \<Rightarrow>
          (case ReadOnlyData b m of
             Ok d \<Rightarrow>
               (if bufferIdx r \<noteq> length d then (Ok False, r, m)
                else
                  (case Free b m of
                     (Ok _, m) \<Rightarrow> (Ok True, r\<lparr>rdata := rest, bufferIdx := 0\<rparr>, m)
                   | (_, m) \<Rightarrow> (Panic, r, m)))
           | _ \<Rightarrow> (Panic, r, m)))"

text \<open>One copy of the loop of \<open>Read\<close>: the bytes taken from the first buffer, and the reader moved past them.\<close>

definition take_chunk :: "nat \<Rightarrow> sliceReader \<Rightarrow> mem \<Rightarrow> (bytes \<times> sliceReader) option" where
  "take_chunk k r m =
     (case rdata r of
        [] \<Rightarrow> None
      | b # _ \<Rightarrow>
          (case ReadOnlyData b m of
             Ok d \<Rightarrow>
               (if bufferIdx r > length d then None
                else
                  (let bs = take k (drop (bufferIdx r) d) in
                   Some (bs, r\<lparr>rlen := rlen r - int (length bs), bufferIdx := bufferIdx r + length bs\<rparr>)))
           | _ \<Rightarrow> None))"

lemma freeFirst_rdata: "freeFirstBufferIfEmpty r m = (x, r', m') \<Longrightarrow> rdata r' = rdata r \<or> rdata r' = tl (rdata r) \<and> rdata r \<noteq> []"
  by (auto simp: freeFirstBufferIfEmpty_def split: list.splits outcome.splits if_splits prod.splits)

lemma take_chunk_progress:
  assumes "take_chunk k r m = Some (bs, r1)" "freeFirstBufferIfEmpty r1 m = (Ok fr, r2, m2)" "k \<noteq> 0"
  shows "length (rdata r2) + (k - length bs) < length (rdata r) + k"
proof -
  from assms(1) obtain b rest d where r: "rdata r = b # rest" "ReadOnlyData b m = Ok d" "bufferIdx r \<le> length d"
    "bs = take k (drop (bufferIdx r) d)" "r1 = r\<lparr>rlen := rlen r - int (length bs), bufferIdx := bufferIdx r + length bs\<rparr>"
    by (auto simp: take_chunk_def Let_def split: list.splits outcome.splits if_splits)
  show ?thesis
  proof (cases "bufferIdx r + length bs = length d")
    case True
    with assms(2) r(1,2,5) have "rdata r2 = rest" by (auto simp: freeFirstBufferIfEmpty_def split: outcome.splits prod.splits)
    with r(1) show ?thesis by simp
  next
    case False
    with assms(2) r(1,2,5) have "r2 = r1" by (auto simp: freeFirstBufferIfEmpty_def)
    moreover have "length bs = k" using False r(3,4) by simp
    ultimately show ?thesis using assms(3) r(1,5) by simp
  qed
qed

function read_loop :: "nat \<Rightarrow> sliceReader \<Rightarrow> mem \<Rightarrow> bytes outcome \<times> sliceReader \<times> mem" where
  "read_loop k r m =
     (if k = 0 \<or> rlen r = 0 then (Ok [], r, m)
      else
        (case take_chunk k r m of
           None \<Rightarrow> (Panic, r, m)
         | Some (bs, r1) \<Rightarrow>
             (case freeFirstBufferIfEmpty r1 m of
                (Ok _, r2, m2) \<Rightarrow>
                  (case read_loop (k - length bs) r2 m2 of
                     (Ok bs', r3, m3) \<Rightarrow> (Ok (bs @ bs'), r3, m3)
                   | x \<Rightarrow> x)
              | (_, r2, m2) \<Rightarrow> (Panic, r2, m2))))"
  by pat_completeness auto
termination
  by (relation "measure (\<lambda>(k, r, _). length (rdata r) + k)") (auto intro: take_chunk_progress [OF _ sym])

declare read_loop.simps [simp del]

definition sliceReader_Read :: "nat \<Rightarrow> sliceReader \<Rightarrow> mem \<Rightarrow> bytes outcome \<times> sliceReader \<times> mem" where
  "sliceReader_Read k r m = (if rlen r = 0 then (Fail EOF, r, m) else read_loop k r m)"

function clear_empty :: "sliceReader \<Rightarrow> mem \<Rightarrow> unit outcome \<times> sliceReader \<times> mem" where
  "clear_empty r m =
     (case freeFirstBufferIfEmpty r m of
        (Ok fr, r', m') \<Rightarrow> (if fr then clear_empty r' m' else (Ok (), r', m'))
      | (_, r', m') \<Rightarrow> (Panic, r', m'))"
  by pat_completeness auto
termination
  by (relation "measure (\<lambda>(r, _). length (rdata r))")
    (auto simp: freeFirstBufferIfEmpty_def split: list.splits outcome.splits if_splits prod.splits)

declare clear_empty.simps [simp del]

definition sliceReader_ReadByte :: "sliceReader \<Rightarrow> mem \<Rightarrow> byte outcome \<times> sliceReader \<times> mem" where
  "sliceReader_ReadByte r m =
     (if rlen r = 0 then (Fail EOF, r, m)
      else
        (case clear_empty r m of
           (Ok _, r, m) \<Rightarrow>
             (case rdata r of
                [] \<Rightarrow> (Panic, r, m)
              | b # _ \<Rightarrow>
                  (case ReadOnlyData b m of
                     Ok d \<Rightarrow>
                       (if bufferIdx r < length d then
                          (case freeFirstBufferIfEmpty (r\<lparr>bufferIdx := bufferIdx r + 1, rlen := rlen r - 1\<rparr>) m of
                             (Ok _, r', m') \<Rightarrow> (Ok (d ! bufferIdx r), r', m')
                           | (_, r', m') \<Rightarrow> (Panic, r', m'))
                        else (Panic, r, m))
                   | _ \<Rightarrow> (Panic, r, m)))
         | (_, r, m) \<Rightarrow> (Panic, r, m)))"

definition sliceReader_Close :: "sliceReader \<Rightarrow> mem \<Rightarrow> unit outcome \<times> sliceReader \<times> mem" where
  "sliceReader_Close r m =
     (case BufferSlice_Free (rdata r) m of
        (Ok _, m) \<Rightarrow> (Ok (), r\<lparr>rdata := [], rlen := 0\<rparr>, m)
      | (_, m) \<Rightarrow> (Panic, r, m))"

definition sliceReader_Remain :: "sliceReader \<Rightarrow> int" where
  "sliceReader_Remain r = rlen r"

definition writer_Write :: "choice \<Rightarrow> bytes \<Rightarrow> Buffer list \<Rightarrow> mem \<Rightarrow> nat outcome \<times> Buffer list \<times> mem" where
  "writer_Write ch p buffers m =
     (case Copy ch p m of
        (Ok b, m) \<Rightarrow> (case Len b m of Ok n \<Rightarrow> (Ok n, buffers @ [b], m) | _ \<Rightarrow> (Panic, buffers @ [b], m))
      | (_, m) \<Rightarrow> (Panic, buffers, m))"

fun write_all :: "(nat \<Rightarrow> choice) \<Rightarrow> bytes list \<Rightarrow> Buffer list \<Rightarrow> mem \<Rightarrow> Buffer list outcome \<times> mem" where
  "write_all ch [] buffers m = (Ok buffers, m)"
| "write_all ch (p # ps) buffers m =
     (case writer_Write (ch (length buffers)) p buffers m of
        (Ok _, buffers', m') \<Rightarrow> write_all ch ps buffers' m'
      | (_, _, m') \<Rightarrow> (Panic, m'))"

text \<open>
  \<open>ReadAll\<close>. The reader is code outside: \<open>rd st k\<close> is what a \<open>Read\<close> into \<open>k\<close> bytes returns, with the next
  state of the reader. A reader that is an \<open>io.WriterTo\<close> is given by the chunks it writes and
  the error it ends with. \<open>ch\<close> gives the choices of the pools for the \<open>n\<close>th buffer of the result.
\<close>

type_synonym 'r io_reader = "'r \<Rightarrow> nat \<Rightarrow> bytes \<times> goerr option \<times> 'r"

definition eof_is_nil :: "goerr \<Rightarrow> goerr option" where
  "eof_is_nil e = (if e = EOF then None else Some e)"

definition next_buffer :: "choice \<Rightarrow> mem \<Rightarrow> slice outcome \<times> mem" where
  "next_buffer ch m =
     (case pool_Get (pick_arr ch) (32 * 1024) m of
        (Ok buf, m) \<Rightarrow> (Ok (buf\<lparr>len := slice_cap m buf\<rparr>), m)
      | (_, m) \<Rightarrow> (Panic, m))"

definition finish_buffer :: "choice \<Rightarrow> slice \<Rightarrow> nat \<Rightarrow> Buffer list \<Rightarrow> mem \<Rightarrow> Buffer list \<times> mem" where
  "finish_buffer ch buf usedCap result m =
     (if usedCap = 0 then (result, pool_Put (Some (arr buf)) m)
      else (let (b, m) = NewBuffer ch (buf\<lparr>len := usedCap\<rparr>) True m in (result @ [b], m)))"

partial_function (option) ReadAll_loop ::
  "'r io_reader \<Rightarrow> (nat \<Rightarrow> choice) \<Rightarrow> slice \<Rightarrow> nat \<Rightarrow> Buffer list \<Rightarrow> 'r \<Rightarrow> mem
     \<Rightarrow> ((Buffer list \<times> goerr option) outcome \<times> mem) option" where
  "ReadAll_loop rd ch buf usedCap result st m =
     (let (bs, err, st) = rd st (len buf - usedCap);
          m = write_bytes (arr buf) (off buf + usedCap) bs m;
          usedCap = usedCap + length bs in
      case err of
        Some e \<Rightarrow> (let (result, m) = finish_buffer (ch (length result)) buf usedCap result m in
                   Some (Ok (result, eof_is_nil e), m))
      | None \<Rightarrow>
          (if len buf = usedCap then
             (let (b, m) = NewBuffer (ch (length result)) buf True m in
              case next_buffer (ch (Suc (length result))) m of
                (Ok buf', m) \<Rightarrow> ReadAll_loop rd ch buf' 0 (result @ [b]) st m
              | (_, m) \<Rightarrow> Some (Panic, m))
           else ReadAll_loop rd ch buf usedCap result st m))"

definition ReadAll ::
  "(bytes list \<times> goerr option) option \<Rightarrow> 'r io_reader \<Rightarrow> (nat \<Rightarrow> choice) \<Rightarrow> 'r \<Rightarrow> mem
     \<Rightarrow> ((Buffer list \<times> goerr option) outcome \<times> mem) option" where
  "ReadAll wt rd ch st m =
     (case wt of
        Some (chunks, err) \<Rightarrow>
          (case write_all ch chunks [] m of
             (Ok result, m) \<Rightarrow> Some (Ok (result, err), m)
           | (_, m) \<Rightarrow> Some (Panic, m))
      | None \<Rightarrow>
          (case next_buffer (ch 0) m of
             (Ok buf, m) \<Rightarrow> ReadAll_loop rd ch buf 0 [] st m
           | (_, m) \<Rightarrow> Some (Panic, m)))"

end
