(* ===== verification/Buffers_Inv.thy ===== *)
theory Buffers_Inv
  imports Buffers
begin

text \<open>
  The invariant of the buffer store, and what each operation on buffers keeps of it.

  \<open>rc m H L out F\<close> is the invariant of the store \<open>m\<close>: \<open>H\<close> lists the references that users hold to
  \<open>buffer\<close> objects, an object once per reference; \<open>L\<close> pairs each counter in use with its
  array; \<open>out\<close> are the arrays that users hold directly, after a \<open>Get\<close>; \<open>F\<close> are the arrays
  that plain slices were made with. It says that a counter counts the references that share it, that
  recycled counters are zero, that a held object is not recycled and points into its
  array, and, through the invariant of the buffer pool, that no array is in two places.
\<close>

definition points :: "mem \<Rightarrow> (nat \<times> nat) list \<Rightarrow> nat \<Rightarrow> bool" where
  "points m L b \<longleftrightarrow>
     (\<exists>c. refs (objs m b) = Some c \<and> (c, arr (view (objs m b))) \<in> set L
        \<and> originData (objs m b) = Some (arr (view (objs m b)))
        \<and> off (view (objs m b)) + len (view (objs m b)) \<le> length (heap (arrays m) (arr (view (objs m b)))))"

definition shared :: "mem \<Rightarrow> nat list \<Rightarrow> nat \<Rightarrow> nat" where
  "shared m H c = length (filter (\<lambda>b. refs (objs m b) = Some c) H)"

definition recycled :: "mem \<Rightarrow> bool" where
  "recycled m \<longleftrightarrow> distinct (bufferObjectPool m) \<and> distinct (refObjectPool m)
     \<and> (\<forall>b \<in> set (bufferObjectPool m). b < nobjs m)
     \<and> (\<forall>c \<in> set (refObjectPool m). c < ncnts m \<and> cnts m c = 0)"

definition arrays_ok :: "bufferPool \<Rightarrow> nat list \<Rightarrow> nat set \<Rightarrow> bool" where
  "arrays_ok p out F \<longleftrightarrow> bp_inv (p, out) \<and> (\<forall>a \<in> F. a < fresh p \<and> a \<notin> set (concat (classes p)) \<and> a \<notin> set out)"

definition counted :: "mem \<Rightarrow> nat list \<Rightarrow> (nat \<times> nat) list \<Rightarrow> bool" where
  "counted m H L \<longleftrightarrow> distinct (map fst L)
     \<and> (\<forall>c a. (c, a) \<in> set L \<longrightarrow> c < ncnts m \<and> c \<notin> set (refObjectPool m) \<and> cnts m c = int (shared m H c) \<and> 0 < shared m H c)"

definition rc :: "mem \<Rightarrow> nat list \<Rightarrow> (nat \<times> nat) list \<Rightarrow> nat list \<Rightarrow> nat set \<Rightarrow> bool" where
  "rc m H L out F \<longleftrightarrow> arrays_ok (arrays m) (map snd L @ out) F \<and> recycled m \<and> counted m H L
     \<and> (\<forall>b \<in> set H. b < nobjs m \<and> b \<notin> set (bufferObjectPool m) \<and> points m L b)"

section \<open>Arrays\<close>

lemma bp_inv_owned:
  assumes "bp_inv (p, out)"
  shows "distinct (concat (classes p) @ out)" "a \<in> set (concat (classes p) @ out) \<Longrightarrow> a < fresh p"
proof -
  have m: "mset (concat (classes p) @ out) \<subseteq># mset_set {..<fresh p}" using assms by (simp add: bp_inv_def)
  then show "a \<in> set (concat (classes p) @ out) \<Longrightarrow> a < fresh p" using mset_subset_eqD [OF m, of a] by simp
  have "count (mset (concat (classes p) @ out)) x \<le> 1" for x
    by (rule order_trans [OF mset_subset_eq_count [OF m]]) (simp add: count_mset_set')
  then have "count (mset (concat (classes p) @ out)) x = (if x \<in> set (concat (classes p) @ out) then 1 else 0)" for x
    by (metis One_nat_def count_mset_0_iff le_Suc_eq le_zero_eq)
  then show "distinct (concat (classes p) @ out)" unfolding distinct_count_atmost_1 by blast
qed

lemma bp_inv_perm: "bp_inv (p, out) \<Longrightarrow> mset out' = mset out \<Longrightarrow> bp_inv (p, out')"
  by (simp add: bp_inv_def) (metis mset_eq_setD)

lemma arrays_ok_perm: "arrays_ok p out F \<Longrightarrow> mset out' = mset out \<Longrightarrow> arrays_ok p out' F"
  using bp_inv_perm [of p out out'] mset_eq_setD [of out' out] by (simp add: arrays_ok_def)

lemma bp_inv_sub: "bp_inv (p, out) \<Longrightarrow> mset out' \<subseteq># mset out \<Longrightarrow> bp_inv (p, out')"
proof -
  assume "bp_inv (p, out)" and s: "mset out' \<subseteq># mset out"
  moreover have "set out' \<subseteq> set out" using set_mset_mono [OF s] by simp
  moreover have "mset (concat (classes p)) + mset out' \<subseteq># mset (concat (classes p)) + mset out" using s by simp
  ultimately show ?thesis using subset_mset.order_trans by (auto simp only: bp_inv_def prod.case)
qed

lemma set_concat_update: "set (concat (xss[i := ys])) \<subseteq> set (concat xss) \<union> set ys"
  using set_update_subset_insert [of xss i ys] by auto

lemma class_Get_frame:
  assumes "class_Get pick i p = (a, p')" "i < length (classes p)"
  shows "set (concat (classes p')) \<subseteq> set (concat (classes p))" "a \<in> set (concat (classes p)) \<or> a = fresh p"
    "fresh p \<le> fresh p'" "\<forall>x < fresh p. heap p' x = heap p x"
proof -
  have "set (concat ((classes p)[i := take_nth pick (classes p ! i)])) \<subseteq> set (concat (classes p))"
    using set_concat_update [of "classes p" i] set_take_nth [of pick "classes p ! i"] nth_mem [OF assms(2)] by fastforce
  moreover have "classes p ! i ! pick \<in> set (concat (classes p))" if "pick < length (classes p ! i)"
    using nth_mem [OF that] nth_mem [OF assms(2)] by auto
  ultimately show "set (concat (classes p')) \<subseteq> set (concat (classes p))" "a \<in> set (concat (classes p)) \<or> a = fresh p"
    "fresh p \<le> fresh p'" "\<forall>x < fresh p. heap p' x = heap p x"
    using assms(1) by (auto simp: class_Get_def alloc_def Let_def simp del: set_concat split: if_splits)
qed

lemma alloc_frame:
  assumes "alloc n p = (a, p')"
  shows "classes p' = classes p" "a = fresh p" "fresh p' = fresh p + 1" "\<forall>x < fresh p. heap p' x = heap p x" "heap p' a = replicate n 0"
  using assms by (auto simp: alloc_def)

lemma bufferPool_Get_frame:
  assumes "bufferPool_Get pick sz p = (Ok (a, n), p')" "length (classes p) = 16"
  shows "set (concat (classes p')) \<subseteq> set (concat (classes p)) \<and> (a \<in> set (concat (classes p)) \<or> a = fresh p)
    \<and> fresh p \<le> fresh p' \<and> (\<forall>x < fresh p. heap p' x = heap p x)"
proof -
  have res: "resliced k r = (Ok (a, n), p') \<Longrightarrow> r = (a, p')" for k r
    by (auto simp: resliced_def split: prod.splits if_splits)
  have "(\<exists>k. alloc k p = (a, p')) \<or> (\<exists>i < 16. class_Get pick i p = (a, p'))"
    using assms(1) findPool_Some findBestFitPool_Some
    by (auto simp: bufferPool_Get_def split: if_splits option.splits dest!: res)
  then show ?thesis
  proof (elim disjE exE conjE)
    fix k
    assume "alloc k p = (a, p')"
    then show ?thesis by (auto simp: alloc_def)
  next
    fix i
    assume "i < 16" "class_Get pick i p = (a, p')"
    with class_Get_frame [of pick i p a p'] assms(2) show ?thesis by simp
  qed
qed

lemma arrays_ok_Get:
  assumes "arrays_ok p out F"
  shows "\<exists>a p'. bufferPool_Get pick (int n) p = (Ok (a, n), p') \<and> arrays_ok p' (a # out) F \<and> n \<le> length (heap p' a)
    \<and> a \<notin> set out \<and> a \<notin> F \<and> (\<forall>x \<in> set out \<union> F. heap p' x = heap p x)"
proof -
  have inv: "bp_inv (p, out)" and F: "\<forall>x \<in> F. x < fresh p \<and> x \<notin> set (concat (classes p)) \<and> x \<notin> set out"
    using assms by (simp_all add: arrays_ok_def)
  from bufferPool_Get_ok [OF inv, of pick "int n"] obtain a p' where
    g: "bufferPool_Get pick (int n) p = (Ok (a, n), p')" "bp_inv (p', a # out)" "n \<le> length (heap p' a)" by auto
  have l: "length (classes p) = 16" using inv by (simp add: bp_inv_def)
  note fr = bufferPool_Get_frame [OF g(1) l]
  have "a \<notin> set out" using bp_inv_owned(1) [OF g(2)] by auto
  moreover have "a \<notin> F" using F fr by auto
  moreover have "arrays_ok p' (a # out) F" using g(2) F fr \<open>a \<notin> F\<close> by (auto simp: arrays_ok_def)
  moreover have "\<forall>x \<in> set out \<union> F. heap p' x = heap p x" using F fr bp_inv_owned(2) [OF inv] by auto
  ultimately show ?thesis using g by blast
qed

lemma arrays_ok_alloc:
  assumes "arrays_ok p out F" "alloc n p = (a, p')"
  shows "arrays_ok p' out (insert a F)" "a \<notin> set out" "a \<notin> F" "\<forall>x \<in> set out \<union> F. heap p' x = heap p x" "heap p' a = replicate n 0"
proof -
  have inv: "bp_inv (p, out)" and F: "\<forall>x \<in> F. x < fresh p \<and> x \<notin> set (concat (classes p)) \<and> x \<notin> set out"
    using assms by (simp_all add: arrays_ok_def)
  note fr = alloc_frame [OF assms(2)]
  have own: "x \<in> set (concat (classes p) @ out) \<Longrightarrow> x < fresh p" for x using bp_inv_owned(2) [OF inv] by blast
  then show a: "a \<notin> set out" "a \<notin> F" "\<forall>x \<in> set out \<union> F. heap p' x = heap p x" "heap p' a = replicate n 0"
    using F fr by fastforce+
  have "mset_set {..<fresh p} \<subseteq># mset_set {..<fresh p'}" using fr by (intro subset_imp_msubset_mset_set) auto
  then have "mset (concat (classes p)) + mset out \<subseteq># mset_set {..<fresh p'}"
    using inv by (auto simp: bp_inv_def intro: subset_mset.order_trans)
  moreover have "heap p' x = heap p x" if "x \<in> set (concat (classes p) @ out)" for x using own [OF that] fr by simp
  moreover have "x \<in> set (concat (classes p) @ out)" if "i < 16" "x \<in> set (classes p ! i)" for i x
    using that inv nth_mem [of i "classes p"] by (auto simp: bp_inv_def)
  ultimately have "bp_inv (p', out)" using inv fr by (simp add: bp_inv_def)
  moreover have "a \<notin> set (concat (classes p))" using own [of a] fr by auto
  ultimately show "arrays_ok p' out (insert a F)" using F a fr by (auto simp: arrays_ok_def)
qed

lemma bufferPool_Put_frame:
  "heap (bufferPool_Put (Some a) p) = heap p" "fresh (bufferPool_Put (Some a) p) = fresh p"
  "set (concat (classes (bufferPool_Put (Some a) p))) \<subseteq> insert a (set (concat (classes p)))"
proof -
  have "set (concat (classes (class_Put a i p))) \<subseteq> insert a (set (concat (classes p)))" for i
  proof (cases "i < length (classes p)")
    case True
    then show ?thesis using set_concat_update [of "classes p" i "a # classes p ! i"] by (fastforce simp: class_Put_def)
  qed (auto simp: class_Put_def list_update_beyond)
  then show "set (concat (classes (bufferPool_Put (Some a) p))) \<subseteq> insert a (set (concat (classes p)))"
    by (auto simp: bufferPool_Put_def Let_def split: option.split)
qed (simp_all add: bufferPool_Put_def Let_def class_Put_def split: option.split)

lemma arrays_ok_Put: "arrays_ok p (a # out) F \<Longrightarrow> arrays_ok (bufferPool_Put (Some a) p) out F"
  using bufferPool_Put_inv [of p "a # out" a] bufferPool_Put_frame [of a p] by (auto simp: arrays_ok_def)

lemma arrays_ok_drop: "arrays_ok p (a # out) F \<Longrightarrow> arrays_ok p out F"
  using bp_inv_sub [of p "a # out" out] by (auto simp: arrays_ok_def)

lemma arrays_ok_heap: "arrays_ok p out F \<Longrightarrow> length bs = length (heap p a) \<Longrightarrow> arrays_ok (p\<lparr>heap := (heap p)(a := bs)\<rparr>) out F"
proof -
  assume ok: "arrays_ok p out F" and l: "length bs = length (heap p a)"
  then have "length (((heap p)(a := bs)) x) = length (heap p x)" for x by simp
  with ok show ?thesis by (simp add: arrays_ok_def bp_inv_def del: fun_upd_apply flip: length_0_conv)
qed

section \<open>Reference counts\<close>

lemma shared_cong: "\<forall>x \<in> set H. refs (objs m' x) = refs (objs m x) \<Longrightarrow> shared m' H c = shared m H c"
  unfolding shared_def by (metis (mono_tags, lifting) filter_cong)

lemma shared_Cons: "shared m (b # H) c = (if refs (objs m b) = Some c then 1 else 0) + shared m H c"
  by (simp add: shared_def)

lemma shared_remove1: "b \<in> set H \<Longrightarrow> shared m H c = (if refs (objs m b) = Some c then 1 else 0) + shared m (remove1 b H) c"
  by (induction H) (auto simp: shared_def)

lemma points_cong:
  "objs m' b = objs m b \<Longrightarrow> heap (arrays m') = heap (arrays m) \<Longrightarrow> points m' L b = points m L b"
  by (simp add: points_def)

lemma rc_live:
  "rc m H L out F \<Longrightarrow> (c, a) \<in> set L \<Longrightarrow>
     c < ncnts m \<and> c \<notin> set (refObjectPool m) \<and> cnts m c = int (shared m H c) \<and> 0 < shared m H c"
  unfolding rc_def counted_def by blast

lemma take_nth_distinct:
  assumes "distinct xs" "i < length xs"
  shows "distinct (take_nth i xs)" "xs ! i \<notin> set (take_nth i xs)" "set (take_nth i xs) \<subseteq> set xs"
proof -
  have m: "mset xs = add_mset (xs ! i) (mset (take_nth i xs))" using mset_take_nth [OF assms(2)] by simp
  then have "mset (xs ! i # take_nth i xs) = mset xs" by simp
  then have "distinct (xs ! i # take_nth i xs)" using assms(1) by (metis mset_eq_imp_distinct_iff)
  then show "distinct (take_nth i xs)" "xs ! i \<notin> set (take_nth i xs)" by simp_all
  show "set (take_nth i xs) \<subseteq> set xs" by (rule set_take_nth)
qed

lemma newBuffer_rc:
  assumes "rc m H L out F" "newBuffer pick m = (b, m')"
  shows "rc m' H L out F" "b < nobjs m'" "b \<notin> set (bufferObjectPool m')" "b \<notin> set H"
    "\<forall>x. x \<noteq> b \<longrightarrow> objs m' x = objs m x" "arrays m' = arrays m" "cnts m' = cnts m"
proof -
  show frame: "b < nobjs m'" "b \<notin> set (bufferObjectPool m')" "b \<notin> set H" "\<forall>x. x \<noteq> b \<longrightarrow> objs m' x = objs m x"
    "arrays m' = arrays m" "cnts m' = cnts m"
    using assms by (auto simp: newBuffer_def rc_def recycled_def take_nth_distinct split: if_splits)
  have more: "nobjs m \<le> nobjs m'" "set (bufferObjectPool m') \<subseteq> set (bufferObjectPool m)" "distinct (bufferObjectPool m')"
    "refObjectPool m' = refObjectPool m" "ncnts m' = ncnts m"
    using assms take_nth_distinct [of "bufferObjectPool m" pick] by (auto simp: newBuffer_def rc_def recycled_def split: if_splits)
  have objs: "objs m' x = objs m x" if "x \<in> set H" for x using that frame(3,4) by metis
  then have "shared m' H c = shared m H c" for c by (intro shared_cong) simp
  moreover have "points m' L x = points m L x" if "x \<in> set H" for x using objs [OF that] frame(5) by (intro points_cong) simp_all
  ultimately show "rc m' H L out F" using assms(1) frame more by (fastforce simp: rc_def recycled_def counted_def)
qed

lemma newRefs_rc:
  assumes "rc m H L out F" "newRefs pick m = (c, m')"
  shows "rc m' H L out F" "c < ncnts m'" "c \<notin> set (refObjectPool m')" "\<And>a. (c, a) \<notin> set L" "cnts m' c = 0"
    "objs m' = objs m" "arrays m' = arrays m" "nobjs m' = nobjs m" "bufferObjectPool m' = bufferObjectPool m"
proof -
  have "c \<in> set (refObjectPool m) \<or> c = ncnts m" using assms(2) by (auto simp: newRefs_def split: if_splits)
  with rc_live [OF assms(1)] show "(c, a) \<notin> set L" for a by (metis less_irrefl)
  show frame: "c < ncnts m'" "c \<notin> set (refObjectPool m')" "cnts m' c = 0"
    "objs m' = objs m" "arrays m' = arrays m" "nobjs m' = nobjs m" "bufferObjectPool m' = bufferObjectPool m"
    using assms take_nth_distinct [of "refObjectPool m" pick] by (auto simp: newRefs_def rc_def recycled_def split: if_splits)
  have more: "ncnts m \<le> ncnts m'" "set (refObjectPool m') \<subseteq> set (refObjectPool m)" "distinct (refObjectPool m')"
    "\<forall>x < ncnts m. cnts m' x = cnts m x"
    using assms take_nth_distinct [of "refObjectPool m" pick] by (auto simp: newRefs_def rc_def recycled_def split: if_splits)
  have "shared m' H x = shared m H x" for x using frame by (intro shared_cong) simp
  then have "counted m' H L" using assms(1) rc_live [OF assms(1)] more unfolding counted_def by (fastforce simp: rc_def counted_def)
  moreover have "points m' L x = points m L x" for x using frame by (intro points_cong) simp_all
  moreover have "recycled m'"
    using assms take_nth_distinct [of "refObjectPool m" pick] by (auto simp: newRefs_def rc_def recycled_def less_Suc_eq split: if_splits)
  ultimately show "rc m' H L out F" using assms(1) frame by (simp add: rc_def)
qed

lemma refs_Add_frame [simp]:
  "objs (refs_Add c d m) = objs m" "arrays (refs_Add c d m) = arrays m" "nobjs (refs_Add c d m) = nobjs m"
  "ncnts (refs_Add c d m) = ncnts m" "bufferObjectPool (refs_Add c d m) = bufferObjectPool m"
  "refObjectPool (refs_Add c d m) = refObjectPool m" "cnts (refs_Add c d m) = (cnts m)(c := cnts m c + d)"
  by (simp_all add: refs_Add_def)

lemma set_obj_frame [simp]:
  "objs (set_obj b v m) = (objs m)(b := v)" "arrays (set_obj b v m) = arrays m" "nobjs (set_obj b v m) = nobjs m"
  "ncnts (set_obj b v m) = ncnts m" "bufferObjectPool (set_obj b v m) = bufferObjectPool m"
  "refObjectPool (set_obj b v m) = refObjectPool m" "cnts (set_obj b v m) = cnts m"
  by (simp_all add: set_obj_def)

definition slice_ok :: "mem \<Rightarrow> slice \<Rightarrow> bool" where
  "slice_ok m s \<longleftrightarrow> off s + len s \<le> length (heap (arrays m) (arr s))"

lemma slice_bytes_length: "slice_ok m s \<Longrightarrow> length (slice_bytes m s) = len s"
  by (simp add: slice_ok_def slice_bytes_def)

text \<open>\<open>NewBuffer\<close> that makes a \<open>buffer\<close>, on an array the caller holds: the caller's array becomes the array of a new reference.\<close>

lemma NewBuffer_rc:
  assumes "rc m H L (arr s # out) F" "slice_ok m s" "pool \<or> \<not> IsLessBufferPoolThreshold (slice_cap m s)"
  shows "\<exists>b c m'. NewBuffer ch s pool m = (buffer_ptr b, m') \<and> rc m' (b # H) ((c, arr s) # L) out F \<and> b \<notin> set H
    \<and> view (objs m' b) = s \<and> refs (objs m' b) = Some c \<and> arrays m' = arrays m \<and> (\<forall>x \<in> set H. objs m' x = objs m x)"
proof -
  obtain b m1 where n1: "newBuffer (pick_obj ch) m = (b, m1)" by fastforce
  note r1 = newBuffer_rc [OF assms(1) n1]
  obtain c m2 where n2: "newRefs (pick_cnt ch) m1 = (c, m2)" by fastforce
  note r2 = newRefs_rc [OF r1(1) n2]
  define v where "v = \<lparr>originData = Some (arr s), view = s, refs = Some c, pooled = pool\<rparr>"
  define m' where "m' = refs_Add c 1 (set_obj b v m2)"
  have eq: "NewBuffer ch s pool m = (buffer_ptr b, m')" using assms(3) by (auto simp: NewBuffer_def n1 n2 m'_def v_def)
  have objs: "objs m' b = v" "\<And>x. x \<noteq> b \<Longrightarrow> objs m' x = objs m x" using r1(5) r2(6) by (simp_all add: m'_def)
  have unref: "refs (objs m2 x) \<noteq> Some c" if "x \<in> set H" for x
    using r2(1,4) that by (force simp: rc_def points_def)
  have old: "objs m' x = objs m2 x" if "x \<in> set H" for x using that r1(4) by (auto simp: m'_def)
  have sh0: "shared m' H c' = shared m2 H c'" for c' using old by (intro shared_cong) simp
  have "shared m2 H c = 0" using unref by (simp add: shared_def filter_empty_conv)
  then have shc: "shared m' (b # H) c = 1" using sh0 objs by (simp add: shared_Cons v_def)
  have shx: "shared m' (b # H) x = shared m2 H x" if "x \<noteq> c" for x using sh0 objs that by (simp add: shared_Cons v_def)
  have arrs: "arrays m' = arrays m" using r1(6) r2(7) by (simp add: m'_def)
  have "arrays_ok (arrays m') (map snd ((c, arr s) # L) @ out) F"
    using assms(1) arrs arrays_ok_perm [of "arrays m" "map snd L @ arr s # out" F "arr s # map snd L @ out"] by (simp add: rc_def)
  moreover have "recycled m'" using r2(1,3) by (auto simp: rc_def recycled_def m'_def)
  moreover have "counted m' (b # H) ((c, arr s) # L)"
  proof -
    have "x \<noteq> c \<and> x < ncnts m' \<and> x \<notin> set (refObjectPool m') \<and> cnts m' x = int (shared m' (b # H) x) \<and> 0 < shared m' (b # H) x"
      if "(x, a) \<in> set L" for x a using rc_live [OF r2(1) that] that r2(4) shx [of x] by (cases "x = c") (simp_all add: m'_def)
    moreover have "c < ncnts m' \<and> c \<notin> set (refObjectPool m') \<and> cnts m' c = int (shared m' (b # H) c)"
      using r2(2,3,5) shc by (simp add: m'_def)
    moreover have "distinct (map fst L)" using r2(1) by (simp add: rc_def counted_def)
    ultimately show ?thesis using r2(4) shc by (auto simp: counted_def)
  qed
  moreover have "x < nobjs m' \<and> x \<notin> set (bufferObjectPool m') \<and> points m' ((c, arr s) # L) x" if "x \<in> set (b # H)" for x
  proof (cases "x = b")
    case True
    then show ?thesis using r1(2,3) r2(8,9) assms(2) objs arrs by (simp add: m'_def points_def v_def slice_ok_def)
  next
    case False
    then have "x \<in> set H" using that by simp
    with r2(1) old [of x] show ?thesis by (auto simp: rc_def points_def m'_def)
  qed
  ultimately have "rc m' (b # H) ((c, arr s) # L) out F" by (simp add: rc_def)
  with eq r1(4) objs arrs show ?thesis by (metis (no_types, lifting) buffer.select_convs(2,3) v_def)
qed

lemma buffer_Ref_rc:
  assumes "rc m H L out F" "b \<in> set H"
  shows "\<exists>m'. buffer_Ref b m = (Ok (), m') \<and> rc m' (b # H) L out F \<and> objs m' = objs m \<and> arrays m' = arrays m"
proof -
  from assms obtain c where c: "refs (objs m b) = Some c" "(c, arr (view (objs m b))) \<in> set L" by (auto simp: rc_def points_def)
  define m' where "m' = refs_Add c 1 m"
  have sh: "shared m' (b # H) x = shared m H x + (if x = c then 1 else 0)" for x
    using c shared_cong [of H m' m x] by (simp add: shared_Cons m'_def)
  have "counted m' (b # H) L" using assms(1) sh by (auto simp: rc_def counted_def m'_def)
  moreover have "recycled m'" using assms(1) c(2) by (force simp: rc_def recycled_def counted_def m'_def)
  moreover have "\<forall>x \<in> set (b # H). points m' L x" using assms by (auto simp: rc_def points_def m'_def)
  ultimately have "rc m' (b # H) L out F" using assms by (auto simp: rc_def m'_def)
  then show ?thesis using c by (simp add: buffer_Ref_def m'_def)
qed

lemma rc_held:
  assumes "rc m H L out F" "b \<in> set H"
  obtains c where "refs (objs m b) = Some c" "(c, arr (view (objs m b))) \<in> set L" "originData (objs m b) = Some (arr (view (objs m b)))"
    "slice_ok m (view (objs m b))" "b < nobjs m" "b \<notin> set (bufferObjectPool m)"
  using assms by (auto simp: rc_def points_def slice_ok_def)

text \<open>A \<open>Free\<close> that is not the last one only counts down.\<close>

lemma counted_down_rc:
  assumes "rc m H L out F" "b \<in> set H" "refs (objs m b) = Some c" "1 < shared m H c"
  shows "rc (refs_Add c (- 1) m) (remove1 b H) L out F"
proof -
  let ?m = "refs_Add c (- 1) m"
  obtain a where a: "(c, a) \<in> set L" using rc_held [OF assms(1,2)] assms(3) by (metis option.inject)
  have sh: "shared m H x = shared ?m (remove1 b H) x + (if x = c then 1 else 0)" for x
    using shared_remove1 [OF assms(2), of m x] assms(3) shared_cong [of "remove1 b H" ?m m x] by simp
  have "counted ?m (remove1 b H) L" using assms(1,4) sh by (auto simp: rc_def counted_def)
  moreover have "recycled ?m" using assms(1) rc_live [OF assms(1) a] by (auto simp: rc_def recycled_def)
  moreover have "\<forall>x \<in> set (remove1 b H). points ?m L x" using assms(1) by (auto simp: rc_def points_def dest: notin_set_remove1)
  ultimately show ?thesis using assms(1) by (auto simp: rc_def dest: notin_set_remove1)
qed

lemma release_buffer_frame [simp]:
  "objs (release_buffer b c m) = (objs m)(b := zero_buffer)" "cnts (release_buffer b c m) = cnts m"
  "nobjs (release_buffer b c m) = nobjs m" "ncnts (release_buffer b c m) = ncnts m"
  "bufferObjectPool (release_buffer b c m) = b # bufferObjectPool m" "refObjectPool (release_buffer b c m) = c # refObjectPool m"
  "arrays (release_buffer b c m) = (if pooled (objs m b) then bufferPool_Put (originData (objs m b)) (arrays m) else arrays m)"
  by (simp_all add: release_buffer_def pool_Put_def Let_def)

lemma live_remove1:
  assumes "distinct (map fst L)" "(c, a) \<in> set L"
  shows "distinct (map fst (remove1 (c, a) L))" "(x, y) \<in> set (remove1 (c, a) L) \<longleftrightarrow> (x, y) \<in> set L \<and> x \<noteq> c"
    "mset (map snd L) = add_mset a (mset (map snd (remove1 (c, a) L)))"
proof -
  have d: "distinct L" using assms(1) by (simp add: distinct_map)
  show "distinct (map fst (remove1 (c, a) L))" using assms(1) by (auto simp: distinct_map intro: inj_on_subset)
  show "(x, y) \<in> set (remove1 (c, a) L) \<longleftrightarrow> (x, y) \<in> set L \<and> x \<noteq> c"
    using d assms eq_key_imp_eq_value [OF assms(1), of c a y] by auto
  have "mset L = add_mset (c, a) (mset (remove1 (c, a) L))" using assms(2) by simp
  then show "mset (map snd L) = add_mset a (mset (map snd (remove1 (c, a) L)))" by (metis image_mset_add_mset mset_map snd_conv)
qed

text \<open>The last \<open>Free\<close> of a counter: nobody else refers to it, and the array leaves the table.\<close>

lemma released_rc:
  assumes "rc m H L out F" "b \<in> set H" "refs (objs m b) = Some c" "shared m H c = 1" "a = arr (view (objs m b))"
  shows "rc (release_buffer b c (refs_Add c (- 1) m)) (remove1 b H) (remove1 (c, a) L) out F" "b \<notin> set (remove1 b H)"
proof -
  let ?m = "release_buffer b c (refs_Add c (- 1) m)" and ?L = "remove1 (c, a) L"
  obtain c' where c': "refs (objs m b) = Some c'" "(c', a) \<in> set L" "originData (objs m b) = Some a" "b < nobjs m" "b \<notin> set (bufferObjectPool m)"
    using rc_held [OF assms(1,2)] assms(5) by metis
  then have a: "(c, a) \<in> set L" using assms(3) by simp
  have d: "distinct (map fst L)" using assms(1) by (simp add: rc_def counted_def)
  note L = live_remove1 [OF d a]
  have "shared m (remove1 b H) c = 0" using shared_remove1 [OF assms(2), of m c] assms(3,4) by simp
  then have unref: "refs (objs m x) \<noteq> Some c" if "x \<in> set (remove1 b H)" for x using that by (simp add: shared_def filter_empty_conv)
  then show nb: "b \<notin> set (remove1 b H)" using assms(3) by blast
  have objs: "objs ?m x = objs m x" if "x \<in> set (remove1 b H)" for x using that nb by auto
  have sh: "shared ?m (remove1 b H) x = shared m H x" if "x \<noteq> c" for x
    using shared_remove1 [OF assms(2), of m x] assms(3) that shared_cong [of "remove1 b H" ?m m x] objs by simp
  have "counted ?m (remove1 b H) ?L"
    unfolding counted_def using L(1,2) rc_live [OF assms(1)] sh by simp blast
  moreover have "recycled ?m"
    using assms(1,4) rc_live [OF assms(1) a] c' by (auto simp: rc_def recycled_def)
  moreover have "x < nobjs ?m \<and> x \<notin> set (bufferObjectPool ?m) \<and> points ?m ?L x" if x: "x \<in> set (remove1 b H)" for x
  proof -
    have "x \<in> set H" "x \<noteq> b" using x nb notin_set_remove1 by fastforce+
    from rc_held [OF assms(1) this(1)] obtain cx where cx: "refs (objs m x) = Some cx" "(cx, arr (view (objs m x))) \<in> set L"
      "originData (objs m x) = Some (arr (view (objs m x)))" "slice_ok m (view (objs m x))" "x < nobjs m" "x \<notin> set (bufferObjectPool m)" by blast
    have "heap (arrays ?m) = heap (arrays m)" using c'(3) bufferPool_Put_frame(1) by simp
    with cx L(2) unref [OF x] \<open>x \<noteq> b\<close> show ?thesis by (auto simp: points_def slice_ok_def)
  qed
  moreover have "arrays_ok (arrays ?m) (map snd ?L @ out) F"
  proof -
    have "arrays_ok (arrays m) (a # map snd ?L @ out) F"
      using assms(1) L(3) arrays_ok_perm [of "arrays m" "map snd L @ out" F "a # map snd ?L @ out"] by (simp add: rc_def)
    then show ?thesis using arrays_ok_Put arrays_ok_drop c'(3) by auto
  qed
  ultimately show "rc ?m (remove1 b H) ?L out F" unfolding rc_def by blast
qed

lemma buffer_Free_rc:
  assumes "rc m H L out F" "b \<in> set H"
  shows "\<exists>m' L'. buffer_Free b m = (Ok (), m') \<and> rc m' (remove1 b H) L' out F
    \<and> heap (arrays m') = heap (arrays m) \<and> (\<forall>x \<in> set (remove1 b H). objs m' x = objs m x)"
proof -
  from rc_held [OF assms] obtain c where c: "refs (objs m b) = Some c" "(c, arr (view (objs m b))) \<in> set L"
    "originData (objs m b) = Some (arr (view (objs m b)))" by blast
  note live = rc_live [OF assms(1) c(2)]
  show ?thesis
  proof (cases "shared m H c = 1")
    case True
    with live c have "buffer_Free b m = (Ok (), release_buffer b c (refs_Add c (- 1) m))" by (simp add: buffer_Free_def Let_def)
    moreover have "\<forall>x \<in> set (remove1 b H). objs (release_buffer b c (refs_Add c (- 1) m)) x = objs m x"
      using released_rc(2) [OF assms c(1) True refl] by auto
    ultimately show ?thesis using released_rc(1) [OF assms c(1) True refl] c(3) bufferPool_Put_frame(1) by auto
  next
    case False
    with live have "1 < shared m H c" by simp
    with counted_down_rc [OF assms c(1)] live c show ?thesis by (auto simp: buffer_Free_def Let_def)
  qed
qed

lemma set_view_rc:
  assumes "rc m H L out F" "arr v = arr (view (objs m b))" "slice_ok m v"
  shows "rc (set_obj b ((objs m b)\<lparr>view := v\<rparr>) m) H L out F"
proof -
  let ?m = "set_obj b ((objs m b)\<lparr>view := v\<rparr>) m"
  have "shared ?m H c = shared m H c" for c by (rule shared_cong) simp
  moreover have "points ?m L x" if "points m L x" for x using that assms(2,3) by (auto simp: points_def slice_ok_def)
  ultimately show ?thesis using assms(1) by (auto simp: rc_def recycled_def counted_def)
qed

lemma add_ref_rc:
  assumes "rc m H L out F" "b \<notin> set H" "b < nobjs m" "b \<notin> set (bufferObjectPool m)"
    and "refs v = Some c" "(c, arr (view v)) \<in> set L" "originData v = Some (arr (view v))" "slice_ok m (view v)"
  shows "rc (refs_Add c 1 (set_obj b v m)) (b # H) L out F"
proof -
  let ?m = "refs_Add c 1 (set_obj b v m)"
  have old: "objs ?m x = objs m x" if "x \<in> set H" for x using that assms(2) by auto
  then have "shared ?m H x = shared m H x" for x by (intro shared_cong) simp
  then have sh: "shared ?m (b # H) x = shared m H x + (if x = c then 1 else 0)" for x using assms(5) by (simp add: shared_Cons)
  have "counted ?m (b # H) L" using assms(1) sh by (auto simp: rc_def counted_def)
  moreover have "recycled ?m" using assms(1) rc_live [OF assms(1,6)] by (auto simp: rc_def recycled_def)
  moreover have "points ?m L x" if "x \<in> set (b # H)" for x
  proof (cases "x = b")
    case True
    then show ?thesis using assms(5-8) by (simp add: points_def slice_ok_def)
  next
    case False
    then show ?thesis using that assms(1) points_cong [of ?m x m L] old by (simp add: rc_def)
  qed
  ultimately show ?thesis using assms(1,3,4) by (auto simp: rc_def)
qed

lemma newBuffer_refs_Add: "newBuffer pick (refs_Add c d m) = (case newBuffer pick m of (b, m') \<Rightarrow> (b, refs_Add c d m'))"
  by (simp add: newBuffer_def refs_Add_def)

lemma refs_Add_set_obj: "set_obj b v (refs_Add c d m) = refs_Add c d (set_obj b v m)"
  by (simp add: set_obj_def refs_Add_def)

lemma buffer_split_rc:
  assumes "rc m H L out F" "b \<in> set H" "0 \<le> n" "n \<le> int (len (view (objs m b)))"
  shows "\<exists>b' m'. buffer_split ch n b m = (Ok (buffer_ptr b, buffer_ptr b'), m') \<and> rc m' (b' # H) L out F \<and> b' \<notin> set H
    \<and> slice_bytes m' (view (objs m' b)) = take (nat n) (slice_bytes m (view (objs m b)))
    \<and> slice_bytes m' (view (objs m' b')) = drop (nat n) (slice_bytes m (view (objs m b)))
    \<and> arrays m' = arrays m \<and> (\<forall>x \<in> set H - {b}. objs m' x = objs m x)"
proof -
  from rc_held [OF assms(1,2)] obtain c where c: "refs (objs m b) = Some c" "(c, arr (view (objs m b))) \<in> set L"
    "originData (objs m b) = Some (arr (view (objs m b)))" "slice_ok m (view (objs m b))" by blast
  obtain b' m1 where n1: "newBuffer (pick_obj ch) m = (b', m1)" by fastforce
  note r1 = newBuffer_rc [OF assms(1) n1]
  have b: "objs m1 b = objs m b" "b \<noteq> b'" using r1(4,5) assms(2) by metis+
  let ?v = "view (objs m b)"
  define v' where "v' = \<lparr>originData = originData (objs m b), view = \<lparr>arr = arr ?v, off = off ?v + nat n, len = len ?v - nat n\<rparr>,
    refs = Some c, pooled = pooled (objs m b)\<rparr>"
  define m2 where "m2 = refs_Add c 1 (set_obj b' v' m1)"
  define m' where "m' = set_obj b ((objs m2 b)\<lparr>view := ?v\<lparr>len := nat n\<rparr>\<rparr>) m2"
  have m2b: "objs m2 b = objs m b" using b by (simp add: m2_def)
  have "buffer_split ch n b m = (Ok (buffer_ptr b, buffer_ptr b'), m')"
    using c assms(3,4) b m2b
    by (simp add: buffer_split_def newBuffer_refs_Add n1 Let_def m'_def m2_def v'_def refs_Add_set_obj)
  moreover have "rc m2 (b' # H) L out F"
    unfolding m2_def by (rule add_ref_rc) (use r1 c assms(3,4) in \<open>auto simp: v'_def slice_ok_def\<close>)
  then have "rc m' (b' # H) L out F"
    unfolding m'_def using c(4) assms(4) r1(6) by (intro set_view_rc) (auto simp: m2b slice_ok_def, simp add: m2_def)
  moreover have "slice_bytes m' (view (objs m' b)) = take (nat n) (slice_bytes m ?v)"
    using assms(4) r1(6) by (simp add: m'_def slice_bytes_def min_def m2_def)
  moreover have "slice_bytes m' (view (objs m' b')) = drop (nat n) (slice_bytes m ?v)"
    using assms(4) b r1(6) by (simp add: m'_def slice_bytes_def v'_def m2_def drop_take add.commute)
  moreover have "arrays m' = arrays m" "\<forall>x \<in> set H - {b}. objs m' x = objs m x"
    using r1 by (auto simp: m'_def m2_def)
  ultimately show ?thesis using r1(4) by blast
qed

lemma buffer_read_rc:
  assumes "rc m H L out F" "b \<in> set H"
  shows "\<exists>m' L' H' rest. buffer_read k b m = (Ok (take k (slice_bytes m (view (objs m b))), rest), m') \<and> rc m' H' L' out F
    \<and> H' = (if rest = None then remove1 b H else H)
    \<and> heap (arrays m') = heap (arrays m) \<and> (\<forall>x \<in> set H' - {b}. objs m' x = objs m x)
    \<and> (rest = None \<longleftrightarrow> len (view (objs m b)) \<le> k)
    \<and> (rest \<noteq> None \<longrightarrow> rest = Some (buffer_ptr b) \<and> slice_bytes m' (view (objs m' b)) = drop k (slice_bytes m (view (objs m b))))"
proof -
  from rc_held [OF assms] obtain c where c: "refs (objs m b) = Some c" "slice_ok m (view (objs m b))" by blast
  let ?v = "view (objs m b)"
  note l = slice_bytes_length [OF c(2)]
  show ?thesis
  proof (cases "len ?v \<le> k")
    case True
    from buffer_Free_rc [OF assms] obtain m' L' where f: "buffer_Free b m = (Ok (), m')" "rc m' (remove1 b H) L' out F"
      "heap (arrays m') = heap (arrays m)" "\<forall>x \<in> set (remove1 b H). objs m' x = objs m x" by blast
    with True c l show ?thesis by (auto simp: buffer_read_def Let_def intro!: exI [of _ m'] exI [of _ L'])
  next
    case False
    define m' where "m' = set_obj b ((objs m b)\<lparr>view := \<lparr>arr = arr ?v, off = off ?v + k, len = len ?v - k\<rparr>\<rparr>) m"
    have "rc m' H L out F" unfolding m'_def using c(2) False assms(1) by (intro set_view_rc) (auto simp: slice_ok_def)
    moreover have "buffer_read k b m = (Ok (take k (slice_bytes m ?v), Some (buffer_ptr b)), m')"
      using False c l by (simp add: buffer_read_def Let_def m'_def)
    moreover have "slice_bytes m' (view (objs m' b)) = drop k (slice_bytes m ?v)"
      by (simp add: m'_def slice_bytes_def drop_take add.commute)
    ultimately show ?thesis using False by (intro exI [of _ m'] exI [of _ L] exI [of _ H] exI [of _ "Some (buffer_ptr b)"]) (auto simp: m'_def)
  qed
qed

section \<open>Arrays in the store\<close>

lemma rc_arrays:
  assumes "rc m H L out F" "arrays_ok p (map snd L @ out') F'" "\<forall>x \<in> snd ` set L. length (heap p x) = length (heap (arrays m) x)"
  shows "rc (m\<lparr>arrays := p\<rparr>) H L out' F'"
proof -
  have "shared (m\<lparr>arrays := p\<rparr>) H c = shared m H c" for c by (rule shared_cong) simp
  moreover have "points (m\<lparr>arrays := p\<rparr>) L x" if "points m L x" for x using that assms(3) by (force simp: points_def)
  ultimately show ?thesis using assms(1,2) by (auto simp: rc_def recycled_def counted_def)
qed

lemma pool_Get_rc:
  assumes "rc m H L out F"
  shows "\<exists>a m'. pool_Get pick n m = (Ok \<lparr>arr = a, off = 0, len = n\<rparr>, m') \<and> rc m' H L (a # out) F \<and> n \<le> length (heap (arrays m') a)
    \<and> a \<notin> set (map snd L @ out) \<union> F \<and> objs m' = objs m \<and> (\<forall>x \<in> set (map snd L @ out) \<union> F. heap (arrays m') x = heap (arrays m) x)"
proof -
  from assms have "arrays_ok (arrays m) (map snd L @ out) F" by (simp add: rc_def)
  from arrays_ok_Get [OF this, of pick n] obtain a p' where g: "bufferPool_Get pick (int n) (arrays m) = (Ok (a, n), p')"
    "arrays_ok p' (a # map snd L @ out) F" "n \<le> length (heap p' a)" "a \<notin> set (map snd L @ out)" "a \<notin> F"
    "\<forall>x \<in> set (map snd L @ out) \<union> F. heap p' x = heap (arrays m) x" by blast
  have "arrays_ok p' (map snd L @ a # out) F" by (rule arrays_ok_perm [OF g(2)]) simp
  then have "rc (m\<lparr>arrays := p'\<rparr>) H L (a # out) F" using g(6) by (intro rc_arrays [OF assms]) auto
  with g show ?thesis by (auto simp: pool_Get_def)
qed

lemma make_bytes_rc:
  assumes "rc m H L out F"
  shows "\<exists>a m'. make_bytes n m = (\<lparr>arr = a, off = 0, len = n\<rparr>, m') \<and> rc m' H L out (insert a F) \<and> heap (arrays m') a = replicate n 0
    \<and> a \<notin> set (map snd L @ out) \<union> F \<and> objs m' = objs m \<and> (\<forall>x \<in> set (map snd L @ out) \<union> F. heap (arrays m') x = heap (arrays m) x)"
proof -
  from assms have ok: "arrays_ok (arrays m) (map snd L @ out) F" by (simp add: rc_def)
  obtain a p' where p: "alloc n (arrays m) = (a, p')" by fastforce
  note al = arrays_ok_alloc [OF ok p]
  have "rc (m\<lparr>arrays := p'\<rparr>) H L out (insert a F)" using al(1,4) by (intro rc_arrays [OF assms]) auto
  with al p show ?thesis by (auto simp: make_bytes_def)
qed

lemma write_bytes_frame [simp]:
  "objs (write_bytes a i bs m) = objs m"
  "heap (arrays (write_bytes a i bs m)) = (heap (arrays m))(a := take i (heap (arrays m) a) @ bs @ drop (i + length bs) (heap (arrays m) a))"
  by (simp_all add: write_bytes_def Let_def)

lemma write_bytes_rc:
  assumes "rc m H L out F" "i + length bs \<le> length (heap (arrays m) a)"
  shows "rc (write_bytes a i bs m) H L out F"
  unfolding write_bytes_def Let_def using assms by (intro rc_arrays [OF assms(1)] arrays_ok_heap) (auto simp: rc_def)

lemma rc_drop: "rc m H L (a # out) F \<Longrightarrow> rc m H L out F"
  using arrays_ok_perm [of "arrays m" "map snd L @ a # out" F "a # map snd L @ out"] arrays_ok_drop [of "arrays m" a "map snd L @ out" F]
  by (simp add: rc_def)

lemma pool_Put_rc: "rc m H L (a # out) F \<Longrightarrow> rc (pool_Put (Some a) m) H L out F"
  unfolding pool_Put_def
  using arrays_ok_perm [of "arrays m" "map snd L @ a # out" F "a # map snd L @ out"] arrays_ok_Put [of "arrays m" a "map snd L @ out" F]
  by (intro rc_arrays) (auto simp: rc_def bufferPool_Put_frame)

lemma rc_perm_out: "rc m H L out F \<Longrightarrow> mset out' = mset out \<Longrightarrow> rc m H L out' F"
  using arrays_ok_perm [of "arrays m" "map snd L @ out" F "map snd L @ out'"] by (simp add: rc_def)

end
