(* ===== verification/Buffers_Props.thy ===== *)
theory Buffers_Props
  imports Buffers_Inv
begin

text \<open>
  Correctness of buffers and buffer slices: reference counting is safe under any
  interleaving of users; a reader over a slice delivers the bytes of its buffers in order
  and gives its references back; materializing, copying and \<open>ReadAll\<close> move exactly the bytes.

  \<open>buf_inv m H out F\<close> is the invariant of the store for references \<open>H\<close>, arrays \<open>out\<close> and plain
  arrays \<open>F\<close>; \<open>same m m' H\<close> says that a step from \<open>m\<close> to \<open>m'\<close> changed no byte and no object in \<open>H\<close>.
\<close>

definition buf_inv :: "mem \<Rightarrow> nat list \<Rightarrow> nat list \<Rightarrow> nat set \<Rightarrow> bool" where
  "buf_inv m H out F \<longleftrightarrow> (\<exists>L. rc m H L out F)"

definition same :: "mem \<Rightarrow> mem \<Rightarrow> nat list \<Rightarrow> bool" where
  "same m m' H \<longleftrightarrow> heap (arrays m') = heap (arrays m) \<and> (\<forall>x \<in> set H. objs m' x = objs m x)"

definition objs_of :: "Buffer list \<Rightarrow> nat list" where
  "objs_of s = concat (map (\<lambda>b. case b of buffer_ptr p \<Rightarrow> [p] | _ \<Rightarrow> []) s)"

definition slices_ok :: "mem \<Rightarrow> nat set \<Rightarrow> Buffer list \<Rightarrow> bool" where
  "slices_ok m F s \<longleftrightarrow> (\<forall>x. SliceBuffer x \<in> set s \<longrightarrow> arr x \<in> F \<and> slice_ok m x)"

definition data :: "mem \<Rightarrow> Buffer \<Rightarrow> bytes" where
  "data m b = (case b of buffer_ptr p \<Rightarrow> slice_bytes m (view (objs m p)) | SliceBuffer s \<Rightarrow> slice_bytes m s | emptyBuffer \<Rightarrow> [])"

definition contents :: "mem \<Rightarrow> Buffer list \<Rightarrow> bytes" where
  "contents m s = concat (map (data m) s)"

lemma objs_of_simps [simp]:
  "objs_of [] = []" "objs_of (buffer_ptr p # s) = p # objs_of s" "objs_of (SliceBuffer x # s) = objs_of s"
  "objs_of (emptyBuffer # s) = objs_of s"
  by (simp_all add: objs_of_def)

lemma objs_of_append [simp]: "objs_of (s @ t) = objs_of s @ objs_of t"
  by (simp add: objs_of_def)

lemma slices_ok_simps [simp]:
  "slices_ok m F []" "slices_ok m F (buffer_ptr p # s) \<longleftrightarrow> slices_ok m F s" "slices_ok m F (emptyBuffer # s) \<longleftrightarrow> slices_ok m F s"
  "slices_ok m F (SliceBuffer x # s) \<longleftrightarrow> arr x \<in> F \<and> slice_ok m x \<and> slices_ok m F s"
  "slices_ok m F (s @ t) \<longleftrightarrow> slices_ok m F s \<and> slices_ok m F t"
  by (auto simp: slices_ok_def)

lemma slices_ok_Cons: "slices_ok m F (b # s) \<longleftrightarrow> slices_ok m F [b] \<and> slices_ok m F s"
  by (auto simp: slices_ok_def)

lemma contents_simps [simp]: "contents m [] = []" "contents m (b # s) = data m b @ contents m s"
  by (simp_all add: contents_def)

lemma same_refl [simp]: "same m m H"
  by (simp add: same_def)

lemma same_trans: "same m m' H \<Longrightarrow> same m' m'' H \<Longrightarrow> same m m'' H"
  by (simp add: same_def)

lemma same_mono: "same m m' H \<Longrightarrow> set H' \<subseteq> set H \<Longrightarrow> same m m' H'"
  by (auto simp: same_def)

lemma same_data: "same m m' H \<Longrightarrow> set (objs_of [b]) \<subseteq> set H \<Longrightarrow> data m' b = data m b"
  by (auto simp: data_def same_def slice_bytes_def split: Buffer.splits)

lemma same_contents: "same m m' H \<Longrightarrow> set (objs_of s) \<subseteq> set H \<Longrightarrow> contents m' s = contents m s"
  by (induction s) (auto simp: objs_of_def same_data)

lemma same_slices: "same m m' H \<Longrightarrow> slices_ok m' F s = slices_ok m F s"
  by (simp add: slices_ok_def slice_ok_def same_def)

lemma buf_inv_perm:
  assumes "buf_inv m H out F" "mset H' = mset H"
  shows "buf_inv m H' out F"
proof -
  have "shared m H' c = shared m H c" for c
    unfolding shared_def using assms(2) by (metis mset_filter size_mset)
  moreover have "set H' = set H" using assms(2) by (rule mset_eq_setD)
  ultimately show ?thesis using assms(1) by (simp add: buf_inv_def rc_def counted_def)
qed

section \<open>The operations of the interface\<close>

lemma ReadOnlyData_ok:
  assumes "buf_inv m H out F" "set (objs_of [b]) \<subseteq> set H" "slices_ok m F [b]"
  shows "ReadOnlyData b m = Ok (data m b)" "Len b m = Ok (length (data m b))"
  using assms by (auto simp: buf_inv_def ReadOnlyData_def Len_def data_def buffer_ReadOnlyData_def slices_ok_def elim!: rc_held split: Buffer.splits)

lemma BufferSlice_Len_ok:
  "buf_inv m H out F \<Longrightarrow> set (objs_of s) \<subseteq> set H \<Longrightarrow> slices_ok m F s \<Longrightarrow> BufferSlice_Len s m = Ok (length (contents m s))"
proof (induction s)
  case (Cons b s)
  then have "set (objs_of [b]) \<subseteq> set H" "set (objs_of s) \<subseteq> set H" by (auto simp: objs_of_def)
  with Cons ReadOnlyData_ok(2) [of m H out F b] slices_ok_Cons [of m F b s] show ?case by simp
qed simp

lemma Ref_ok:
  assumes "buf_inv m H out F" "set (objs_of [b]) \<subseteq> set H"
  shows "\<exists>m'. Ref b m = (Ok (), m') \<and> buf_inv m' (objs_of [b] @ H) out F \<and> objs m' = objs m \<and> arrays m' = arrays m"
proof (cases b)
  case (buffer_ptr p)
  with assms obtain L where "rc m H L out F" "p \<in> set H" by (auto simp: buf_inv_def)
  from buffer_Ref_rc [OF this] show ?thesis by (auto simp: buffer_ptr Ref_def buf_inv_def)
qed (use assms in \<open>simp_all add: Ref_def\<close>)

lemma BufferSlice_Ref_ok:
  "buf_inv m H out F \<Longrightarrow> set (objs_of s) \<subseteq> set H \<Longrightarrow>
     \<exists>m'. BufferSlice_Ref s m = (Ok (), m') \<and> buf_inv m' (objs_of s @ H) out F \<and> objs m' = objs m \<and> arrays m' = arrays m"
proof (induction s arbitrary: m H)
  case (Cons b s)
  then have "set (objs_of [b]) \<subseteq> set H" "set (objs_of s) \<subseteq> set H" by (auto simp: objs_of_def)
  with Ref_ok [OF Cons.prems(1)] obtain m1 where m1: "Ref b m = (Ok (), m1)" "buf_inv m1 (objs_of [b] @ H) out F"
    "objs m1 = objs m" "arrays m1 = arrays m" by blast
  from Cons.IH [OF m1(2)] \<open>set (objs_of s) \<subseteq> set H\<close> obtain m2 where m2: "BufferSlice_Ref s m1 = (Ok (), m2)"
    "buf_inv m2 (objs_of s @ objs_of [b] @ H) out F" "objs m2 = objs m1" "arrays m2 = arrays m1" by auto
  have "buf_inv m2 (objs_of (b # s) @ H) out F" by (rule buf_inv_perm [OF m2(2)]) (simp add: objs_of_def)
  with m1 m2 show ?case by simp
qed simp

lemma Free_ok:
  assumes "buf_inv m (objs_of [b] @ H) out F"
  shows "\<exists>m'. Free b m = (Ok (), m') \<and> buf_inv m' H out F \<and> same m m' H"
proof (cases b)
  case (buffer_ptr p)
  with assms obtain L where "rc m (p # H) L out F" by (auto simp: buf_inv_def)
  from buffer_Free_rc [OF this, of p] show ?thesis by (auto simp: buffer_ptr Free_def buf_inv_def same_def)
qed (use assms in \<open>simp_all add: Free_def\<close>)

lemma BufferSlice_Free_ok:
  "buf_inv m (objs_of s @ H) out F \<Longrightarrow> \<exists>m'. BufferSlice_Free s m = (Ok (), m') \<and> buf_inv m' H out F \<and> same m m' H"
proof (induction s arbitrary: m)
  case (Cons b s)
  then have "buf_inv m (objs_of [b] @ objs_of s @ H) out F" by (simp add: objs_of_def)
  from Free_ok [OF this] obtain m1 where m1: "Free b m = (Ok (), m1)" "buf_inv m1 (objs_of s @ H) out F" "same m m1 (objs_of s @ H)"
    by blast
  from Cons.IH [OF m1(2)] obtain m2 where "BufferSlice_Free s m1 = (Ok (), m2)" "buf_inv m2 H out F" "same m1 m2 H" by blast
  with m1 same_mono [OF m1(3), of H] show ?case by (auto intro: same_trans)
qed simp

section \<open>Readers\<close>

text \<open>\<open>reading m H out F r rest\<close>: the reader holds a reference to each of its buffers, and \<open>rest\<close> is what is left to read.\<close>

definition reading :: "mem \<Rightarrow> nat list \<Rightarrow> nat list \<Rightarrow> nat set \<Rightarrow> sliceReader \<Rightarrow> bytes \<Rightarrow> bool" where
  "reading m H out F r rest \<longleftrightarrow> buf_inv m (objs_of (rdata r) @ H) out F \<and> slices_ok m F (rdata r)
     \<and> (rdata r \<noteq> [] \<longrightarrow> bufferIdx r \<le> length (data m (hd (rdata r))))
     \<and> rest = drop (bufferIdx r) (contents m (rdata r)) \<and> rlen r = int (length rest)"

lemma reading_first:
  assumes "reading m H out F r rest" "rdata r = b # s"
  shows "ReadOnlyData b m = Ok (data m b)" "bufferIdx r \<le> length (data m b)" "rest = drop (bufferIdx r) (data m b) @ contents m s"
  using assms ReadOnlyData_ok(1) [of m "objs_of (b # s) @ H" out F b] slices_ok_Cons [of m F b s]
  by (auto simp: reading_def objs_of_def)

lemma freeFirst_reading:
  assumes "reading m H out F r rest"
  shows "\<exists>fr r' m'. freeFirstBufferIfEmpty r m = (Ok fr, r', m') \<and> reading m' H out F r' rest \<and> same m m' H
    \<and> (fr \<longleftrightarrow> rdata r \<noteq> [] \<and> bufferIdx r = length (data m (hd (rdata r)))) \<and> (\<not> fr \<longrightarrow> r' = r \<and> m' = m)"
proof (cases "rdata r")
  case Nil
  then show ?thesis using assms by (intro exI [of _ False]) (simp add: freeFirstBufferIfEmpty_def)
next
  case (Cons b s)
  note first = reading_first [OF assms Cons]
  show ?thesis
  proof (cases "bufferIdx r = length (data m b)")
    case True
    have "buf_inv m (objs_of [b] @ objs_of s @ H) out F" using assms Cons by (simp add: reading_def objs_of_def)
    from Free_ok [OF this] obtain m' where m': "Free b m = (Ok (), m')" "buf_inv m' (objs_of s @ H) out F" "same m m' (objs_of s @ H)"
      by blast
    have "contents m' s = contents m s" using same_contents [OF m'(3)] by simp
    moreover have "slices_ok m' F s" using assms Cons same_slices [OF m'(3)] slices_ok_Cons [of m F b s] by (simp add: reading_def)
    ultimately have "reading m' H out F (r\<lparr>rdata := s, bufferIdx := 0\<rparr>) rest"
      using assms m'(2) first True by (simp add: reading_def)
    moreover have "freeFirstBufferIfEmpty r m = (Ok True, r\<lparr>rdata := s, bufferIdx := 0\<rparr>, m')"
      using m'(1) first(1) True Cons by (simp add: freeFirstBufferIfEmpty_def)
    moreover have "same m m' H" by (rule same_mono [OF m'(3)]) simp
    ultimately show ?thesis using True Cons by (intro exI [of _ True]) simp
  next
    case False
    with Cons first assms show ?thesis by (intro exI [of _ False]) (simp add: freeFirstBufferIfEmpty_def)
  qed
qed

lemma take_chunk_reading:
  assumes "reading m H out F r rest" "rest \<noteq> []"
  shows "\<exists>bs r1. take_chunk k r m = Some (bs, r1) \<and> reading m H out F r1 (drop (length bs) rest) \<and> bs = take (length bs) rest \<and> length bs \<le> k"
proof (cases "rdata r")
  case Nil
  then show ?thesis using assms by (simp add: reading_def)
next
  case (Cons b s)
  note first = reading_first [OF assms(1) Cons]
  let ?bs = "take k (drop (bufferIdx r) (data m b))"
  have "reading m H out F (r\<lparr>rlen := rlen r - int (length ?bs), bufferIdx := bufferIdx r + length ?bs\<rparr>) (drop (length ?bs) rest)"
  proof -
    have "length ?bs \<le> length rest" unfolding first(3) by simp
    moreover have "bufferIdx r + length ?bs \<le> length (data m b)" using first(2) by simp
    ultimately show ?thesis using assms(1) Cons by (simp add: reading_def of_nat_diff add.commute del: length_take)
  qed
  moreover have "?bs = take (length ?bs) rest" unfolding first(3) by (simp add: min_def)
  moreover have "take_chunk k r m = Some (?bs, r\<lparr>rlen := rlen r - int (length ?bs), bufferIdx := bufferIdx r + length ?bs\<rparr>)"
    using Cons first(1,2) by (simp add: take_chunk_def Let_def)
  moreover have "length ?bs \<le> k" by simp
  ultimately show ?thesis by blast
qed

lemma read_loop_reading:
  "reading m H out F r rest \<Longrightarrow>
     \<exists>r' m'. read_loop k r m = (Ok (take k rest), r', m') \<and> reading m' H out F r' (drop k rest) \<and> same m m' H"
proof (induction k r m arbitrary: rest rule: read_loop.induct)
  case (1 k r m)
  show ?case
  proof (cases "k = 0 \<or> rest = []")
    case True
    moreover have "rlen r = 0 \<longleftrightarrow> rest = []" using 1(2) by (simp add: reading_def)
    ultimately show ?thesis using 1(2) by (auto simp: read_loop.simps [of k r m])
  next
    case False
    then have nz: "\<not> (k = 0 \<or> rlen r = 0)" using 1(2) by (simp add: reading_def)
    from False take_chunk_reading [OF 1(2), of k] obtain bs r1 where c: "take_chunk k r m = Some (bs, r1)"
      "reading m H out F r1 (drop (length bs) rest)" "bs = take (length bs) rest" "length bs \<le> k" by blast
    from freeFirst_reading [OF c(2)] obtain fr r2 m2 where f: "freeFirstBufferIfEmpty r1 m = (Ok fr, r2, m2)"
      "reading m2 H out F r2 (drop (length bs) rest)" "same m m2 H" by blast
    from 1(1) [OF nz c(1) refl f(1) [symmetric] refl refl f(2)] obtain r' m' where
      ih: "read_loop (k - length bs) r2 m2 = (Ok (take (k - length bs) (drop (length bs) rest)), r', m')"
      "reading m' H out F r' (drop (k - length bs) (drop (length bs) rest))" "same m2 m' H" by blast
    have "bs @ take (k - length bs) (drop (length bs) rest) = take k rest"
      using c(3,4) by (metis le_add_diff_inverse take_add)
    moreover have "drop (k - length bs) (drop (length bs) rest) = drop k rest" using c(4) by simp
    ultimately show ?thesis using ih f c nz same_trans [OF f(3) ih(3)] by (simp add: read_loop.simps [of k r m])
  qed
qed

lemma Read_reading:
  assumes "reading m H out F r rest"
  shows "\<exists>r' m'. sliceReader_Read k r m = (if rest = [] then Fail EOF else Ok (take k rest), r', m')
    \<and> reading m' H out F r' (drop k rest) \<and> same m m' H"
proof (cases "rest = []")
  case True
  with assms have "rlen r = 0" by (simp add: reading_def)
  with True assms show ?thesis by (simp add: sliceReader_Read_def)
next
  case False
  with assms have "rlen r \<noteq> 0" by (simp add: reading_def)
  with False read_loop_reading [OF assms, of k] show ?thesis by (simp add: sliceReader_Read_def)
qed

lemma clear_empty_reading:
  "reading m H out F r rest \<Longrightarrow> \<exists>r' m'. clear_empty r m = (Ok (), r', m') \<and> reading m' H out F r' rest \<and> same m m' H
     \<and> (rdata r' \<noteq> [] \<longrightarrow> bufferIdx r' \<noteq> length (data m' (hd (rdata r'))))"
proof (induction r m rule: clear_empty.induct)
  case (1 r m)
  from freeFirst_reading [OF 1(2)] obtain fr r1 m1 where f: "freeFirstBufferIfEmpty r m = (Ok fr, r1, m1)"
    "reading m1 H out F r1 rest" "same m m1 H" "fr \<longleftrightarrow> rdata r \<noteq> [] \<and> bufferIdx r = length (data m (hd (rdata r)))"
    "\<not> fr \<longrightarrow> r1 = r \<and> m1 = m" by blast
  show ?case
  proof (cases fr)
    case True
    from 1(1) [OF f(1) [symmetric] refl refl True f(2)] obtain r' m' where "clear_empty r1 m1 = (Ok (), r', m')" "reading m' H out F r' rest"
      "same m1 m' H" "rdata r' \<noteq> [] \<longrightarrow> bufferIdx r' \<noteq> length (data m' (hd (rdata r')))" by blast
    with f True show ?thesis by (auto simp: clear_empty.simps [of r m] intro: same_trans)
  next
    case False
    with f(1,5) have "clear_empty r m = (Ok (), r, m)" by (subst clear_empty.simps) simp
    moreover have "rdata r \<noteq> [] \<longrightarrow> bufferIdx r \<noteq> length (data m (hd (rdata r)))" using f(4) False by blast
    ultimately show ?thesis using 1(2) by (intro exI [of _ r] exI [of _ m]) simp
  qed
qed

lemma ReadByte_reading:
  assumes "reading m H out F r rest"
  shows "\<exists>r' m'. sliceReader_ReadByte r m = (if rest = [] then Fail EOF else Ok (hd rest), r', m')
    \<and> reading m' H out F r' (drop 1 rest) \<and> same m m' H"
proof (cases "rest = []")
  case True
  with assms have "rlen r = 0" by (simp add: reading_def)
  with True assms show ?thesis by (simp add: sliceReader_ReadByte_def)
next
  case False
  with assms have nz: "rlen r \<noteq> 0" by (simp add: reading_def)
  from clear_empty_reading [OF assms] obtain r1 m1 where c: "clear_empty r m = (Ok (), r1, m1)" "reading m1 H out F r1 rest" "same m m1 H"
    "rdata r1 \<noteq> [] \<longrightarrow> bufferIdx r1 \<noteq> length (data m1 (hd (rdata r1)))" by blast
  from False c(2) have "rdata r1 \<noteq> []" by (auto simp: reading_def)
  then obtain b s where bs: "rdata r1 = b # s" by (cases "rdata r1") auto
  note first = reading_first [OF c(2) bs]
  have lt: "bufferIdx r1 < length (data m1 b)" using c(4) bs first(2) by simp
  then have hd: "data m1 b ! bufferIdx r1 = hd rest" unfolding first(3) by (simp add: hd_append hd_drop_conv_nth)
  let ?r = "r1\<lparr>bufferIdx := bufferIdx r1 + 1, rlen := rlen r1 - 1\<rparr>"
  have "reading m1 H out F ?r (drop 1 rest)"
  proof -
    have "rlen r1 = int (length rest)" using c(2) by (simp add: reading_def)
    then have "rlen r1 - 1 = int (length (drop 1 rest))" using False by (cases rest) simp_all
    moreover have "drop 1 rest = drop (bufferIdx r1 + 1) (contents m1 (rdata r1))" using c(2) by (simp add: reading_def)
    ultimately show ?thesis using c(2) lt bs by (simp add: reading_def del: contents_simps drop_drop)
  qed
  from freeFirst_reading [OF this] obtain fr r' m' where "freeFirstBufferIfEmpty ?r m1 = (Ok fr, r', m')" "reading m' H out F r' (drop 1 rest)"
    "same m1 m' H" by blast
  with nz c(1,3) bs first(1) lt hd False show ?thesis by (auto simp: sliceReader_ReadByte_def intro: same_trans)
qed

lemma NewReader_reading:
  assumes "buf_inv m H out F" "set (objs_of s) \<subseteq> set H" "slices_ok m F s"
  shows "\<exists>r m'. NewReader s m = (Ok r, m') \<and> reading m' H out F r (contents m s) \<and> same m m' H"
proof -
  from BufferSlice_Ref_ok [OF assms(1,2)] obtain m' where m': "BufferSlice_Ref s m = (Ok (), m')" "buf_inv m' (objs_of s @ H) out F"
    "objs m' = objs m" "arrays m' = arrays m" by blast
  have sm: "same m m' X" for X using m' by (simp add: same_def)
  have ok: "slices_ok m' F s" using same_slices [OF sm] assms(3) by simp
  have cs: "contents m' s = contents m s" by (rule same_contents [OF sm [of "objs_of s"]]) simp
  have "BufferSlice_Len s m' = Ok (length (contents m' s))" by (rule BufferSlice_Len_ok [OF m'(2) _ ok]) simp
  with m' ok cs sm show ?thesis by (simp add: NewReader_def reading_def)
qed

lemma Close_reading:
  assumes "reading m H out F r rest"
  shows "\<exists>r' m'. sliceReader_Close r m = (Ok (), r', m') \<and> reading m' H out F r' [] \<and> same m m' H"
  using assms BufferSlice_Free_ok [of m "rdata r" H out F] by (auto simp: reading_def sliceReader_Close_def)

end
