(* ===== verification/Buffers_Copy.thy ===== *)
theory Buffers_Copy
  imports Buffers_Props
begin

text \<open>
  Copies between buffers: \<open>CopyTo\<close>, \<open>Materialize\<close>, \<open>MaterializeToBuffer\<close>, \<open>Copy\<close>, the writer and
  \<open>ReadAll\<close> on the store. \<open>CopyTo\<close> and \<open>MaterializeToBuffer\<close> implement the operations of the same
  names on plain contents, which the payload codec is stated with.

  \<open>keeps m m' H F\<close> says that every buffer a user can reach through \<open>H\<close> and \<open>F\<close> shows the same
  bytes in \<open>m'\<close> as in \<open>m\<close>.
\<close>

definition keeps :: "mem \<Rightarrow> mem \<Rightarrow> nat list \<Rightarrow> nat set \<Rightarrow> bool" where
  "keeps m m' H F \<longleftrightarrow> (\<forall>x \<in> set H. objs m' x = objs m x \<and> heap (arrays m') (arr (view (objs m x))) = heap (arrays m) (arr (view (objs m x))))
     \<and> (\<forall>a \<in> F. heap (arrays m') a = heap (arrays m) a)"

lemma keeps_refl [simp]: "keeps m m H F"
  by (simp add: keeps_def)

lemma keeps_trans: "keeps m m' H F \<Longrightarrow> keeps m' m'' H F \<Longrightarrow> keeps m m'' H F"
  by (simp add: keeps_def)

lemma keeps_mono: "keeps m m' H F \<Longrightarrow> set H' \<subseteq> set H \<Longrightarrow> F' \<subseteq> F \<Longrightarrow> keeps m m' H' F'"
  by (auto simp: keeps_def)

lemma keeps_data: "keeps m m' H F \<Longrightarrow> set (objs_of [b]) \<subseteq> set H \<Longrightarrow> slices_ok m F [b] \<Longrightarrow> data m' b = data m b"
  by (cases b) (auto simp: keeps_def data_def slice_bytes_def)

lemma keeps_contents: "keeps m m' H F \<Longrightarrow> set (objs_of s) \<subseteq> set H \<Longrightarrow> slices_ok m F s \<Longrightarrow> contents m' s = contents m s"
proof (induction s)
  case (Cons b s)
  then show ?case using keeps_data [of m m' H F b] slices_ok_Cons [of m F b s] by (auto simp: objs_of_def)
qed simp

lemma keeps_slices: "keeps m m' H F \<Longrightarrow> slices_ok m F s \<Longrightarrow> slices_ok m' F s"
  by (auto simp: keeps_def slices_ok_def slice_ok_def)

lemma slices_ok_mono: "slices_ok m F s \<Longrightarrow> F \<subseteq> F' \<Longrightarrow> slices_ok m F' s"
  by (auto simp: slices_ok_def)

lemma same_keeps: "same m m' H \<Longrightarrow> keeps m m' H F"
  by (simp add: same_def keeps_def)

text \<open>No buffer that users reach lies in array \<open>a\<close>.\<close>

definition avoids :: "mem \<Rightarrow> nat \<Rightarrow> nat list \<Rightarrow> nat set \<Rightarrow> bool" where
  "avoids m a H F \<longleftrightarrow> a \<notin> F \<and> (\<forall>x \<in> set H. arr (view (objs m x)) \<noteq> a)"

lemma rc_arr:
  assumes "rc m H L out F" "x \<in> set H"
  shows "arr (view (objs m x)) \<in> snd ` set L"
  using rc_held [OF assms] by (metis image_eqI snd_conv)

lemma buf_inv_avoids:
  assumes "buf_inv m H (a # out) F"
  shows "avoids m a H F"
proof -
  from assms obtain L where L: "rc m H L (a # out) F" by (auto simp: buf_inv_def)
  then have own: "bp_inv (arrays m, map snd L @ a # out)" and F: "a \<notin> F" by (auto simp: rc_def arrays_ok_def)
  have "a \<notin> snd ` set L" using bp_inv_owned(1) [OF own] by auto
  moreover have "arr (view (objs m x)) \<in> snd ` set L" if "x \<in> set H" for x by (rule rc_arr [OF L that])
  ultimately show ?thesis using F unfolding avoids_def by metis
qed

lemma write_keeps: "avoids m a H F \<Longrightarrow> keeps m (write_bytes a i bs m) H F"
  by (auto simp: avoids_def keeps_def)

lemma write_buf_inv: "buf_inv m H out F \<Longrightarrow> i + length bs \<le> length (heap (arrays m) a) \<Longrightarrow> buf_inv (write_bytes a i bs m) H out F"
  using write_bytes_rc unfolding buf_inv_def by blast

lemma pool_Get_inv:
  assumes "buf_inv m H out F"
  shows "\<exists>a m'. pool_Get pick n m = (Ok \<lparr>arr = a, off = 0, len = n\<rparr>, m') \<and> buf_inv m' H (a # out) F \<and> n \<le> length (heap (arrays m') a)
    \<and> a \<notin> set out \<and> keeps m m' H F"
proof -
  from assms obtain L where L: "rc m H L out F" by (auto simp: buf_inv_def)
  from pool_Get_rc [OF L, of pick n] obtain a m' where g: "pool_Get pick n m = (Ok \<lparr>arr = a, off = 0, len = n\<rparr>, m')"
    "rc m' H L (a # out) F" "n \<le> length (heap (arrays m') a)" "a \<notin> set (map snd L @ out) \<union> F" "objs m' = objs m"
    "\<forall>x \<in> set (map snd L @ out) \<union> F. heap (arrays m') x = heap (arrays m) x" by blast
  have "arr (view (objs m x)) \<in> snd ` set L" if "x \<in> set H" for x by (rule rc_arr [OF L that])
  then have "keeps m m' H F" using g(5,6) by (simp add: keeps_def)
  with g show ?thesis by (auto simp: buf_inv_def)
qed

lemma make_bytes_inv:
  assumes "buf_inv m H out F"
  shows "\<exists>a m'. make_bytes n m = (\<lparr>arr = a, off = 0, len = n\<rparr>, m') \<and> buf_inv m' H out (insert a F) \<and> heap (arrays m') a = replicate n 0
    \<and> avoids m' a H F \<and> keeps m m' H F"
proof -
  from assms obtain L where L: "rc m H L out F" by (auto simp: buf_inv_def)
  from make_bytes_rc [OF L, of n] obtain a m' where g: "make_bytes n m = (\<lparr>arr = a, off = 0, len = n\<rparr>, m')"
    "rc m' H L out (insert a F)" "heap (arrays m') a = replicate n 0" "a \<notin> set (map snd L @ out) \<union> F" "objs m' = objs m"
    "\<forall>x \<in> set (map snd L @ out) \<union> F. heap (arrays m') x = heap (arrays m) x" by blast
  have "arr (view (objs m x)) \<in> snd ` set L" if "x \<in> set H" for x by (rule rc_arr [OF L that])
  moreover from this have "arr (view (objs m x)) \<noteq> a" if "x \<in> set H" for x using that g(4) by auto
  ultimately have "keeps m m' H F" "avoids m' a H F" using g(4,5,6) by (simp_all add: keeps_def avoids_def)
  with g show ?thesis by (auto simp: buf_inv_def)
qed

lemma NewBuffer_inv:
  assumes "buf_inv m H (arr s # out) F" "slice_ok m s" "pool \<or> \<not> IsLessBufferPoolThreshold (slice_cap m s)"
  shows "\<exists>b m'. NewBuffer ch s pool m = (buffer_ptr b, m') \<and> buf_inv m' (b # H) out F \<and> data m' (buffer_ptr b) = slice_bytes m s
    \<and> same m m' H"
proof -
  from assms(1) obtain L where L: "rc m H L (arr s # out) F" by (auto simp: buf_inv_def)
  from NewBuffer_rc [OF L assms(2,3), of ch] show ?thesis by (auto simp: buf_inv_def data_def slice_bytes_def same_def)
qed

section \<open>\<open>CopyTo\<close> and \<open>Materialize\<close>\<close>

lemma CopyTo_refines:
  assumes "buf_inv m H out F" "set (objs_of s) \<subseteq> set H" "slices_ok m F' s" "F' \<subseteq> F" "avoids m a H F'"
    and "n \<le> length (heap (arrays m) a)" "i \<le> n"
  shows "\<exists>m' j. BufferSlice_CopyTo s \<lparr>arr = a, off = 0, len = n\<rparr> i m = (Ok j, m') \<and> buf_inv m' H out F \<and> keeps m m' H F'
    \<and> length (heap (arrays m') a) = length (heap (arrays m) a)
    \<and> slice_bytes m' \<lparr>arr = a, off = 0, len = n\<rparr> = CopyTo (map (data m) s) i (slice_bytes m \<lparr>arr = a, off = 0, len = n\<rparr>)"
  using assms
proof (induction s arbitrary: m i)
  case Nil
  then show ?case by simp
next
  case (Cons b s)
  have s: "set (objs_of [b]) \<subseteq> set H" "set (objs_of s) \<subseteq> set H" "slices_ok m F' [b]" "slices_ok m F' s"
    using Cons.prems(2,3) slices_ok_Cons [of m F' b s] by (auto simp: objs_of_def)
  have rd: "ReadOnlyData b m = Ok (data m b)"
    by (rule ReadOnlyData_ok(1) [OF Cons.prems(1) s(1) slices_ok_mono [OF s(3) Cons.prems(4)]])
  let ?k = "min (length (data m b)) (n - i)" and ?h = "heap (arrays m) a"
  define m1 where "m1 = write_bytes a i (take ?k (data m b)) m"
  have len: "i + length (take ?k (data m b)) \<le> n" using Cons.prems(7) by simp
  have kp: "keeps m m1 H F'" unfolding m1_def by (rule write_keeps [OF Cons.prems(5)])
  have inv: "buf_inv m1 H out F" unfolding m1_def using Cons.prems(1,6) len by (intro write_buf_inv) auto
  have h1: "heap (arrays m1) a = take i ?h @ take ?k (data m b) @ drop (i + ?k) ?h" by (simp add: m1_def)
  have l1: "length (heap (arrays m1) a) = length ?h" using h1 len Cons.prems(6) by simp
  have av: "avoids m1 a H F'" using Cons.prems(5) kp by (auto simp: avoids_def keeps_def)
  have ok: "slices_ok m1 F' s" by (rule keeps_slices [OF kp s(4)])
  have "\<exists>m' j. BufferSlice_CopyTo s \<lparr>arr = a, off = 0, len = n\<rparr> (i + ?k) m1 = (Ok j, m') \<and> buf_inv m' H out F \<and> keeps m1 m' H F'
    \<and> length (heap (arrays m') a) = length (heap (arrays m1) a)
    \<and> slice_bytes m' \<lparr>arr = a, off = 0, len = n\<rparr> = CopyTo (map (data m1) s) (i + ?k) (slice_bytes m1 \<lparr>arr = a, off = 0, len = n\<rparr>)"
    using len l1 Cons.prems(6) by (intro Cons.IH [OF inv s(2) ok Cons.prems(4) av]) simp_all
  then obtain m' j where ih: "BufferSlice_CopyTo s \<lparr>arr = a, off = 0, len = n\<rparr> (i + ?k) m1 = (Ok j, m')" "buf_inv m' H out F" "keeps m1 m' H F'"
    "length (heap (arrays m') a) = length (heap (arrays m1) a)"
    "slice_bytes m' \<lparr>arr = a, off = 0, len = n\<rparr> = CopyTo (map (data m1) s) (i + ?k) (slice_bytes m1 \<lparr>arr = a, off = 0, len = n\<rparr>)" by blast
  have eq1: "map (data m1) s = map (data m) s"
    using keeps_data [OF kp] s(2,4) by (intro map_cong refl) (auto simp: objs_of_def slices_ok_def)
  let ?D = "slice_bytes m \<lparr>arr = a, off = 0, len = n\<rparr>"
  have D: "?D = take n ?h" "length ?D = n" using Cons.prems(6) by (simp_all add: slice_bytes_def)
  have eq2: "slice_bytes m1 \<lparr>arr = a, off = 0, len = n\<rparr> = take i ?D @ take ?k (data m b) @ drop (i + ?k) ?D"
    unfolding D(1) using Cons.prems(6,7) by (simp add: slice_bytes_def h1 drop_take min_def)
  have eq3: "CopyTo (map (data m) (b # s)) i ?D = CopyTo (map (data m) s) (i + ?k) (take i ?D @ take ?k (data m b) @ drop (i + ?k) ?D)"
    using D(2) by (simp add: Let_def)
  have "BufferSlice_CopyTo (b # s) \<lparr>arr = a, off = 0, len = n\<rparr> i m = (Ok j, m')"
    using rd ih(1) by (simp add: Let_def m1_def)
  moreover have "length (heap (arrays m') a) = length ?h" using ih(4) l1 by simp
  moreover have "slice_bytes m' \<lparr>arr = a, off = 0, len = n\<rparr> = CopyTo (map (data m) (b # s)) i ?D"
    unfolding eq3 ih(5) eq1 eq2 by (rule refl)
  ultimately show ?case using ih(2) keeps_trans [OF kp ih(3)] by blast
qed

text \<open>A destination of the length of the source gets exactly the source.\<close>

lemma CopyTo_all:
  assumes "buf_inv m H out F" "set (objs_of s) \<subseteq> set H" "slices_ok m F' s" "F' \<subseteq> F" "avoids m a H F'"
    and "n \<le> length (heap (arrays m) a)" "n = length (contents m s)"
  obtains m' j where "BufferSlice_CopyTo s \<lparr>arr = a, off = 0, len = n\<rparr> 0 m = (Ok j, m')" "buf_inv m' H out F" "keeps m m' H F'"
    "length (heap (arrays m') a) = length (heap (arrays m) a)" "slice_bytes m' \<lparr>arr = a, off = 0, len = n\<rparr> = contents m s"
proof -
  from CopyTo_refines [OF assms(1-6) le0] obtain m' j where c: "BufferSlice_CopyTo s \<lparr>arr = a, off = 0, len = n\<rparr> 0 m = (Ok j, m')"
    "buf_inv m' H out F" "keeps m m' H F'" "length (heap (arrays m') a) = length (heap (arrays m) a)"
    "slice_bytes m' \<lparr>arr = a, off = 0, len = n\<rparr> = CopyTo (map (data m) s) 0 (slice_bytes m \<lparr>arr = a, off = 0, len = n\<rparr>)" by blast
  have "0 + slice_Len (map (data m) s) = length (slice_bytes m \<lparr>arr = a, off = 0, len = n\<rparr>)"
    using assms(6,7) by (simp add: slice_Len_def slice_bytes_def contents_def length_concat)
  from CopyTo_fills [OF this] c(5) have "slice_bytes m' \<lparr>arr = a, off = 0, len = n\<rparr> = contents m s" by (simp add: contents_def)
  with c that show ?thesis by blast
qed

lemma Materialize_ok:
  assumes "buf_inv m H out F" "set (objs_of s) \<subseteq> set H" "slices_ok m F s"
  shows "\<exists>o1 m' F'. BufferSlice_Materialize s m = (Ok o1, m') \<and> slice_bytes m' o1 = contents m s \<and> buf_inv m' H out F' \<and> keeps m m' H F"
proof (cases "contents m s = []")
  case True
  with BufferSlice_Len_ok [OF assms] assms(1) show ?thesis
    by (auto simp: BufferSlice_Materialize_def slice_bytes_def nil_slice_def)
next
  case False
  let ?n = "length (contents m s)"
  from make_bytes_inv [OF assms(1), of ?n] obtain a m1 where m1: "make_bytes ?n m = (\<lparr>arr = a, off = 0, len = ?n\<rparr>, m1)"
    "buf_inv m1 H out (insert a F)" "heap (arrays m1) a = replicate ?n 0" "avoids m1 a H F" "keeps m m1 H F" by blast
  have cs: "contents m1 s = contents m s" by (rule keeps_contents [OF m1(5) assms(2,3)])
  have ok: "slices_ok m1 F s" by (rule keeps_slices [OF m1(5) assms(3)])
  have "?n \<le> length (heap (arrays m1) a)" "?n = length (contents m1 s)" using m1(3) cs by simp_all
  from CopyTo_all [OF m1(2) assms(2) ok _ m1(4) this] obtain m' j where
    "BufferSlice_CopyTo s \<lparr>arr = a, off = 0, len = ?n\<rparr> 0 m1 = (Ok j, m')" "buf_inv m' H out (insert a F)" "keeps m1 m' H F"
    "slice_bytes m' \<lparr>arr = a, off = 0, len = ?n\<rparr> = contents m1 s" by blast
  with m1(1,5) cs False BufferSlice_Len_ok [OF assms] keeps_trans show ?thesis
    by (auto simp: BufferSlice_Materialize_def)
qed

lemma MaterializeToBuffer_ok:
  assumes "buf_inv m H out F" "set (objs_of s) \<subseteq> set H" "slices_ok m F s"
  shows "\<exists>b m'. BufferSlice_MaterializeToBuffer ch s m = (Ok b, m') \<and> data m' b = contents m s
    \<and> buf_inv m' (objs_of [b] @ H) out F \<and> slices_ok m' F [b] \<and> keeps m m' H F"
proof (cases "length s = 1")
  case True
  then obtain b where b: "s = [b]" by (auto simp: length_Suc_conv)
  from Ref_ok [OF assms(1), of b] assms(2) b obtain m' where m': "Ref b m = (Ok (), m')" "buf_inv m' (objs_of [b] @ H) out F"
    "objs m' = objs m" "arrays m' = arrays m" by blast
  then have "same m m' H" "same m m' (objs_of [b])" by (simp_all add: same_def)
  with m' assms(3) b same_data [of m m' "objs_of [b]" b] same_slices show ?thesis
    by (auto simp: BufferSlice_MaterializeToBuffer_def same_keeps)
next
  case False
  show ?thesis
  proof (cases "contents m s = []")
    case True
    with False BufferSlice_Len_ok [OF assms] assms(1) show ?thesis by (auto simp: BufferSlice_MaterializeToBuffer_def data_def)
  next
    case nonempty: False
    let ?n = "length (contents m s)"
    from pool_Get_inv [OF assms(1), of "pick_arr ch" ?n] obtain a m1 where
      m1: "pool_Get (pick_arr ch) ?n m = (Ok \<lparr>arr = a, off = 0, len = ?n\<rparr>, m1)" "buf_inv m1 H (a # out) F"
      "?n \<le> length (heap (arrays m1) a)" "keeps m m1 H F" by blast
    have cs: "contents m1 s = contents m s" by (rule keeps_contents [OF m1(4) assms(2,3)])
    have ok: "slices_ok m1 F s" by (rule keeps_slices [OF m1(4) assms(3)])
    from CopyTo_all [OF m1(2) assms(2) ok subset_refl buf_inv_avoids [OF m1(2)] m1(3)] cs obtain m2 j where
      m2: "BufferSlice_CopyTo s \<lparr>arr = a, off = 0, len = ?n\<rparr> 0 m1 = (Ok j, m2)" "buf_inv m2 H (a # out) F" "keeps m1 m2 H F"
      "length (heap (arrays m2) a) = length (heap (arrays m1) a)" "slice_bytes m2 \<lparr>arr = a, off = 0, len = ?n\<rparr> = contents m s" by metis
    from NewBuffer_inv [of m2 H "\<lparr>arr = a, off = 0, len = ?n\<rparr>" out F True ch] m2(2,4) m1(3) obtain b m3 where
      m3: "NewBuffer ch \<lparr>arr = a, off = 0, len = ?n\<rparr> True m2 = (buffer_ptr b, m3)" "buf_inv m3 (b # H) out F"
      "data m3 (buffer_ptr b) = slice_bytes m2 \<lparr>arr = a, off = 0, len = ?n\<rparr>" "same m2 m3 H" by (auto simp: slice_ok_def)
    have "keeps m m3 H F" using m1(4) m2(3) same_keeps [OF m3(4)] by (blast intro: keeps_trans)
    moreover have "BufferSlice_MaterializeToBuffer ch s m = (Ok (buffer_ptr b), m3)"
      using False nonempty BufferSlice_Len_ok [OF assms] m1(1) m2(1) m3(1) by (simp add: BufferSlice_MaterializeToBuffer_def)
    ultimately show ?thesis using m3(2,3) m2(5) by auto
  qed
qed

section \<open>\<open>Copy\<close>, the writer and \<open>ReadAll\<close>\<close>

lemma Copy_ok:
  assumes "buf_inv m H out F"
  shows "\<exists>b m' F'. Copy ch d m = (Ok b, m') \<and> data m' b = d \<and> buf_inv m' (objs_of [b] @ H) out F' \<and> F \<subseteq> F' \<and> slices_ok m' F' [b]
    \<and> keeps m m' H F"
proof (cases "IsLessBufferPoolThreshold (length d)")
  case True
  from make_bytes_inv [OF assms, of "length d"] obtain a m1 where m1: "make_bytes (length d) m = (\<lparr>arr = a, off = 0, len = length d\<rparr>, m1)"
    "buf_inv m1 H out (insert a F)" "heap (arrays m1) a = replicate (length d) 0" "avoids m1 a H F" "keeps m m1 H F" by blast
  let ?m = "write_bytes a 0 d m1"
  have "buf_inv ?m H out (insert a F)" using m1(2,3) by (intro write_buf_inv) auto
  moreover have "keeps m ?m H F" using m1(4,5) write_keeps keeps_trans by blast
  ultimately show ?thesis using True m1(1,3) by (auto simp: Copy_def data_def slice_bytes_def slice_ok_def)
next
  case False
  from pool_Get_inv [OF assms, of "pick_arr ch" "length d"] obtain a m1 where
    m1: "pool_Get (pick_arr ch) (length d) m = (Ok \<lparr>arr = a, off = 0, len = length d\<rparr>, m1)" "buf_inv m1 H (a # out) F"
    "length d \<le> length (heap (arrays m1) a)" "keeps m m1 H F" by blast
  let ?m = "write_bytes a 0 d m1"
  have inv: "buf_inv ?m H (a # out) F" using m1(2,3) by (intro write_buf_inv) auto
  have kp: "keeps m ?m H F" using m1(4) write_keeps [OF buf_inv_avoids [OF m1(2)]] keeps_trans by blast
  from NewBuffer_inv [of ?m H "\<lparr>arr = a, off = 0, len = length d\<rparr>" out F True ch] inv m1(3) obtain b m3 where
    m3: "NewBuffer ch \<lparr>arr = a, off = 0, len = length d\<rparr> True ?m = (buffer_ptr b, m3)" "buf_inv m3 (b # H) out F"
    "data m3 (buffer_ptr b) = slice_bytes ?m \<lparr>arr = a, off = 0, len = length d\<rparr>" "same ?m m3 H" by (auto simp: slice_ok_def)
  have "slice_bytes ?m \<lparr>arr = a, off = 0, len = length d\<rparr> = d" by (simp add: slice_bytes_def)
  moreover have "keeps m m3 H F" using kp same_keeps [OF m3(4)] keeps_trans by blast
  ultimately show ?thesis using False m1(1) m3(1-3) by (auto simp: Copy_def intro!: exI [of _ F])
qed

lemma write_all_ok:
  "buf_inv m (objs_of bs @ H) out F \<Longrightarrow> slices_ok m F bs \<Longrightarrow>
     \<exists>bs' m' F'. write_all ch ps bs m = (Ok (bs @ bs'), m') \<and> map (data m') bs' = ps \<and> buf_inv m' (objs_of (bs @ bs') @ H) out F'
       \<and> F \<subseteq> F' \<and> slices_ok m' F' (bs @ bs') \<and> keeps m m' (objs_of bs @ H) F"
proof (induction ps arbitrary: bs m F)
  case Nil
  then show ?case by auto
next
  case (Cons p ps)
  from Copy_ok [OF Cons.prems(1), of "ch (length bs)" p] obtain b m1 F1 where c: "Copy (ch (length bs)) p m = (Ok b, m1)" "data m1 b = p"
    "buf_inv m1 (objs_of [b] @ objs_of bs @ H) out F1" "F \<subseteq> F1" "slices_ok m1 F1 [b]" "keeps m m1 (objs_of bs @ H) F" by blast
  have len: "Len b m1 = Ok (length p)" using ReadOnlyData_ok(2) [OF c(3) _ c(5)] c(2) by simp
  have "buf_inv m1 (objs_of (bs @ [b]) @ H) out F1" by (rule buf_inv_perm [OF c(3)]) simp
  moreover have ok: "slices_ok m1 F1 (bs @ [b])" using keeps_slices [OF c(6) Cons.prems(2)] c(4,5) slices_ok_mono by auto
  ultimately obtain bs' m' F' where ih: "write_all ch ps (bs @ [b]) m1 = (Ok ((bs @ [b]) @ bs'), m')" "map (data m') bs' = ps"
    "buf_inv m' (objs_of ((bs @ [b]) @ bs') @ H) out F'" "F1 \<subseteq> F'" "slices_ok m' F' ((bs @ [b]) @ bs')"
    "keeps m1 m' (objs_of (bs @ [b]) @ H) F1" using Cons.IH by blast
  have "data m' b = p" using keeps_data [OF ih(6) _ c(5)] c(2) by auto
  moreover have "keeps m m' (objs_of bs @ H) F"
    using c(4) by (intro keeps_trans [OF c(6)] keeps_mono [OF ih(6)]) auto
  moreover have "write_all ch (p # ps) bs m = (Ok (bs @ b # bs'), m')" using c(1) len ih(1) by (simp add: writer_Write_def)
  ultimately show ?case using ih c(4) by (intro exI [of _ "b # bs'"] exI [of _ m'] exI [of _ F']) auto
qed

text \<open>
  What the code relies on from an \<open>io.Reader\<close>: a \<open>Read\<close> into \<open>k\<close> bytes gives at most \<open>k\<close> bytes, and after
  finitely many reads, of whatever sizes, the reader ends with an error. \<open>delivers rd st bs e\<close>: from state
  \<open>st\<close> the reader hands out \<open>bs\<close> in all and ends with \<open>e\<close>, possibly together with the last bytes.
\<close>

inductive delivers :: "'r io_reader \<Rightarrow> 'r \<Rightarrow> bytes \<Rightarrow> goerr \<Rightarrow> bool" for rd :: "'r io_reader" where
  delivers:
    "(\<And>k p e' st'. 0 < k \<Longrightarrow> rd st k = (p, Some e', st') \<Longrightarrow> length p \<le> k \<and> p = bs \<and> e' = e) \<Longrightarrow>
     (\<And>k p st'. 0 < k \<Longrightarrow> rd st k = (p, None, st') \<Longrightarrow> length p \<le> k \<and> (\<exists>bs'. bs = p @ bs' \<and> delivers rd st' bs' e)) \<Longrightarrow>
     delivers rd st bs e"

text \<open>The state of the loop: \<open>buf\<close> is a whole array of the pool, not yet full, and holds the last \<open>usedCap\<close> bytes of \<open>got\<close>.\<close>

definition filling :: "mem \<Rightarrow> nat list \<Rightarrow> nat list \<Rightarrow> nat set \<Rightarrow> slice \<Rightarrow> nat \<Rightarrow> Buffer list \<Rightarrow> bytes \<Rightarrow> bool" where
  "filling m H out F buf usedCap result got \<longleftrightarrow> buf_inv m (objs_of result @ H) (arr buf # out) F \<and> slices_ok m F result
     \<and> off buf = 0 \<and> len buf = length (heap (arrays m) (arr buf)) \<and> usedCap < len buf
     \<and> got = contents m result @ take usedCap (heap (arrays m) (arr buf))"

lemma next_buffer_filling:
  assumes "buf_inv m (objs_of result @ H) out F" "slices_ok m F result"
  shows "\<exists>buf m'. next_buffer ch m = (Ok buf, m') \<and> filling m' H out F buf 0 result (contents m result) \<and> keeps m m' (objs_of result @ H) F"
proof -
  from pool_Get_inv [OF assms(1), of "pick_arr ch" "32 * 1024"] obtain a m1 where
    m1: "pool_Get (pick_arr ch) (32 * 1024) m = (Ok \<lparr>arr = a, off = 0, len = 32 * 1024\<rparr>, m1)" "buf_inv m1 (objs_of result @ H) (a # out) F"
    "32 * 1024 \<le> length (heap (arrays m1) a)" "keeps m m1 (objs_of result @ H) F" by blast
  have "0 < length (heap (arrays m1) a)" using m1(3) by linarith
  moreover have "contents m1 result = contents m result" using keeps_contents [OF m1(4) _ assms(2)] by simp
  moreover have "slices_ok m1 F result" by (rule keeps_slices [OF m1(4) assms(2)])
  ultimately have "filling m1 H out F \<lparr>arr = a, off = 0, len = length (heap (arrays m1) a)\<rparr> 0 result (contents m result)"
    using m1(2,3) by (simp add: filling_def)
  with m1(1,4) show ?thesis by (simp add: next_buffer_def slice_cap_def)
qed

lemma filling_write:
  assumes "filling m H out F buf usedCap result got" "length p \<le> len buf - usedCap" "m1 = write_bytes (arr buf) (off buf + usedCap) p m"
  shows "buf_inv m1 (objs_of result @ H) (arr buf # out) F" "slices_ok m1 F result" "len buf = length (heap (arrays m1) (arr buf))"
    "got @ p = contents m1 result @ take (usedCap + length p) (heap (arrays m1) (arr buf))" "keeps m m1 (objs_of result @ H) F"
proof -
  from assms(1) have f: "buf_inv m (objs_of result @ H) (arr buf # out) F" "slices_ok m F result" "off buf = 0"
    "len buf = length (heap (arrays m) (arr buf))" "usedCap < len buf" "got = contents m result @ take usedCap (heap (arrays m) (arr buf))"
    by (auto simp: filling_def)
  show "buf_inv m1 (objs_of result @ H) (arr buf # out) F"
    unfolding assms(3) using f assms(2) by (intro write_buf_inv) auto
  show kp: "keeps m m1 (objs_of result @ H) F" unfolding assms(3) by (rule write_keeps [OF buf_inv_avoids [OF f(1)]])
  show "slices_ok m1 F result" by (rule keeps_slices [OF kp f(2)])
  have "contents m1 result = contents m result" using keeps_contents [OF kp _ f(2)] by simp
  then show "got @ p = contents m1 result @ take (usedCap + length p) (heap (arrays m1) (arr buf))"
    "len buf = length (heap (arrays m1) (arr buf))"
    using f assms(2,3) by simp_all
qed

lemma finish_buffer_ok:
  assumes "buf_inv m (objs_of result @ H) (arr buf # out) F" "slices_ok m F result" "off buf = 0" "n \<le> length (heap (arrays m) (arr buf))"
  shows "\<exists>result' m'. finish_buffer ch buf n result m = (result', m')
    \<and> contents m' result' = contents m result @ take n (heap (arrays m) (arr buf))
    \<and> buf_inv m' (objs_of result' @ H) out F \<and> slices_ok m' F result' \<and> keeps m m' (objs_of result @ H) F"
proof (cases "n = 0")
  case True
  from assms(1) obtain L where "rc m (objs_of result @ H) L (arr buf # out) F" by (auto simp: buf_inv_def)
  from pool_Put_rc [OF this] have "buf_inv (pool_Put (Some (arr buf)) m) (objs_of result @ H) out F" by (auto simp: buf_inv_def)
  moreover have "same m (pool_Put (Some (arr buf)) m) X" for X by (simp add: same_def pool_Put_def bufferPool_Put_frame)
  ultimately show ?thesis
    using True assms(2) same_contents [of m "pool_Put (Some (arr buf)) m" "objs_of result" result]
      same_slices [of m "pool_Put (Some (arr buf)) m" "[]" F result] same_keeps
    by (simp add: finish_buffer_def)
next
  case False
  let ?s = "buf\<lparr>len := n\<rparr>"
  have "slice_ok m ?s" using assms(3,4) by (simp add: slice_ok_def)
  from NewBuffer_inv [of m "objs_of result @ H" ?s out F True ch] assms(1) this obtain b m' where
    m': "NewBuffer ch ?s True m = (buffer_ptr b, m')" "buf_inv m' (b # objs_of result @ H) out F" "data m' (buffer_ptr b) = slice_bytes m ?s"
    "same m m' (objs_of result @ H)" by auto
  have "buf_inv m' (objs_of (result @ [buffer_ptr b]) @ H) out F" by (rule buf_inv_perm [OF m'(2)]) simp
  moreover have "contents m' result = contents m result" using same_contents [OF m'(4)] by simp
  ultimately show ?thesis using False m'(1,3,4) assms(2,3) same_slices [OF m'(4)] same_keeps [OF m'(4)]
    by (simp add: finish_buffer_def contents_def slice_bytes_def)
qed

lemma ReadAll_loop_ok:
  assumes "delivers rd st bs e" "filling m H out F buf usedCap result got"
  shows "\<exists>result' m'. ReadAll_loop rd ch buf usedCap result st m = Some (Ok (result', eof_is_nil e), m') \<and> contents m' result' = got @ bs
    \<and> buf_inv m' (objs_of result' @ H) out F \<and> slices_ok m' F result' \<and> keeps m m' H F"
  using assms
proof (induction arbitrary: m buf usedCap result got rule: delivers.induct)
  case (delivers st bs e)
  note fl = delivers.prems
  have pos: "0 < len buf - usedCap" using fl by (simp add: filling_def)
  obtain p err st' where r: "rd st (len buf - usedCap) = (p, err, st')" using prod_cases3 by blast
  have lp: "length p \<le> len buf - usedCap" using delivers(1,2) [OF pos] r by (cases err) auto
  define m1 where "m1 = write_bytes (arr buf) (off buf + usedCap) p m"
  note w = filling_write [OF fl lp m1_def]
  have k1: "keeps m m1 H F" by (rule keeps_mono [OF w(5)]) auto
  have o: "off buf = 0" using fl by (simp add: filling_def)
  show ?case
  proof (cases err)
    case (Some e')
    from delivers(1) [OF pos] r Some have pe: "p = bs" "e' = e" by auto
    have "usedCap + length p \<le> length (heap (arrays m1) (arr buf))" using w(3) lp pos by simp
    from finish_buffer_ok [OF w(1,2) o this, of "ch (length result)"] obtain result' m' where
      f: "finish_buffer (ch (length result)) buf (usedCap + length p) result m1 = (result', m')"
      "contents m' result' = got @ p" "buf_inv m' (objs_of result' @ H) out F" "slices_ok m' F result'" "keeps m1 m' (objs_of result @ H) F"
      using w(4) by metis
    have "keeps m m' H F" by (rule keeps_trans [OF k1 keeps_mono [OF f(5)]]) auto
    moreover have "ReadAll_loop rd ch buf usedCap result st m = Some (Ok (result', eof_is_nil e'), m')"
      using Some r f(1) by (subst ReadAll_loop.simps) (simp add: m1_def [symmetric])
    ultimately show ?thesis using f(2-4) pe by auto
  next
    case None
    from delivers(2) [OF pos, of p st'] r None obtain bs' where bs': "bs = p @ bs'"
      and ih: "\<And>m buf usedCap result got. filling m H out F buf usedCap result got \<Longrightarrow>
        \<exists>result' m'. ReadAll_loop rd ch buf usedCap result st' m = Some (Ok (result', eof_is_nil e), m') \<and> contents m' result' = got @ bs'
          \<and> buf_inv m' (objs_of result' @ H) out F \<and> slices_ok m' F result' \<and> keeps m m' H F" by blast
    show ?thesis
    proof (cases "len buf = usedCap + length p")
      case full: True
      from NewBuffer_inv [of m1 "objs_of result @ H" buf out F True "ch (length result)"] w(1,3) o obtain b m2 where
        m2: "NewBuffer (ch (length result)) buf True m1 = (buffer_ptr b, m2)" "buf_inv m2 (b # objs_of result @ H) out F"
        "data m2 (buffer_ptr b) = slice_bytes m1 buf" "same m1 m2 (objs_of result @ H)" by (auto simp: slice_ok_def)
      have inv2: "buf_inv m2 (objs_of (result @ [buffer_ptr b]) @ H) out F" by (rule buf_inv_perm [OF m2(2)]) simp
      have ok2: "slices_ok m2 F (result @ [buffer_ptr b])" using same_slices [OF m2(4)] w(2) by simp
      have "contents m2 result = contents m1 result" using same_contents [OF m2(4)] by simp
      then have c2: "contents m2 (result @ [buffer_ptr b]) = got @ p"
        using m2(3) w(3,4) full o by (simp add: contents_def slice_bytes_def)
      from next_buffer_filling [OF inv2 ok2, of "ch (Suc (length result))"] obtain buf' m3 where
        m3: "next_buffer (ch (Suc (length result))) m2 = (Ok buf', m3)" "filling m3 H out F buf' 0 (result @ [buffer_ptr b]) (got @ p)"
        "keeps m2 m3 (objs_of (result @ [buffer_ptr b]) @ H) F" unfolding c2 by blast
      from ih [OF m3(2)] obtain result' m' where i: "ReadAll_loop rd ch buf' 0 (result @ [buffer_ptr b]) st' m3 = Some (Ok (result', eof_is_nil e), m')"
        "contents m' result' = (got @ p) @ bs'" "buf_inv m' (objs_of result' @ H) out F" "slices_ok m' F result'" "keeps m3 m' H F" by blast
      have "keeps m1 m2 H F" "keeps m2 m3 H F" by (rule keeps_mono [OF same_keeps [OF m2(4)]] keeps_mono [OF m3(3)]; auto)+
      then have "keeps m m' H F" using k1 i(5) keeps_trans by blast
      with i m2(1) m3(1) full None r bs' show ?thesis by (simp add: ReadAll_loop.simps [of rd ch buf] m1_def [symmetric])
    next
      case False
      then have "filling m1 H out F buf (usedCap + length p) result (got @ p)" using w o lp pos by (simp add: filling_def)
      from ih [OF this] obtain result' m' where i: "ReadAll_loop rd ch buf (usedCap + length p) result st' m1 = Some (Ok (result', eof_is_nil e), m')"
        "contents m' result' = (got @ p) @ bs'" "buf_inv m' (objs_of result' @ H) out F" "slices_ok m' F result'" "keeps m1 m' H F" by blast
      have "keeps m m' H F" using k1 i(5) keeps_trans by blast
      with i False None r bs' show ?thesis by (subst ReadAll_loop.simps) (simp add: m1_def [symmetric])
    qed
  qed
qed

end
