(* ===== verification/Buffer_Safety.thy ===== *)
theory Buffer_Safety
  imports Buffers_Copy
begin

text \<open>
  Executions of the buffer store and the properties of package \<open>mem\<close>.

  A state is the store with the references \<open>H\<close> that users hold to \<open>buffer\<close> objects, the arrays \<open>out\<close> they
  took from the pool, and the arrays \<open>F\<close> of plain slices. \<open>mem_step\<close> interleaves any number of users,
  who use what they hold: they get, fill and return arrays, make buffers, take, split and
  drop references, and read. A dropped reference is gone from \<open>H\<close>: using it again is the misuse that the
  panics of the code are about.
\<close>

type_synonym mem_state = "mem \<times> nat list \<times> nat list \<times> nat set"

inductive mem_step :: "mem_state \<Rightarrow> mem_state \<Rightarrow> bool" where
  get: "pool_Get pick n m = (Ok s, m') \<Longrightarrow> mem_step (m, H, out, F) (m', H, arr s # out, F)"
| fill: "a \<in> set out \<Longrightarrow> i + length bs \<le> length (heap (arrays m) a) \<Longrightarrow> mem_step (m, H, out, F) (write_bytes a i bs m, H, out, F)"
| put: "a \<in> set out \<Longrightarrow> mem_step (m, H, out, F) (pool_Put (Some a) m, H, remove1 a out, F)"
| new: "arr s \<in> set out \<Longrightarrow> slice_ok m s \<Longrightarrow> NewBuffer ch s pool m = (buffer_ptr b, m') \<Longrightarrow>
    mem_step (m, H, out, F) (m', b # H, remove1 (arr s) out, F)"
| ref: "b \<in> set H \<Longrightarrow> buffer_Ref b m = (Ok (), m') \<Longrightarrow> mem_step (m, H, out, F) (m', b # H, out, F)"
| free: "b \<in> set H \<Longrightarrow> buffer_Free b m = (Ok (), m') \<Longrightarrow> mem_step (m, H, out, F) (m', remove1 b H, out, F)"
| split: "b \<in> set H \<Longrightarrow> buffer_split ch n b m = (Ok (buffer_ptr b, buffer_ptr b'), m') \<Longrightarrow> mem_step (m, H, out, F) (m', b' # H, out, F)"
| read: "b \<in> set H \<Longrightarrow> buffer_read k b m = (Ok (bs, rest), m') \<Longrightarrow>
    mem_step (m, H, out, F) (m', if rest = None then remove1 b H else H, out, F)"
| copy: "make_bytes (length bs) m = (s, m') \<Longrightarrow> mem_step (m, H, out, F) (write_bytes (arr s) 0 bs m', H, out, insert (arr s) F)"

definition mem_start :: "mem_state \<Rightarrow> bool" where
  "mem_start s \<longleftrightarrow> s = (mem_init, [], [], {})"

definition mem_inv :: "mem_state \<Rightarrow> bool" where
  "mem_inv s \<longleftrightarrow> (case s of (m, H, out, F) \<Rightarrow> buf_inv m H out F)"

lemma mem_inv_init: "mem_inv (mem_init, [], [], {})"
  by (simp add: mem_inv_def buf_inv_def rc_def arrays_ok_def bp_inv_def mem_init_def bufferPool_init_def recycled_def counted_def sizes)

lemma rc_take_out: "rc m H L out F \<Longrightarrow> a \<in> set out \<Longrightarrow> rc m H L (a # remove1 a out) F"
  by (erule rc_perm_out) simp

lemma new_inv:
  assumes "buf_inv m H out F" "arr s \<in> set out" "slice_ok m s" "NewBuffer ch s pool m = (buffer_ptr b, m')"
  shows "buf_inv m' (b # H) (remove1 (arr s) out) F"
proof -
  from assms(1,2) have "buf_inv m H (arr s # remove1 (arr s) out) F" using rc_take_out unfolding buf_inv_def by blast
  moreover have "pool \<or> \<not> IsLessBufferPoolThreshold (slice_cap m s)" using assms(4) by (auto simp: NewBuffer_def)
  ultimately show ?thesis using NewBuffer_inv [of m H s "remove1 (arr s) out" F pool ch] assms(3,4) by auto
qed

lemma split_range:
  assumes "buf_inv m H out F" "b \<in> set H" "buffer_split ch n b m = (Ok r, m')"
  shows "0 \<le> n \<and> n \<le> int (len (view (objs m b)))"
proof -
  from assms(1) obtain L where L: "rc m H L out F" by (auto simp: buf_inv_def)
  obtain b' m1 where n1: "newBuffer (pick_obj ch) m = (b', m1)" by fastforce
  note r1 = newBuffer_rc [OF L n1]
  have "objs m1 b = objs m b" using r1(4,5) assms(2) by metis
  with assms(3) show ?thesis by (auto simp: buffer_split_def newBuffer_refs_Add n1 Let_def split: option.splits if_splits)
qed

interpretation mem: invariant_system mem_start mem_step mem_inv
proof
  fix s
  assume "mem_start s"
  then show "mem_inv s" by (simp add: mem_start_def mem_inv_init)
next
  fix x t
  assume "mem_step x t" "mem_inv x"
  then show "mem_inv t"
  proof (cases rule: mem_step.cases)
    case (get pick n m s m' H out F)
    with \<open>mem_inv x\<close> pool_Get_inv [of m H out F pick n] show ?thesis by (auto simp: mem_inv_def)
  next
    case (fill a out i bs m H F)
    with \<open>mem_inv x\<close> show ?thesis by (simp add: mem_inv_def write_buf_inv)
  next
    case (put a out m H F)
    with \<open>mem_inv x\<close> rc_take_out pool_Put_rc show ?thesis unfolding mem_inv_def buf_inv_def by fastforce
  next
    case (new s out m ch pool b m' H F)
    with \<open>mem_inv x\<close> new_inv show ?thesis by (simp add: mem_inv_def)
  next
    case (ref b H m m' out F)
    with \<open>mem_inv x\<close> buffer_Ref_rc show ?thesis unfolding mem_inv_def buf_inv_def by fastforce
  next
    case (free b H m m' out F)
    with \<open>mem_inv x\<close> buffer_Free_rc show ?thesis unfolding mem_inv_def buf_inv_def by fastforce
  next
    case (split b H ch n m b' m' out F)
    with \<open>mem_inv x\<close> split_range [of m H out F b ch n] have "0 \<le> n" "n \<le> int (len (view (objs m b)))" by (auto simp: mem_inv_def)
    with split \<open>mem_inv x\<close> buffer_split_rc [of m H _ out F b n ch] show ?thesis unfolding mem_inv_def buf_inv_def by fastforce
  next
    case (read b H k m bs rest m' out F)
    with \<open>mem_inv x\<close> buffer_read_rc [of m H _ out F b k] show ?thesis unfolding mem_inv_def buf_inv_def by fastforce
  next
    case (copy bs m s m' H out F)
    with \<open>mem_inv x\<close> make_bytes_inv [of m H out F "length bs"] obtain a where
      "s = \<lparr>arr = a, off = 0, len = length bs\<rparr>" "buf_inv m' H out (insert a F)" "heap (arrays m') a = replicate (length bs) 0"
      by (auto simp: mem_inv_def)
    then have "buf_inv (write_bytes a 0 bs m') H out (insert a F)" by (intro write_buf_inv) simp_all
    with copy \<open>s = _\<close> show ?thesis by (simp add: mem_inv_def)
  qed
qed

lemma reach_buf_inv: "reach mem_start mem_step (m, H, out, F) \<Longrightarrow> buf_inv m H out F"
  using mem.reach_inv by (fastforce simp: mem_inv_def)

lemma held_not_pooled:
  assumes "buf_inv m H out F" "b \<in> set H"
  shows "arr (view (objs m b)) \<notin> set (concat (classes (arrays m)))"
proof -
  from assms(1) obtain L where L: "rc m H L out F" by (auto simp: buf_inv_def)
  then have "bp_inv (arrays m, map snd L @ out)" by (simp add: rc_def arrays_ok_def)
  from bp_inv_owned(1) [OF this] rc_arr [OF L assms(2)] show ?thesis by (simp del: set_concat) blast
qed

lemma keeps_read:
  assumes "buf_inv m H out F" "keeps m m' H F" "b \<in> set H"
  shows "ReadOnlyData (buffer_ptr b) m' = ReadOnlyData (buffer_ptr b) m"
  using assms by (simp add: keeps_def ReadOnlyData_def buffer_ReadOnlyData_def slice_bytes_def split: option.split)

section \<open>Sample states\<close>

text \<open>A store with one plain array \<open>[1, 2, 3]\<close>, and one with a buffer of 200 bytes.\<close>

definition sample_plain :: mem where
  "sample_plain = write_bytes 0 0 [1, 2, 3] (snd (make_bytes 3 mem_init))"

definition sample_choice :: choice where
  "sample_choice = \<lparr>pick_arr = 0, pick_obj = 0, pick_cnt = 0\<rparr>"

definition sample_buffer :: mem where
  "sample_buffer = snd (NewBuffer sample_choice \<lparr>arr = 0, off = 0, len = 200\<rparr> True (snd (pool_Get 0 200 mem_init)))"

lemma reach_mem_init: "reach mem_start mem_step (mem_init, [], [], {})"
  by (rule reach_init) (simp add: mem_start_def)

lemma reach_sample_plain: "reach mem_start mem_step (sample_plain, [], [], {0})"
proof -
  have "make_bytes (length [1, 2, 3 :: byte]) mem_init = (\<lparr>arr = 0, off = 0, len = 3\<rparr>, snd (make_bytes 3 mem_init))"
    by (simp add: make_bytes_def alloc_def mem_init_def bufferPool_init_def numeral_3_eq_3)
  from mem_step.copy [OF this, of "[]" "[]" "{}"] show ?thesis
    by (auto simp: sample_plain_def intro: reach_step [OF reach_mem_init])
qed

lemma Get_200: "pool_Get 0 200 mem_init = (Ok \<lparr>arr = 0, off = 0, len = 200\<rparr>, snd (pool_Get 0 200 mem_init))"
  by (simp add: pool_Get_def bufferPool_Get_def findPool_def findBestFitPool_def bufferPoolSizes_def resliced_def class_Get_def
      alloc_def mem_init_def bufferPool_init_def)

lemma reach_sample_buffer: "reach mem_start mem_step (sample_buffer, [0], [], {})"
proof -
  let ?s = "\<lparr>arr = 0, off = 0, len = 200\<rparr>" and ?m = "snd (pool_Get 0 200 mem_init)"
  have r: "reach mem_start mem_step (?m, [], [0], {})"
    using mem_step.get [OF Get_200, of "[]" "[]" "{}"] by (auto intro: reach_step [OF reach_mem_init])
  have "200 \<le> length (heap (arrays ?m) 0)"
    using pool_Get_inv [OF reach_buf_inv [OF reach_mem_init], of 0 200] Get_200 by auto
  then have ok: "slice_ok ?m ?s" by (simp add: slice_ok_def)
  have n: "NewBuffer sample_choice ?s True ?m = (buffer_ptr 0, sample_buffer)"
    by (simp add: sample_buffer_def NewBuffer_def newBuffer_def newRefs_def pool_Get_def bufferPool_Get_def findPool_def findBestFitPool_def
        bufferPoolSizes_def resliced_def class_Get_def alloc_def mem_init_def bufferPool_init_def)
  have "mem_step (?m, [], [0], {}) (sample_buffer, [0], [], {})"
    using mem_step.new [OF _ ok n, of "[0]" "[]" "{}"] by simp
  with r show ?thesis by (rule reach_step)
qed

text \<open>A reader that hands out given chunks, in pieces when the caller asks for less, and then \<open>io.EOF\<close>.\<close>

fun chunk_reader :: "bytes list io_reader" where
  "chunk_reader [] k = ([], Some EOF, [])"
| "chunk_reader (c # cs) k = (if length c \<le> k then (c, None, cs) else (take k c, None, drop k c # cs))"

lemma chunk_reader_delivers: "delivers chunk_reader st (concat st) EOF"
proof (induction "length (concat st) + length st" arbitrary: st rule: less_induct)
  case less
  show ?case
  proof (cases st)
    case Nil
    then show ?thesis by (auto intro: delivers.intros)
  next
    case (Cons c cs)
    have "delivers chunk_reader cs (concat cs) EOF" using less Cons by simp
    moreover have "delivers chunk_reader (drop k c # cs) (drop k c @ concat cs) EOF" if "0 < k" "\<not> length c \<le> k" for k
      using less [of "drop k c # cs"] Cons that by simp
    ultimately have "length p \<le> k \<and> (\<exists>bs'. concat st = p @ bs' \<and> delivers chunk_reader st' bs' EOF)"
      if "0 < k" "chunk_reader st k = (p, None, st')" for k p st'
      using that unfolding Cons by (cases "length c \<le> k") (auto intro!: exI [of _ "drop k c @ concat cs"])
    moreover have "chunk_reader st k \<noteq> (p, Some e, st')" for k p e st' unfolding Cons by simp
    ultimately show ?thesis by (intro delivers.intros) blast+
  qed
qed

section \<open>A reader on bytes\<close>

text \<open>
  What a reader over a buffer slice promises, on plain bytes: \<open>Read\<close> takes the next bytes and \<open>ReadByte\<close> the next
  one, and both say \<open>io.EOF\<close> at the end.
\<close>

datatype reader_call = CallRead nat | CallReadByte

fun reader_run :: "reader_call list \<Rightarrow> sliceReader \<Rightarrow> mem \<Rightarrow> bytes outcome list \<times> sliceReader \<times> mem" where
  "reader_run [] r m = ([], r, m)"
| "reader_run (CallRead k # cs) r m =
     (case sliceReader_Read k r m of (x, r1, m1) \<Rightarrow> (case reader_run cs r1 m1 of (xs, r2, m2) \<Rightarrow> (x # xs, r2, m2)))"
| "reader_run (CallReadByte # cs) r m =
     (case sliceReader_ReadByte r m of (x, r1, m1) \<Rightarrow>
        (case reader_run cs r1 m1 of (xs, r2, m2) \<Rightarrow> ((case x of Ok b \<Rightarrow> Ok [b] | Fail e \<Rightarrow> Fail e | Panic \<Rightarrow> Panic) # xs, r2, m2)))"

fun bytes_run :: "reader_call list \<Rightarrow> bytes \<Rightarrow> bytes outcome list" where
  "bytes_run [] rest = []"
| "bytes_run (CallRead k # cs) rest = (if rest = [] then Fail EOF else Ok (take k rest)) # bytes_run cs (drop k rest)"
| "bytes_run (CallReadByte # cs) rest = (if rest = [] then Fail EOF else Ok [hd rest]) # bytes_run cs (drop 1 rest)"

lemma reader_run_reading:
  "reading m H out F r rest \<Longrightarrow> \<exists>r' m' rest'. reader_run cs r m = (bytes_run cs rest, r', m') \<and> reading m' H out F r' rest' \<and> same m m' H"
proof (induction cs arbitrary: r m rest)
  case Nil
  then show ?case by auto
next
  case (Cons c cs)
  show ?case
  proof (cases c)
    case (CallRead k)
    from Read_reading [OF Cons.prems, of k] obtain r1 m1 where
      s: "sliceReader_Read k r m = (if rest = [] then Fail EOF else Ok (take k rest), r1, m1)" "reading m1 H out F r1 (drop k rest)" "same m m1 H"
      by blast
    from Cons.IH [OF s(2)] obtain r' m' rest' where "reader_run cs r1 m1 = (bytes_run cs (drop k rest), r', m')" "reading m' H out F r' rest'"
      "same m1 m' H" by blast
    with CallRead s(1) same_trans [OF s(3)] show ?thesis by (intro exI [of _ r'] exI [of _ m'] exI [of _ rest']) simp
  next
    case CallReadByte
    from ReadByte_reading [OF Cons.prems] obtain r1 m1 where
      s: "sliceReader_ReadByte r m = (if rest = [] then Fail EOF else Ok (hd rest), r1, m1)" "reading m1 H out F r1 (drop 1 rest)" "same m m1 H"
      by blast
    from Cons.IH [OF s(2)] obtain r' m' rest' where "reader_run cs r1 m1 = (bytes_run cs (drop 1 rest), r', m')" "reading m' H out F r' rest'"
      "same m1 m' H" by blast
    with CallReadByte s(1) same_trans [OF s(3)] show ?thesis by (intro exI [of _ r'] exI [of _ m'] exI [of _ rest']) simp
  qed
qed

section \<open>Properties\<close>

text \<open>
  \<^bold>\<open>C17\<close>. Reference counting is safe: in every interleaving, a buffer whose reference somebody holds can
  be read, referenced and freed without panic; its array is not in the pool, so that no \<open>Get\<close>
  hands it out; and neither a \<open>Get\<close> nor the \<open>Free\<close> of another reference changes what it shows.
\<close>

theorem refcount_safe:
  assumes "reach mem_start mem_step (m, H, out, F)" "b \<in> set H"
  shows "\<exists>bs. ReadOnlyData (buffer_ptr b) m = Ok bs
    \<and> (\<exists>m'. Ref (buffer_ptr b) m = (Ok (), m'))
    \<and> (\<exists>m'. Free (buffer_ptr b) m = (Ok (), m') \<and> (\<forall>b' \<in> set (remove1 b H). ReadOnlyData (buffer_ptr b') m' = ReadOnlyData (buffer_ptr b') m))
    \<and> arr (view (objs m b)) \<notin> set (concat (classes (arrays m)))
    \<and> (\<exists>a m'. pool_Get pick n m = (Ok \<lparr>arr = a, off = 0, len = n\<rparr>, m') \<and> a \<noteq> arr (view (objs m b)) \<and> ReadOnlyData (buffer_ptr b) m' = Ok bs)"
proof -
  note inv = reach_buf_inv [OF assms(1)]
  have "buf_inv m (objs_of [buffer_ptr b] @ remove1 b H) out F" by (rule buf_inv_perm [OF inv]) (use assms(2) in simp)
  from Free_ok [OF this] obtain m1 where f: "Free (buffer_ptr b) m = (Ok (), m1)" "same m m1 (remove1 b H)" by blast
  then have "\<forall>b' \<in> set (remove1 b H). ReadOnlyData (buffer_ptr b') m1 = ReadOnlyData (buffer_ptr b') m"
    by (simp add: same_def ReadOnlyData_def buffer_ReadOnlyData_def slice_bytes_def split: option.split)
  moreover from pool_Get_inv [OF inv, of pick n] obtain a m2 where g: "pool_Get pick n m = (Ok \<lparr>arr = a, off = 0, len = n\<rparr>, m2)"
    "buf_inv m2 H (a # out) F" "keeps m m2 H F" by blast
  moreover have "a \<noteq> arr (view (objs m b))" using buf_inv_avoids [OF g(2)] g(3) assms(2) by (auto simp: avoids_def keeps_def)
  moreover have "ReadOnlyData (buffer_ptr b) m = Ok (data m (buffer_ptr b))" by (rule ReadOnlyData_ok(1) [OF inv]) (use assms(2) in simp_all)
  moreover have "\<exists>m'. Ref (buffer_ptr b) m = (Ok (), m')" using Ref_ok [OF inv, of "buffer_ptr b"] assms(2) by auto
  ultimately show ?thesis using f(1) keeps_read [OF inv g(3) assms(2)] held_not_pooled [OF inv assms(2)] by auto
qed

theorem refcount_safe_witness:
  "\<exists>bs. ReadOnlyData (buffer_ptr 0) sample_buffer = Ok bs \<and> fst (Free (buffer_ptr 0) sample_buffer) = Ok ()"
  using refcount_safe [OF reach_sample_buffer, of 0 0 0] by auto

text \<open>
  \<^bold>\<open>C18\<close>. A reader over a buffer slice behaves like a reader on the concatenated bytes: any sequence of
  \<open>Read\<close> and \<open>ReadByte\<close> calls returns exactly what it would return there, whatever the sizes of the buffers,
  empty ones included. \<open>Close\<close> gives the references back, and a later \<open>Read\<close> says \<open>io.EOF\<close>.
\<close>

theorem slice_reader_refines:
  assumes "reach mem_start mem_step (m, H, out, F)" "set (objs_of s) \<subseteq> set H" "slices_ok m F s"
  shows "\<exists>r m1 r' m2 r'' m3. NewReader s m = (Ok r, m1) \<and> sliceReader_Remain r = int (length (contents m s))
    \<and> reader_run cs r m1 = (bytes_run cs (contents m s), r', m2)
    \<and> sliceReader_Close r' m2 = (Ok (), r'', m3) \<and> mem_inv (m3, H, out, F) \<and> contents m3 s = contents m s
    \<and> sliceReader_Read k r'' m3 = (Fail EOF, r'', m3)"
proof -
  from NewReader_reading [OF reach_buf_inv [OF assms(1)] assms(2,3)] obtain r m1 where
    n: "NewReader s m = (Ok r, m1)" "reading m1 H out F r (contents m s)" "same m m1 H" by blast
  from reader_run_reading [OF n(2), of cs] obtain r' m2 rest' where
    u: "reader_run cs r m1 = (bytes_run cs (contents m s), r', m2)" "reading m2 H out F r' rest'" "same m1 m2 H" by blast
  from Close_reading [OF u(2)] obtain r'' m3 where
    c: "sliceReader_Close r' m2 = (Ok (), r'', m3)" "reading m3 H out F r'' []" "same m2 m3 H" by blast
  have e: "rdata r'' = []" "rlen r'' = 0" using c(1) by (auto simp: sliceReader_Close_def split: prod.splits outcome.splits)
  then have "mem_inv (m3, H, out, F)" using c(2) by (simp add: reading_def mem_inv_def)
  moreover have "contents m3 s = contents m s"
    using same_contents [OF _ assms(2)] n(3) u(3) c(3) by metis
  moreover have "sliceReader_Remain r = int (length (contents m s))" using n(2) by (simp add: reading_def sliceReader_Remain_def)
  ultimately show ?thesis using n(1) u(1) c(1) e(2) by (simp add: sliceReader_Read_def)
qed

theorem slice_reader_refines_witness:
  "\<exists>r m1 r' m2. NewReader [SliceBuffer \<lparr>arr = 0, off = 0, len = 2\<rparr>, emptyBuffer, SliceBuffer \<lparr>arr = 0, off = 1, len = 2\<rparr>] sample_plain = (Ok r, m1)
    \<and> reader_run [CallRead 1, CallRead 2, CallReadByte, CallReadByte] r m1 = ([Ok [1], Ok [2, 2], Ok [3], Fail EOF], r', m2)"
proof -
  let ?s = "[SliceBuffer \<lparr>arr = 0, off = 0, len = 2\<rparr>, emptyBuffer, SliceBuffer \<lparr>arr = 0, off = 1, len = 2\<rparr>]"
  have h: "heap (arrays sample_plain) 0 = [1, 2, 3]"
    by (simp add: sample_plain_def make_bytes_def alloc_def mem_init_def bufferPool_init_def)
  have c: "contents sample_plain ?s = [1, 2, 2, 3]" by (simp add: data_def slice_bytes_def h)
  have "set (objs_of ?s) \<subseteq> set []" "slices_ok sample_plain {0} ?s" by (simp_all add: slice_ok_def h)
  note * = slice_reader_refines [OF reach_sample_plain this, of "[CallRead 1, CallRead 2, CallReadByte, CallReadByte]" 0, unfolded c]
  have "bytes_run [CallRead 1, CallRead 2, CallReadByte, CallReadByte] [1, 2, 2, 3] = [Ok [1], Ok [2, 2], Ok [3], Fail EOF]" by simp
  with * show ?thesis by metis
qed

text \<open>
  \<^bold>\<open>C19\<close>. \<open>MaterializeToBuffer\<close> on the store gives a buffer with the bytes that the operation of the same name
  on contents gives, which is what the payload codec decodes. The result is a reference of its own, and the
  slice is as before.
\<close>

theorem MaterializeToBuffer_refines:
  assumes "reach mem_start mem_step (m, H, out, F)" "set (objs_of s) \<subseteq> set H" "slices_ok m F s" "sized bufs"
  shows "\<exists>b m'. BufferSlice_MaterializeToBuffer ch s m = (Ok b, m') \<and> ReadOnlyData b m' = Ok (MaterializeToBuffer bufs (map (data m) s))
    \<and> mem_inv (m', objs_of [b] @ H, out, F) \<and> contents m' s = contents m s"
proof -
  from MaterializeToBuffer_ok [OF reach_buf_inv [OF assms(1)] assms(2,3), of ch] obtain b m' where
    b: "BufferSlice_MaterializeToBuffer ch s m = (Ok b, m')" "data m' b = contents m s" "buf_inv m' (objs_of [b] @ H) out F"
    "slices_ok m' F [b]" "keeps m m' H F" by blast
  have "ReadOnlyData b m' = Ok (contents m s)" using ReadOnlyData_ok(1) [OF b(3) _ b(4)] b(2) by simp
  with b keeps_contents [OF b(5) assms(2,3)] MaterializeToBuffer_concat [OF assms(4), of "map (data m) s"] show ?thesis
    by (simp add: mem_inv_def contents_def)
qed

theorem MaterializeToBuffer_refines_witness:
  "\<exists>b m'. BufferSlice_MaterializeToBuffer sample_choice [SliceBuffer \<lparr>arr = 0, off = 0, len = 2\<rparr>, SliceBuffer \<lparr>arr = 0, off = 1, len = 2\<rparr>] sample_plain = (Ok b, m')
    \<and> ReadOnlyData b m' = Ok [1, 2, 2, 3]"
proof -
  let ?s = "[SliceBuffer \<lparr>arr = 0, off = 0, len = 2\<rparr>, SliceBuffer \<lparr>arr = 0, off = 1, len = 2\<rparr>]" and ?bufs = "\<lambda>n. replicate n (0 :: byte)"
  have h: "heap (arrays sample_plain) 0 = [1, 2, 3]"
    by (simp add: sample_plain_def make_bytes_def alloc_def mem_init_def bufferPool_init_def)
  have bufs: "sized ?bufs" by (simp add: sized_def)
  have c: "map (data sample_plain) ?s = [[1, 2], [2, 3]]" by (simp add: data_def slice_bytes_def h)
  have "set (objs_of ?s) \<subseteq> set []" "slices_ok sample_plain {0} ?s" by (simp_all add: slice_ok_def h)
  note * = MaterializeToBuffer_refines [OF reach_sample_plain this bufs, of sample_choice, unfolded c]
  have "MaterializeToBuffer ?bufs [[1, 2], [2, 3]] = [1, 2, 2, 3]" unfolding MaterializeToBuffer_concat [OF bufs] by simp
  with * show ?thesis by metis
qed

text \<open>
  \<^bold>\<open>C20\<close>. \<open>ReadAll\<close> returns for every reader that ends, and its buffers hold exactly the bytes that the reader
  delivered, however the reader cuts them. \<open>io.EOF\<close> is no error, any other error is passed on, and
  buffers in use are left alone.
\<close>

theorem ReadAll_delivers:
  assumes "reach mem_start mem_step (m, H, out, F)" "delivers rd st bs e"
  shows "\<exists>result m'. ReadAll None rd ch st m = Some (Ok (result, if e = EOF then None else Some e), m') \<and> contents m' result = bs
    \<and> mem_inv (m', objs_of result @ H, out, F) \<and> (\<forall>b \<in> set H. ReadOnlyData (buffer_ptr b) m' = ReadOnlyData (buffer_ptr b) m)"
proof -
  note inv = reach_buf_inv [OF assms(1)]
  from next_buffer_filling [of m "[]" H out F "ch 0"] inv obtain buf m1 where
    n: "next_buffer (ch 0) m = (Ok buf, m1)" "filling m1 H out F buf 0 [] []" "keeps m m1 H F" by auto
  from ReadAll_loop_ok [OF assms(2) n(2), of ch] obtain result m' where
    l: "ReadAll_loop rd ch buf 0 [] st m1 = Some (Ok (result, eof_is_nil e), m')" "contents m' result = bs"
    "buf_inv m' (objs_of result @ H) out F" "keeps m1 m' H F" by auto
  have "keeps m m' H F" by (rule keeps_trans [OF n(3) l(4)])
  then have "\<forall>b \<in> set H. ReadOnlyData (buffer_ptr b) m' = ReadOnlyData (buffer_ptr b) m" using keeps_read [OF inv] by blast
  with n(1) l show ?thesis by (simp add: ReadAll_def eof_is_nil_def mem_inv_def)
qed

theorem ReadAll_delivers_witness:
  "\<exists>result m'. ReadAll None chunk_reader (\<lambda>_. sample_choice) [[1, 2], [], [3]] sample_buffer = Some (Ok (result, None), m') \<and> contents m' result = [1, 2, 3]"
  using ReadAll_delivers [OF reach_sample_buffer chunk_reader_delivers, of "\<lambda>_. sample_choice" "[[1, 2], [], [3]]"] by auto

text \<open>\<open>ReadAll\<close> from an \<open>io.WriterTo\<close> returns one buffer per chunk that is written.\<close>

lemma ReadAll_WriterTo:
  assumes "reach mem_start mem_step (m, H, out, F)"
  shows "\<exists>result m' F'. ReadAll (Some (chunks, err)) rd ch st m = Some (Ok (result, err), m') \<and> map (data m') result = chunks
    \<and> mem_inv (m', objs_of result @ H, out, F')"
proof -
  from write_all_ok [of m "[]" H out F ch chunks] reach_buf_inv [OF assms] obtain result m' F' where
    "write_all ch chunks [] m = (Ok result, m')" "map (data m') result = chunks" "buf_inv m' (objs_of result @ H) out F'" by auto
  then show ?thesis by (auto simp: ReadAll_def mem_inv_def)
qed

end
