(* ===== verification/Tracing.thy ===== *)
theory Tracing
  imports Client_Props
begin

text \<open>
  The OpenTelemetry handlers (\<^verbatim>\<open>contrib/tracing\<close>): configuration and filters, the carrier that puts the trace
  context into request metadata, and the client and server handlers.

  OpenTelemetry itself is a parameter. What the handlers ask of it is the list \<open>calls\<close> of an RPC: spans
  started, measurements recorded, span events, status and end. \<open>recording\<close> tells from the calls made so
  far what \<open>IsRecording\<close> of the span answers; \<open>span_ok\<close> is what is documented of it: a span that has
  ended does not record. A propagator is given by the \<open>Set\<close> calls its \<open>Inject\<close> makes on a carrier, and by
  its \<open>Extract\<close> as a function of what the carrier's \<open>Get\<close> and \<open>Keys\<close> return. Durations are in nanoseconds; the
  handlers divide them by a million as floating point numbers.
\<close>

section \<open>Configuration\<close>

text \<open>The values of a context that the package uses, beyond the metadata: whether the current span records.\<close>

datatype attr = RPCService string | RPCMethod string | RPCSystem string

record zrpcContext =
  inMessages :: int
  outMessages :: int
  metricAttrs :: "attr list"
  zrecord :: bool

record tctx = Context +
  span_recording :: bool
  zrpc_ctx :: "zrpcContext option"

record RPCTagInfo =
  FullMethodName :: string
  FailFast :: bool

type_synonym Filter = "tctx \<Rightarrow> RPCTagInfo \<Rightarrow> bool"

record propagator =
  Inject :: "tctx \<Rightarrow> (string \<times> string) list"
  Extract :: "tctx \<Rightarrow> (string \<Rightarrow> string) \<Rightarrow> string list \<Rightarrow> tctx"

record ('tp, 'mp) config =
  cfg_Filter :: "Filter option"
  Propagators :: propagator
  TracerProvider :: 'tp
  MeterProvider :: 'mp
  ReceivedEvent :: bool
  SentEvent :: bool

definition AcceptAll :: Filter where
  "AcceptAll = (\<lambda>_ _. True)"

definition RejectAll :: Filter where
  "RejectAll = (\<lambda>_ _. False)"

definition MethodFilter :: "string list \<Rightarrow> Filter" where
  "MethodFilter methods =
     (let methodSet = fold (\<lambda>m s. insert m s) methods {} in (\<lambda>_ info. FullMethodName info \<in> methodSet))"

fun MethodPrefixFilter :: "string list \<Rightarrow> Filter" where
  "MethodPrefixFilter [] cx info = False"
| "MethodPrefixFilter (p # ps) cx info = (if HasPrefix (FullMethodName info) p then True else MethodPrefixFilter ps cx info)"

definition HealthCheckFilter :: Filter where
  "HealthCheckFilter = (\<lambda>_ info. \<not> HasPrefix (FullMethodName info) ''/grpc.health.v1.Health/'')"

fun Any_filter :: "Filter list \<Rightarrow> Filter" where
  "Any_filter [] cx info = False"
| "Any_filter (f # fs) cx info = (if f cx info then True else Any_filter fs cx info)"

fun All_filter :: "Filter list \<Rightarrow> Filter" where
  "All_filter [] cx info = True"
| "All_filter (f # fs) cx info = (if \<not> f cx info then False else All_filter fs cx info)"

definition Not_filter :: "Filter \<Rightarrow> Filter" where
  "Not_filter f = (\<lambda>cx info. \<not> f cx info)"

definition GinClientFilter :: Filter where
  "GinClientFilter = (\<lambda>cx _. if \<not> span_recording cx then True else False)"

definition isHTTPSpan :: "tctx \<Rightarrow> bool" where
  "isHTTPSpan cx = False"

definition HTTPAwareFilter :: Filter where
  "HTTPAwareFilter = (\<lambda>cx _. if \<not> span_recording cx then True else \<not> isHTTPSpan cx)"

type_synonym ('tp, 'mp) Option = "('tp, 'mp) config \<Rightarrow> ('tp, 'mp) config"

definition WithPropagators :: "propagator option \<Rightarrow> ('tp, 'mp) Option" where
  "WithPropagators p c = (case p of None \<Rightarrow> c | Some p \<Rightarrow> c\<lparr>Propagators := p\<rparr>)"

definition WithTracerProvider :: "'tp option \<Rightarrow> ('tp, 'mp) Option" where
  "WithTracerProvider tp c = (case tp of None \<Rightarrow> c | Some tp \<Rightarrow> c\<lparr>TracerProvider := tp\<rparr>)"

definition WithMeterProvider :: "'mp option \<Rightarrow> ('tp, 'mp) Option" where
  "WithMeterProvider mp c = (case mp of None \<Rightarrow> c | Some mp \<Rightarrow> c\<lparr>MeterProvider := mp\<rparr>)"

definition WithFilter :: "Filter option \<Rightarrow> ('tp, 'mp) Option" where
  "WithFilter f c = c\<lparr>cfg_Filter := f\<rparr>"

definition WithMessageEvents :: "bool \<Rightarrow> ('tp, 'mp) Option" where
  "WithMessageEvents events c = c\<lparr>ReceivedEvent := events, SentEvent := events\<rparr>"

definition WithReceivedMessageEvents :: "bool \<Rightarrow> ('tp, 'mp) Option" where
  "WithReceivedMessageEvents events c = c\<lparr>ReceivedEvent := events\<rparr>"

definition WithSentMessageEvents :: "bool \<Rightarrow> ('tp, 'mp) Option" where
  "WithSentMessageEvents events c = c\<lparr>SentEvent := events\<rparr>"

text \<open>The first three arguments are the global propagator and providers of OpenTelemetry.\<close>

definition newConfig :: "propagator \<Rightarrow> 'tp \<Rightarrow> 'mp \<Rightarrow> ('tp, 'mp) Option list \<Rightarrow> ('tp, 'mp) config" where
  "newConfig p tp mp opts =
     (let c = \<lparr>cfg_Filter = None, Propagators = p, TracerProvider = tp, MeterProvider = mp, ReceivedEvent = True, SentEvent = True\<rparr>;
          c = fold (\<lambda>f c. f c) opts c in
      case cfg_Filter c of None \<Rightarrow> c\<lparr>cfg_Filter := Some AcceptAll\<rparr> | Some _ \<Rightarrow> c)"

section \<open>The carrier\<close>

definition MetadataSupplier_Get :: "MD \<Rightarrow> string \<Rightarrow> string" where
  "MetadataSupplier_Get md key = (let vs = MD_Get md key in if length vs = 0 then [] else vs ! 0)"

definition MetadataSupplier_Set :: "MD \<Rightarrow> string \<Rightarrow> string \<Rightarrow> MD" where
  "MetadataSupplier_Set md key value = MD_Set md key [value]"

definition MetadataSupplier_Keys :: "MD \<Rightarrow> string list" where
  "MetadataSupplier_Keys md = map fst md"

definition inject_md :: "propagator \<Rightarrow> tctx \<Rightarrow> tctx outcome" where
  "inject_md p cx =
     (case FromOutgoingContext cx of
        Ok o1 \<Rightarrow>
          (let md = (case o1 of Some md \<Rightarrow> md | None \<Rightarrow> []);
               md = fold (\<lambda>(k, v) md. MetadataSupplier_Set md k v) (Inject p cx) md in
           Ok (NewOutgoingContext cx md))
      | Fail e \<Rightarrow> Fail e
      | Panic \<Rightarrow> Panic)"

definition extract_md :: "propagator \<Rightarrow> tctx \<Rightarrow> tctx" where
  "extract_md p cx =
     (let md = (case FromInComingContext cx of Some md \<Rightarrow> md | None \<Rightarrow> []) in
      Extract p cx (MetadataSupplier_Get md) (MetadataSupplier_Keys md))"

section \<open>The handlers\<close>

datatype span_kind = SpanKindServer | SpanKindClient

datatype otel_call =
    StartSpan string span_kind "attr list"
  | RecordInt string int "attr list"
  | RecordDuration string int "attr list"
  | AddMessageEvent bool int int
  | RecordError goerr
  | SetStatusError string
  | SetStatusOk
  | EndSpan

definition span_ok :: "(otel_call list \<Rightarrow> bool) \<Rightarrow> bool" where
  "span_ok recording \<longleftrightarrow> (\<forall>h. EndSpan \<in> set h \<longrightarrow> \<not> recording h)"

definition ScopeName :: string where
  "ScopeName = ''go.opentelemetry.io/contrib/instrumentation/github.com/crazyfrankie/zrpc''"

definition tracing_Version :: string where
  "tracing_Version = ''0.1.0''"

text \<open>
  The histograms a handler asks the meter for, by name and unit. An error of the meter goes to \<open>otel.Handle\<close>, and the
  handler is returned all the same: the result is the configuration with the errors.
\<close>

definition server_histograms :: "(string \<times> string) list" where
  "server_histograms = [(''rpc.server.duration'', ''ms''), (''rpc.server.request.size'', ''By''), (''rpc.server.response.size'', ''By''),
     (''rpc.server.requests_per_rpc'', ''{count}''), (''rpc.server.responses_per_rpc'', ''{count}'')]"

definition client_histograms :: "(string \<times> string) list" where
  "client_histograms = [(''rpc.client.duration'', ''ms''), (''rpc.client.response.size'', ''By''), (''rpc.client.request.size'', ''By''),
     (''rpc.client.responses_per_rpc'', ''{count}''), (''rpc.client.requests_per_rpc'', ''{count}'')]"

definition create_histograms :: "('mp \<Rightarrow> string \<Rightarrow> string \<Rightarrow> goerr option) \<Rightarrow> 'mp \<Rightarrow> (string \<times> string) list \<Rightarrow> goerr list" where
  "create_histograms meter mp hs = concat (map (\<lambda>(n, u). case meter mp n u of Some e \<Rightarrow> [e] | None \<Rightarrow> []) hs)"

definition NewServerHandler ::
  "('mp \<Rightarrow> string \<Rightarrow> string \<Rightarrow> goerr option) \<Rightarrow> propagator \<Rightarrow> 'tp \<Rightarrow> 'mp \<Rightarrow> ('tp, 'mp) Option list \<Rightarrow> ('tp, 'mp) config \<times> goerr list" where
  "NewServerHandler meter p tp mp opts =
     (let c = newConfig p tp mp opts in (c, create_histograms meter (MeterProvider c) server_histograms))"

definition NewClientHandler ::
  "('mp \<Rightarrow> string \<Rightarrow> string \<Rightarrow> goerr option) \<Rightarrow> propagator \<Rightarrow> 'tp \<Rightarrow> 'mp \<Rightarrow> ('tp, 'mp) Option list \<Rightarrow> ('tp, 'mp) config \<times> goerr list" where
  "NewClientHandler meter p tp mp opts =
     (let c = newConfig p tp mp opts in (c, create_histograms meter (MeterProvider c) client_histograms))"

definition parseFullMethod :: "string \<Rightarrow> string \<times> attr list" where
  "parseFullMethod fullMethod =
     (let name = (if fullMethod \<noteq> [] \<and> fullMethod ! 0 = CHR ''/'' then drop 1 fullMethod else fullMethod) in
      case LastIndex name (CHR ''/'') of
        Some pos \<Rightarrow> (name, [RPCService (take pos name), RPCMethod (drop (pos + 1) name)])
      | None \<Rightarrow> (name, []))"

text \<open>
  \<open>start\<close> is the tracer: the context it returns for a started span. A handler's \<open>TagRPC\<close> returns the new context
  with the calls it made.
\<close>

definition tag_common ::
  "('tp, 'mp) config \<Rightarrow> span_kind \<Rightarrow> (string \<Rightarrow> tctx \<Rightarrow> tctx) \<Rightarrow> RPCTagInfo \<Rightarrow> tctx \<Rightarrow> tctx \<times> otel_call list" where
  "tag_common h kind start info cx =
     (let (name, attrs) = parseFullMethod (FullMethodName info);
          attrs = attrs @ [RPCSystem ''zrpc''];
          rec1 = (case cfg_Filter h of Some f \<Rightarrow> f cx info | None \<Rightarrow> True);
          (cx, cs) = (if rec1 then (start name cx, [StartSpan name kind attrs]) else (cx, []));
          gctx = \<lparr>inMessages = 0, outMessages = 0, metricAttrs = attrs, zrecord = rec1\<rparr> in
      (cx\<lparr>zrpc_ctx := Some gctx\<rparr>, cs))"

definition serverHandler_TagRPC ::
  "('tp, 'mp) config \<Rightarrow> (string \<Rightarrow> tctx \<Rightarrow> tctx) \<Rightarrow> RPCTagInfo \<Rightarrow> tctx \<Rightarrow> tctx \<times> otel_call list" where
  "serverHandler_TagRPC h start info cx = tag_common h SpanKindServer start info (extract_md (Propagators h) cx)"

definition clientHandler_TagRPC ::
  "('tp, 'mp) config \<Rightarrow> (string \<Rightarrow> tctx \<Rightarrow> tctx) \<Rightarrow> RPCTagInfo \<Rightarrow> tctx \<Rightarrow> tctx outcome \<times> otel_call list" where
  "clientHandler_TagRPC h start info cx =
     (case tag_common h SpanKindClient start info cx of (cx, cs) \<Rightarrow> (inject_md (Propagators h) cx, cs))"

text \<open>The state of one RPC: its \<open>zrpcContext\<close>, which the events share, and the calls made so far.\<close>

record rpc_trace =
  gctx :: "zrpcContext option"
  calls :: "otel_call list"

definition otel_emit :: "otel_call list \<Rightarrow> rpc_trace \<Rightarrow> rpc_trace" where
  "otel_emit cs s = s\<lparr>calls := calls s @ cs\<rparr>"

definition in_message :: "('tp, 'mp) config \<Rightarrow> (otel_call list \<Rightarrow> bool) \<Rightarrow> string \<Rightarrow> int \<Rightarrow> rpc_trace \<Rightarrow> rpc_trace" where
  "in_message h recording hist n s =
     (let (messageId, s) = (case gctx s of
            Some g \<Rightarrow> (inMessages g + 1, otel_emit [RecordInt hist n (metricAttrs g)] (s\<lparr>gctx := Some (g\<lparr>inMessages := inMessages g + 1\<rparr>)\<rparr>))
          | None \<Rightarrow> (0, s)) in
      if ReceivedEvent h \<and> recording (calls s) then otel_emit [AddMessageEvent True messageId n] s else s)"

definition out_message :: "('tp, 'mp) config \<Rightarrow> (otel_call list \<Rightarrow> bool) \<Rightarrow> string \<Rightarrow> int \<Rightarrow> rpc_trace \<Rightarrow> rpc_trace" where
  "out_message h recording hist n s =
     (let (messageId, s) = (case gctx s of
            Some g \<Rightarrow> (outMessages g + 1, otel_emit [RecordInt hist n (metricAttrs g)] (s\<lparr>gctx := Some (g\<lparr>outMessages := outMessages g + 1\<rparr>)\<rparr>))
          | None \<Rightarrow> (0, s)) in
      if SentEvent h \<and> recording (calls s) then otel_emit [AddMessageEvent False messageId n] s else s)"

definition rpc_end ::
  "(otel_call list \<Rightarrow> bool) \<Rightarrow> string \<Rightarrow> string \<Rightarrow> string \<Rightarrow> int \<Rightarrow> goerr option \<Rightarrow> rpc_trace \<Rightarrow> rpc_trace" where
  "rpc_end recording inMsg outMsg dur elapsed err s =
     (let s = (case gctx s of
            Some g \<Rightarrow> otel_emit [RecordInt inMsg (inMessages g) (metricAttrs g), RecordInt outMsg (outMessages g) (metricAttrs g),
                         RecordDuration dur elapsed (metricAttrs g)] s
          | None \<Rightarrow> s);
          s = (if recording (calls s) then
                 (case err of
                    Some e \<Rightarrow> otel_emit [RecordError e, SetStatusError (Error_text e)] s
                  | None \<Rightarrow> otel_emit [SetStatusOk] s)
               else s) in
      otel_emit [EndSpan] s)"

definition ignored :: "rpc_trace \<Rightarrow> bool" where
  "ignored s \<longleftrightarrow> (case gctx s of Some g \<Rightarrow> \<not> zrecord g | None \<Rightarrow> False)"

definition serverHandler_HandleRPC ::
  "('tp, 'mp) config \<Rightarrow> (otel_call list \<Rightarrow> bool) \<Rightarrow> int \<Rightarrow> 'v rpc_event \<Rightarrow> rpc_trace \<Rightarrow> rpc_trace" where
  "serverHandler_HandleRPC h recording elapsed e s =
     (if ignored s then s
      else case e of
        InPayload _ _ n _ _ \<Rightarrow> in_message h recording ''rpc.server.request.size'' (int n) s
      | OutPayload _ _ n _ _ \<Rightarrow> out_message h recording ''rpc.server.response.size'' (int n) s
      | End err \<Rightarrow> rpc_end recording ''rpc.server.requests_per_rpc'' ''rpc.server.responses_per_rpc'' ''rpc.server.duration'' elapsed err s
      | _ \<Rightarrow> s)"

definition clientHandler_HandleRPC ::
  "('tp, 'mp) config \<Rightarrow> (otel_call list \<Rightarrow> bool) \<Rightarrow> int \<Rightarrow> 'v rpc_event \<Rightarrow> rpc_trace \<Rightarrow> rpc_trace" where
  "clientHandler_HandleRPC h recording elapsed e s =
     (if ignored s then s
      else case e of
        OutPayload _ _ n _ _ \<Rightarrow> out_message h recording ''rpc.client.request.size'' (int n) s
      | InPayload _ _ n _ _ \<Rightarrow> in_message h recording ''rpc.client.response.size'' (int n) s
      | End err \<Rightarrow> rpc_end recording ''rpc.client.responses_per_rpc'' ''rpc.client.requests_per_rpc'' ''rpc.client.duration'' elapsed err s
      | _ \<Rightarrow> s)"

section \<open>Filters and names\<close>

lemma Any_iff: "Any_filter fs cx info \<longleftrightarrow> (\<exists>f \<in> set fs. f cx info)"
  by (induction fs) auto

lemma All_iff: "All_filter fs cx info \<longleftrightarrow> (\<forall>f \<in> set fs. f cx info)"
  by (induction fs) auto

lemma Not_Any: "Not_filter (Any_filter fs) = All_filter (map Not_filter fs)"
  by (intro ext) (simp add: Not_filter_def Any_iff All_iff)

lemma MethodFilter_iff: "MethodFilter methods cx info \<longleftrightarrow> FullMethodName info \<in> set methods"
proof -
  have "fold insert methods S = S \<union> set methods" for S by (induction methods arbitrary: S) auto
  then show ?thesis by (simp add: MethodFilter_def)
qed

lemma MethodPrefixFilter_iff:
  "MethodPrefixFilter prefixes cx info \<longleftrightarrow> (\<exists>p \<in> set prefixes. \<exists>rest. FullMethodName info = p @ rest)"
proof -
  have "HasPrefix s p \<longleftrightarrow> (\<exists>rest. s = p @ rest)" for s p
    unfolding HasPrefix_def by (metis append_eq_conv_conj append_take_drop_id length_append le_add1)
  then show ?thesis by (induction prefixes) auto
qed

text \<open>The filter that is to skip calls inside an HTTP span accepts every call.\<close>

lemma HTTPAwareFilter_accepts: "HTTPAwareFilter = AcceptAll"
  by (intro ext) (simp add: HTTPAwareFilter_def AcceptAll_def isHTTPSpan_def)

text \<open>The attributes of a span name the service and the method that the client calls.\<close>

lemma parseFullMethod_newCall:
  assumes "newCall method args = Inr call"
  shows "parseFullMethod (full_method method) = (Call_ServiceName call @ ''/'' @ Call_ServiceMethod call,
    [RPCService (Call_ServiceName call), RPCMethod (Call_ServiceMethod call)])"
proof -
  define name where "name = (if method \<noteq> [] \<and> method ! 0 = CHR ''/'' then drop 1 method else method)"
  from assms obtain pos where p: "LastIndex name (CHR ''/'') = Some pos"
    "Call_ServiceName call = take pos name" "Call_ServiceMethod call = drop (pos + 1) name"
    by (auto simp: newCall_def name_def Let_def split: option.splits)
  have "HasPrefix s ''/'' \<longleftrightarrow> s \<noteq> [] \<and> s ! 0 = CHR ''/''" for s by (cases s) (auto simp: HasPrefix_def)
  then have "(if full_method method \<noteq> [] \<and> full_method method ! 0 = CHR ''/'' then drop 1 (full_method method) else full_method method) = name"
    by (auto simp: full_method_def name_def)
  moreover have "name = take pos name @ ''/'' @ drop (pos + 1) name"
    using p(1) id_take_nth_drop [of pos name] by (simp add: LastIndex_Some)
  ultimately show ?thesis using p by (simp add: parseFullMethod_def Let_def)
qed

section \<open>Trace context across the wire\<close>

text \<open>The value that the \<open>Set\<close> calls leave under a key, in any letter case.\<close>

definition injected :: "(string \<times> string) list \<Rightarrow> string \<Rightarrow> string option" where
  "injected kvs k = map_of (rev (map (\<lambda>(k, v). (ToLower k, v)) kvs)) (ToLower k)"

lemma supplier_sets:
  "MD_Get (fold (\<lambda>(k, v) md. MetadataSupplier_Set md k v) kvs md) k = (case injected kvs k of Some v \<Rightarrow> [v] | None \<Rightarrow> MD_Get md k)"
proof (induction kvs rule: rev_induct)
  case Nil
  then show ?case by (simp add: injected_def)
next
  case (snoc kv kvs)
  then show ?case by (cases kv) (simp add: injected_def MetadataSupplier_Set_def MD_Set_def MD_Get_def)
qed

lemma md_lower_supplier_sets: "md_lower md \<Longrightarrow> md_lower (fold (\<lambda>(k, v) md. MetadataSupplier_Set md k v) kvs md)"
  by (induction kvs arbitrary: md) (auto simp: MetadataSupplier_Set_def)

lemma md_lower_added_loop: "added_loop a out = Ok out' \<Longrightarrow> md_lower out \<Longrightarrow> md_lower out'"
  by (induction a out rule: added_loop.induct) (auto simp: md_lower_Pairs_loop split: if_splits)

lemma md_lower_FromOutgoing: "FromOutgoingContext cx = Ok (Some md) \<Longrightarrow> md_lower md"
  by (auto simp: FromOutgoingContext_def md_lower_lower_copy dest!: md_lower_added_loop split: option.splits outcome.splits)

lemma inject_md_sets:
  assumes "inject_md p cx = Ok cx'" "injected (Inject p cx) k = Some v"
  shows "\<exists>md. out_md cx' = Some \<lparr>raw_md = md, added = []\<rparr> \<and> md_lower md \<and> MD_Get md k = [v]"
proof -
  from assms(1) obtain o1 where o1: "FromOutgoingContext cx = Ok o1"
    "cx' = NewOutgoingContext cx (fold (\<lambda>(k, v) md. MetadataSupplier_Set md k v) (Inject p cx) (case o1 of Some md \<Rightarrow> md | None \<Rightarrow> []))"
    by (auto simp: inject_md_def Let_def split: outcome.splits)
  have "md_lower (case o1 of Some md \<Rightarrow> md | None \<Rightarrow> [])" using o1(1) md_lower_FromOutgoing by (auto split: option.split)
  from md_lower_supplier_sets [OF this] show ?thesis using o1(2) assms(2) supplier_sets [of "Inject p cx" _ k]
    by (simp add: NewOutgoingContext_def)
qed

lemma prepareMessage_carries:
  assumes "prepareMessage lib bufs now cm call = Ok req" "out_md cm = Some \<lparr>raw_md = md, added = []\<rparr>" "md_lower md"
    and "MD_Get md k = [v]" "ToLower k \<noteq> TimeoutHeader"
  shows "\<exists>vs. md_lower (entries req) \<and> MD_Get (entries req) k = v # vs"
proof -
  let ?ua = "New [(UserAgentHeader, UserAgent)]"
  have "FromOutgoingContext cm = Ok (Some md)" using assms(2,3) by (simp add: FromOutgoingContext_def)
  then have e: "entries req = add_timeout now (deadline cm) (Join [md, ?ua])"
    using assms(1) by (auto simp: prepareMessage_def request_md_def Let_def entries_def split: sum.splits)
  have j: "md_lower (Join [md, ?ua])" by (rule md_lower_Join) (simp add: assms(3))
  have "md_index (Join [md, ?ua]) (ToLower k) = md_index md (ToLower k) @ md_index ?ua (ToLower k)"
    using assms(3) md_lower_New [THEN md_lower_map] by (subst md_index_Join) auto
  then have "MD_Get (Join [md, ?ua]) k = v # MD_Get ?ua k" using assms(4) by (simp add: MD_Get_def)
  moreover have "ToLower TimeoutHeader = TimeoutHeader" by (simp add: TimeoutHeader_def ToLower_def lower_char_def)
  then have "MD_Get (add_timeout now (deadline cm) md') k = MD_Get md' k" for md'
    using assms(5) by (auto simp: add_timeout_def Let_def MD_Set_def MD_Get_def split: option.splits)
  moreover have "md_lower (add_timeout now (deadline cm) (Join [md, ?ua]))"
    using j by (auto simp: add_timeout_def Let_def split: option.splits)
  ultimately show ?thesis using e by simp
qed

lemma MD_Get_keys: "md_lower md \<Longrightarrow> MD_Get md k = v # vs \<Longrightarrow> ToLower k \<in> set (MetadataSupplier_Keys md)"
  by (auto simp: MD_Get_def md_index_def MetadataSupplier_Keys_def split: option.splits dest!: map_of_SomeD intro: rev_image_eqI)

text \<open>
  \<^bold>\<open>C39\<close>. The trace context crosses the wire. What the client's propagator sets on its carrier is put into the
  request metadata, replacing values of the caller under these keys; the request is encoded and decoded; and the carrier that the
  server's propagator reads gives for each key the value that was set.
\<close>

theorem trace_context_crosses_wire:
  assumes "clientHandler_TagRPC h start info cx0 = (Ok cx, cs)"
    and "injected (Inject (Propagators h) (fst (tag_common h SpanKindClient start info cx0))) k = Some v"
    and "ToLower k \<noteq> TimeoutHeader"
    and "out_md cm = out_md cx" "prepareMessage lib bufs now cm call = Ok req"
    and "gzip_ok gz" "sized bufs" "wire_ok req" "length (data_bytes req (Payload req)) < 2 ^ 32"
    and "maxLength \<le> 0 \<or> int (length (data_bytes req (Payload req))) \<le> maxLength"
  shows "\<exists>req' buf m' md g ks. Encode gz bufs req = Some (req', buf) \<and> Decode gz maxLength (buf @ rest) m0 = (None, m', rest)
    \<and> Metadata m' = Some md \<and> extract_md p (NewInComingContext sctx md) = Extract p (NewInComingContext sctx md) g ks
    \<and> g k = v \<and> ToLower k \<in> set ks"
proof -
  from assms(1) have "inject_md (Propagators h) (fst (tag_common h SpanKindClient start info cx0)) = Ok cx"
    by (auto simp: clientHandler_TagRPC_def split: prod.splits)
  from inject_md_sets [OF this assms(2)] obtain md where md: "out_md cx = Some \<lparr>raw_md = md, added = []\<rparr>" "md_lower md" "MD_Get md k = [v]"
    by blast
  from prepareMessage_carries [OF assms(5) _ md(2,3) assms(3)] assms(4) md(1) obtain vs where
    e: "md_lower (entries req)" "MD_Get (entries req) k = v # vs" by auto
  from Encode_Decode [OF assms(6-10), of rest m0] obtain ct buf where
    w: "Encode gz bufs req = Some (req\<lparr>Hdr := SetCompressType (Hdr req) ct\<rparr>, buf)"
    "Decode gz maxLength (buf @ rest) m0 = (None, req\<lparr>Hdr := SetCompressType (Hdr req) ct, Metadata := Some (entries req)\<rparr>, rest)" by blast
  have "extract_md p (NewInComingContext sctx (entries req)) = Extract p (NewInComingContext sctx (entries req))
      (MetadataSupplier_Get (entries req)) (MetadataSupplier_Keys (entries req))"
    using e(1) by (simp add: extract_md_def FromInComingContext_def NewInComingContext_def Let_def)
  moreover have "MetadataSupplier_Get (entries req) k = v" using e(2) by (simp add: MetadataSupplier_Get_def)
  ultimately show ?thesis using w MD_Get_keys [OF e] by auto
qed

text \<open>A propagator that carries one fixed header.\<close>

definition sample_propagator :: propagator where
  "sample_propagator = \<lparr>Inject = (\<lambda>_. [(''traceparent'', ''00-4b-00-01'')]),
     Extract = (\<lambda>cx g ks. cx\<lparr>span_recording := g ''traceparent'' \<noteq> []\<rparr>)\<rparr>"

definition sample_config :: "(unit, unit) config" where
  "sample_config = newConfig sample_propagator () () []"

definition sample_tctx :: tctx where
  "sample_tctx = \<lparr>out_md = Some \<lparr>raw_md = [(''traceparent'', [''stale''])], added = []\<rparr>, in_md = None, span_recording = False, zrpc_ctx = None\<rparr>"

definition traced_md :: MD where
  "traced_md = [(''traceparent'', [''00-4b-00-01''])]"

definition traced_req :: Message where
  "traced_req = sample_req\<lparr>Metadata := Some [(''traceparent'', [''00-4b-00-01'']), (UserAgentHeader, [UserAgent])]\<rparr>"

lemma traced_prepare: "prepareMessage raw_proto zeros 0 (sample_ctx\<lparr>out_md := Some \<lparr>raw_md = traced_md, added = []\<rparr>\<rparr>) sample_call = Ok traced_req"
  by code_simp

lemma traced_ok: "wire_ok traced_req" "length (data_bytes traced_req (Payload traced_req)) < 2 ^ 32"
  by (simp_all add: wire_ok_def traced_req_def sample_req_def UserAgentHeader_def UserAgent_def entries_def length_data_bytes
      md_lower_def md_map_def entry_ok_def ToLower_def lower_char_def CheckMagicNumber_def header_ok_def magicNumber_def)

theorem trace_context_crosses_wire_witness:
  "\<exists>req' buf m' md g ks. Encode run_length_gz zeros traced_req = Some (req', buf) \<and> Decode run_length_gz 0 (buf @ []) NewMessage = (None, m', [])
    \<and> Metadata m' = Some md
    \<and> extract_md sample_propagator (NewInComingContext sample_tctx md) = Extract sample_propagator (NewInComingContext sample_tctx md) g ks
    \<and> g ''traceparent'' = ''00-4b-00-01'' \<and> ToLower ''traceparent'' \<in> set ks"
proof -
  let ?info = "\<lparr>FullMethodName = ''/s/m'', FailFast = False\<rparr>"
  let ?cx = "sample_tctx\<lparr>zrpc_ctx := Some \<lparr>inMessages = 0, outMessages = 0, metricAttrs = [RPCService ''s'', RPCMethod ''m'', RPCSystem ''zrpc''], zrecord = True\<rparr>,
    out_md := Some \<lparr>raw_md = traced_md, added = []\<rparr>\<rparr>"
  have t: "clientHandler_TagRPC sample_config (\<lambda>_ cx. cx) ?info sample_tctx = (Ok ?cx, [StartSpan ''s/m'' SpanKindClient [RPCService ''s'', RPCMethod ''m'', RPCSystem ''zrpc'']])"
    by code_simp
  have i: "injected (Inject (Propagators sample_config) (fst (tag_common sample_config SpanKindClient (\<lambda>_ cx. cx) ?info sample_tctx))) ''traceparent'' = Some ''00-4b-00-01''"
    by code_simp
  have o: "out_md (sample_ctx\<lparr>out_md := Some \<lparr>raw_md = traced_md, added = []\<rparr>\<rparr>) = out_md ?cx" by simp
  have k: "ToLower ''traceparent'' \<noteq> TimeoutHeader" by code_simp
  show ?thesis
    by (rule trace_context_crosses_wire [OF t i k o traced_prepare run_length_gz_ok sized_zeros traced_ok]) simp
qed

section \<open>Measurements\<close>

fun is_in :: "'v rpc_event \<Rightarrow> bool" where
  "is_in (InPayload _ _ _ _ _) = True"
| "is_in _ = False"

fun is_out :: "'v rpc_event \<Rightarrow> bool" where
  "is_out (OutPayload _ _ _ _ _) = True"
| "is_out _ = False"

fun is_end :: "'v rpc_event \<Rightarrow> bool" where
  "is_end (End _) = True"
| "is_end _ = False"

lemma emit_simps [simp]: "gctx (otel_emit cs s) = gctx s" "calls (otel_emit cs s) = calls s @ cs"
  by (simp_all add: otel_emit_def)

lemma in_message_gctx:
  "gctx s = Some g \<Longrightarrow> gctx (in_message h recording hist n s) = Some (g\<lparr>inMessages := inMessages g + 1\<rparr>)"
  "gctx s = Some g \<Longrightarrow> \<exists>cs. calls (in_message h recording hist n s) = calls s @ RecordInt hist n (metricAttrs g) # cs \<and> EndSpan \<notin> set cs"
  by (auto simp: in_message_def Let_def)

lemma out_message_gctx:
  "gctx s = Some g \<Longrightarrow> gctx (out_message h recording hist n s) = Some (g\<lparr>outMessages := outMessages g + 1\<rparr>)"
  "gctx s = Some g \<Longrightarrow> \<exists>cs. calls (out_message h recording hist n s) = calls s @ RecordInt hist n (metricAttrs g) # cs \<and> EndSpan \<notin> set cs"
  by (auto simp: out_message_def Let_def)

lemma server_counts:
  assumes "gctx s = Some g" "zrecord g" "\<forall>e \<in> set es. \<not> is_end e"
  shows "gctx (fold (serverHandler_HandleRPC h recording elapsed) es s) =
      Some (g\<lparr>inMessages := inMessages g + int (length (filter is_in es)), outMessages := outMessages g + int (length (filter is_out es))\<rparr>)
    \<and> (\<exists>cs. calls (fold (serverHandler_HandleRPC h recording elapsed) es s) = calls s @ cs \<and> EndSpan \<notin> set cs)"
  using assms
proof (induction es arbitrary: s g)
  case Nil
  then show ?case by simp
next
  case (Cons e es)
  let ?s = "serverHandler_HandleRPC h recording elapsed e s"
  note ms = in_message_gctx [OF Cons.prems(1), of h recording "''rpc.server.request.size''"]
    out_message_gctx [OF Cons.prems(1), of h recording "''rpc.server.response.size''"]
  have g: "gctx ?s = Some (g\<lparr>inMessages := inMessages g + (if is_in e then 1 else 0), outMessages := outMessages g + (if is_out e then 1 else 0)\<rparr>)"
    using Cons.prems ms(1,3) by (cases e) (simp_all add: serverHandler_HandleRPC_def ignored_def)
  have "\<exists>cs. calls ?s = calls s @ cs \<and> EndSpan \<notin> set cs"
    using Cons.prems ms(2,4) by (cases e) (fastforce simp: serverHandler_HandleRPC_def ignored_def)+
  then obtain cs where cs: "calls ?s = calls s @ cs" "EndSpan \<notin> set cs" by blast
  from Cons.IH [OF g] Cons.prems(2,3) cs show ?case by (auto simp: algebra_simps)
qed

text \<open>
  The server's measurements of a request are exact: whatever events precede its end, the numbers of
  received and sent messages that are recorded at the end are the numbers of payload events, with the
  attributes of the request, and the span ends exactly once, last. For a request that the filter rejects nothing is recorded.
\<close>

theorem server_trace_counts:
  assumes "gctx s = Some \<lparr>inMessages = 0, outMessages = 0, metricAttrs = attrs, zrecord = r\<rparr>" "EndSpan \<notin> set (calls s)"
    and "\<forall>e \<in> set es. \<not> is_end e"
    and "t = serverHandler_HandleRPC h recording elapsed (End err :: 'v rpc_event) (fold (serverHandler_HandleRPC h recording elapsed) (es :: 'v rpc_event list) s)"
  shows "if r then
      RecordInt ''rpc.server.requests_per_rpc'' (int (length (filter is_in es))) attrs \<in> set (calls t)
      \<and> RecordInt ''rpc.server.responses_per_rpc'' (int (length (filter is_out es))) attrs \<in> set (calls t)
      \<and> RecordDuration ''rpc.server.duration'' elapsed attrs \<in> set (calls t)
      \<and> last (calls t) = EndSpan \<and> count_list (calls t) EndSpan = 1
    else t = s"
proof (cases r)
  case True
  let ?f = "fold (serverHandler_HandleRPC h recording elapsed) es s"
  let ?g = "\<lparr>inMessages = int (length (filter is_in es)), outMessages = int (length (filter is_out es)), metricAttrs = attrs, zrecord = r\<rparr>"
  from server_counts [OF assms(1) _ assms(3), of h recording elapsed] True obtain cs where
    f: "gctx ?f = Some ?g" "calls ?f = calls s @ cs" "EndSpan \<notin> set cs" by auto
  have "t = rpc_end recording ''rpc.server.requests_per_rpc'' ''rpc.server.responses_per_rpc'' ''rpc.server.duration'' elapsed err ?f"
    using f(1) True by (simp add: assms(4) serverHandler_HandleRPC_def ignored_def)
  then obtain cs' where "calls t = calls s @ cs @ [RecordInt ''rpc.server.requests_per_rpc'' (int (length (filter is_in es))) attrs,
      RecordInt ''rpc.server.responses_per_rpc'' (int (length (filter is_out es))) attrs, RecordDuration ''rpc.server.duration'' elapsed attrs] @ cs' @ [EndSpan]"
    "EndSpan \<notin> set cs'"
    using f(1,2) by (auto simp: rpc_end_def Let_def split: option.splits if_splits)
  with True f(3) assms(2) show ?thesis by (simp add: count_list_0_iff)
next
  case False
  then have i: "ignored s" using assms(1) by (simp add: ignored_def)
  then have "fold (serverHandler_HandleRPC h recording elapsed) es s = s"
    by (induction es) (simp_all add: serverHandler_HandleRPC_def)
  with False i show ?thesis by (simp add: assms(4) serverHandler_HandleRPC_def)
qed

definition sample_trace :: rpc_trace where
  "sample_trace = \<lparr>gctx = Some \<lparr>inMessages = 0, outMessages = 0, metricAttrs = [RPCSystem ''zrpc''], zrecord = True\<rparr>, calls = []\<rparr>"

definition sample_events :: "bytes rpc_event list" where
  "sample_events = [Begin, InPayload [1] [1] 1 1 12, OutPayload (Some [2]) [2, 2] 2 2 13]"

definition until_end :: "otel_call list \<Rightarrow> bool" where
  "until_end h \<longleftrightarrow> EndSpan \<notin> set h"

theorem server_trace_counts_witness:
  "RecordInt ''rpc.server.requests_per_rpc'' 1 [RPCSystem ''zrpc''] \<in> set (calls (serverHandler_HandleRPC sample_config until_end 5 (End None :: bytes rpc_event)
     (fold (serverHandler_HandleRPC sample_config until_end 5) sample_events sample_trace)))"
proof -
  have a: "gctx sample_trace = Some \<lparr>inMessages = 0, outMessages = 0, metricAttrs = [RPCSystem ''zrpc''], zrecord = True\<rparr>"
    "EndSpan \<notin> set (calls sample_trace)" by (simp_all add: sample_trace_def)
  have e: "\<forall>e \<in> set sample_events. \<not> is_end e" "length (filter is_in sample_events) = 1" by (simp_all add: sample_events_def)
  from server_trace_counts [OF a e(1) refl, of sample_config until_end 5 None] e(2) show ?thesis by simp
qed

text \<open>After the end of a span the client handler only records measurements, and ends the span again.\<close>

fun on_span :: "otel_call \<Rightarrow> bool" where
  "on_span (AddMessageEvent _ _ _) = True"
| "on_span (RecordError _) = True"
| "on_span (SetStatusError _) = True"
| "on_span SetStatusOk = True"
| "on_span _ = False"

lemma ended_step:
  assumes "span_ok recording" "EndSpan \<in> set (calls s)"
  shows "\<exists>cs. calls (clientHandler_HandleRPC h recording elapsed e s) = calls s @ cs \<and> (\<forall>c \<in> set cs. \<not> on_span c)"
proof -
  have nr: "\<not> recording (calls s @ cs)" for cs using assms by (auto simp: span_ok_def)
  then have "\<not> recording (calls s)" by (metis append_Nil2)
  with nr show ?thesis
    by (cases e) (auto simp: clientHandler_HandleRPC_def in_message_def out_message_def rpc_end_def Let_def split: option.split)
qed

lemma ended_fold:
  assumes "span_ok recording" "EndSpan \<in> set (calls s)"
  shows "\<exists>cs. calls (fold (clientHandler_HandleRPC h recording elapsed) es s) = calls s @ cs \<and> (\<forall>c \<in> set cs. \<not> on_span c)"
  using assms(2)
proof (induction es arbitrary: s)
  case Nil
  then show ?case by simp
next
  case (Cons e es)
  from ended_step [OF assms(1) Cons.prems, of h elapsed e] obtain cs where
    cs: "calls (clientHandler_HandleRPC h recording elapsed e s) = calls s @ cs" "\<forall>c \<in> set cs. \<not> on_span c" by blast
  then have "EndSpan \<in> set (calls (clientHandler_HandleRPC h recording elapsed e s))" using Cons.prems by simp
  from Cons.IH [OF this] cs show ?case by (auto simp: ball_Un)
qed

text \<open>
  A call that is retried has one span, which the handler ends with the first attempt: when that attempt
  fails, no later event, the final success included, reaches the span. Its status stays the error of the
  first attempt.
\<close>

theorem retried_call_keeps_error:
  assumes "span_ok recording" "\<not> ignored s"
    and "t = clientHandler_HandleRPC h recording elapsed (End (Some e) :: 'v rpc_event) s"
    and "u = fold (clientHandler_HandleRPC h recording elapsed) (es :: 'v rpc_event list) t"
  shows "\<exists>cs. calls u = calls t @ cs \<and> (\<forall>c \<in> set cs. \<not> on_span c) \<and> SetStatusOk \<notin> set cs"
proof -
  have "EndSpan \<in> set (calls t)" using assms(2,3) by (simp add: clientHandler_HandleRPC_def rpc_end_def Let_def)
  from ended_fold [OF assms(1) this, of h elapsed es] assms(4) show ?thesis by (metis on_span.simps(4))
qed

theorem retried_call_keeps_error_witness:
  "\<exists>cs. calls (fold (clientHandler_HandleRPC sample_config until_end 5) (sample_events @ [End None])
      (clientHandler_HandleRPC sample_config until_end 5 (End (Some EOF) :: bytes rpc_event) sample_trace)) =
      calls (clientHandler_HandleRPC sample_config until_end 5 (End (Some EOF) :: bytes rpc_event) sample_trace) @ cs \<and> SetStatusOk \<notin> set cs"
proof -
  have "span_ok until_end" "\<not> ignored sample_trace" by (simp_all add: span_ok_def until_end_def ignored_def sample_trace_def)
  from retried_call_keeps_error [OF this refl refl] show ?thesis by blast
qed

end
