(* ===== verification/EtcdRegistry.thy ===== *)
theory EtcdRegistry
  imports Discovery
begin

text \<open>
  Registration in etcd (\<^verbatim>\<open>discovery/etcd/registry.go\<close>).

  The etcd client is a parameter: a record of its operations over a state \<open>'e\<close> of the remote store. \<open>etcd_ok\<close> is what
  the code relies on: an endpoint that was added is stored under its key with its lease; a deleted key is gone; and when a
  lease expires or is revoked, exactly the keys attached to it go. \<open>keys\<close> reads the store.

  \<open>keepAlive\<close> is a goroutine. It is modelled by what its channel and context deliver to it: a renewal, the
  closing of the channel, which the code takes for the loss of the lease, or the end of the context. With no
  event left it waits. The goroutine that \<open>reRegister\<close> starts goes on with the remaining events.
\<close>

type_synonym lease = int

record endpoint =
  ep_Addr :: string
  ep_Metadata :: "(string \<times> string) list"

record 'e etcd =
  etcd_New :: "string list \<Rightarrow> 'e \<Rightarrow> goerr option \<times> 'e"
  etcd_Grant :: "int \<Rightarrow> 'e \<Rightarrow> (goerr + lease) \<times> 'e"
  etcd_NewManager :: "string \<Rightarrow> 'e \<Rightarrow> goerr option \<times> 'e"
  etcd_AddEndpoint :: "string \<Rightarrow> endpoint \<Rightarrow> lease option \<Rightarrow> 'e \<Rightarrow> goerr option \<times> 'e"
  etcd_KeepAlive :: "lease \<Rightarrow> 'e \<Rightarrow> goerr option \<times> 'e"
  etcd_Delete :: "string \<Rightarrow> 'e \<Rightarrow> goerr option \<times> 'e"
  etcd_Revoke :: "lease \<Rightarrow> 'e \<Rightarrow> goerr option \<times> 'e"
  etcd_Close :: "'e \<Rightarrow> goerr option \<times> 'e"

record etcd_Registry =
  r_cancelled :: bool
  r_leaseID :: lease
  r_key :: string
  r_val :: endpoint
  r_ttl :: int

definition Etcd_RegisterService ::
  "'e etcd \<Rightarrow> string list \<Rightarrow> string \<Rightarrow> string \<Rightarrow> (string \<times> string) list \<Rightarrow> int \<Rightarrow> 'e \<Rightarrow> (goerr + etcd_Registry) \<times> 'e" where
  "Etcd_RegisterService E addr serviceName serviceAddr metadata ttl e =
     (let ttl = (if ttl \<le> 0 then 60 else ttl) in
      case etcd_New E addr e of
        (Some err, e) \<Rightarrow> (Inl err, e)
      | (None, e) \<Rightarrow>
          (case etcd_Grant E ttl e of
             (Inl err, e) \<Rightarrow> (Inl (Wrap ''create lease failed'' err), snd (etcd_Close E e))
           | (Inr leaseID, e) \<Rightarrow>
               (let key = ''service/'' @ serviceName @ ''/'' @ serviceAddr;
                    val = \<lparr>ep_Addr = serviceAddr, ep_Metadata = metadata\<rparr>;
                    registry = \<lparr>r_cancelled = False, r_leaseID = leaseID, r_key = key, r_val = val, r_ttl = ttl\<rparr> in
                case etcd_NewManager E (''service/'' @ serviceName) e of
                  (Some err, e) \<Rightarrow> (Inl err, e)
                | (None, e) \<Rightarrow>
                    (case etcd_AddEndpoint E key val (Some leaseID) e of
                       (Some err, e) \<Rightarrow> (Inl err, e)
                     | (None, e) \<Rightarrow> (Inr registry, e)))))"

definition Registry_Unregister :: "'e etcd \<Rightarrow> etcd_Registry \<Rightarrow> 'e \<Rightarrow> goerr option \<times> etcd_Registry \<times> 'e" where
  "Registry_Unregister E r e =
     (let r = r\<lparr>r_cancelled := True\<rparr>;
          e = snd (etcd_Delete E (r_key r) e);
          e = snd (etcd_Revoke E (r_leaseID r) e) in
      case etcd_Close E e of (err, e) \<Rightarrow> (err, r, e))"

definition reRegister :: "'e etcd \<Rightarrow> etcd_Registry \<Rightarrow> 'e \<Rightarrow> goerr option \<times> etcd_Registry \<times> 'e" where
  "reRegister E r e =
     (case etcd_Grant E (r_ttl r) e of
        (Inl err, e) \<Rightarrow> (Some (Wrap ''create lease failed'' err), r, e)
      | (Inr leaseID, e) \<Rightarrow>
          (let r = r\<lparr>r_leaseID := leaseID\<rparr> in
           case etcd_AddEndpoint E (r_key r) (r_val r) None e of (err, e) \<Rightarrow> (err, r, e)))"

datatype ka_event = CtxDone | Renewed | ChannelClosed

fun keepAlive_loop :: "'e etcd \<Rightarrow> ka_event list \<Rightarrow> etcd_Registry \<Rightarrow> 'e \<Rightarrow> etcd_Registry \<times> 'e" where
  "keepAlive_loop E [] r e = (r, e)"
| "keepAlive_loop E (CtxDone # evs) r e = (r, e)"
| "keepAlive_loop E (Renewed # evs) r e = keepAlive_loop E evs r e"
| "keepAlive_loop E (ChannelClosed # evs) r e =
     (case reRegister E r e of
        (Some err, r, e) \<Rightarrow> snd (Registry_Unregister E r e)
      | (None, r, e) \<Rightarrow>
          (case etcd_KeepAlive E (r_leaseID r) e of
             (Some err, e) \<Rightarrow> snd (Registry_Unregister E r e)
           | (None, e) \<Rightarrow> keepAlive_loop E evs r e))"

definition keepAlive :: "'e etcd \<Rightarrow> ka_event list \<Rightarrow> etcd_Registry \<Rightarrow> 'e \<Rightarrow> etcd_Registry \<times> 'e" where
  "keepAlive E evs r e =
     (case etcd_KeepAlive E (r_leaseID r) e of
        (Some err, e) \<Rightarrow> snd (Registry_Unregister E r e)
      | (None, e) \<Rightarrow> keepAlive_loop E evs r e)"

section \<open>What is relied on\<close>

definition etcd_ok :: "'e etcd \<Rightarrow> ('e \<Rightarrow> string \<Rightarrow> (endpoint \<times> lease option) option) \<Rightarrow> (lease \<Rightarrow> 'e \<Rightarrow> 'e) \<Rightarrow> bool" where
  "etcd_ok E keys expire \<longleftrightarrow>
     (\<forall>k v l e e'. etcd_AddEndpoint E k v l e = (None, e') \<longrightarrow> keys e' = (keys e)(k \<mapsto> (v, l)))
     \<and> (\<forall>k e e'. etcd_Delete E k e = (None, e') \<longrightarrow> keys e' = (keys e)(k := None))
     \<and> (\<forall>l e k. keys (expire l e) k = (case keys e k of Some (v, Some l') \<Rightarrow> if l' = l then None else Some (v, Some l') | x \<Rightarrow> x))
     \<and> (\<forall>l e e' k. etcd_Revoke E l e = (None, e') \<longrightarrow>
          keys e' k = (case keys e k of Some (v, Some l') \<Rightarrow> if l' = l then None else Some (v, Some l') | x \<Rightarrow> x))
     \<and> (\<forall>l e. keys (snd (etcd_KeepAlive E l e)) = keys e)
     \<and> (\<forall>e. keys (snd (etcd_Close E e)) = keys e)"

lemma etcd_add: "etcd_ok E keys expire \<Longrightarrow> etcd_AddEndpoint E k v l e = (None, e') \<Longrightarrow> keys e' = (keys e)(k \<mapsto> (v, l))"
  unfolding etcd_ok_def by blast

lemma etcd_expire:
  "etcd_ok E keys expire \<Longrightarrow> keys (expire l e) k = (case keys e k of Some (v, Some l') \<Rightarrow> if l' = l then None else Some (v, Some l') | x \<Rightarrow> x)"
  unfolding etcd_ok_def by blast

lemma RegisterService_stores:
  assumes "etcd_ok E keys expire" "Etcd_RegisterService E addr serviceName serviceAddr metadata ttl e = (Inr r, e')"
  shows "r_key r = ''service/'' @ serviceName @ ''/'' @ serviceAddr" "r_val r = \<lparr>ep_Addr = serviceAddr, ep_Metadata = metadata\<rparr>"
    "keys e' (r_key r) = Some (r_val r, Some (r_leaseID r))" "0 < r_ttl r" "\<not> r_cancelled r"
  using assms(2) by (auto simp: Etcd_RegisterService_def Let_def etcd_add [OF assms(1)] split: prod.splits option.splits sum.splits if_splits)

lemma reRegister_stores:
  assumes "etcd_ok E keys expire" "reRegister E r e = (None, r', e')"
  shows "keys e' (r_key r) = Some (r_val r, None)" "r_key r' = r_key r"
  using assms(2) by (auto simp: reRegister_def Let_def etcd_add [OF assms(1)] split: prod.splits sum.splits)

lemma etcd_expire_no_lease: "etcd_ok E keys expire \<Longrightarrow> keys e k = Some (v, None) \<Longrightarrow> keys (fold expire ls e) k = Some (v, None)"
  by (induction ls arbitrary: e) (simp_all add: etcd_expire)

lemma Unregister_cancels: "Registry_Unregister E r e = (err, r', e') \<Longrightarrow> r_cancelled r'"
  by (auto simp: Registry_Unregister_def Let_def split: prod.splits)

lemma keepAlive_renewed: "keepAlive_loop E (replicate n Renewed @ evs) r e = keepAlive_loop E evs r e"
  by (induction n) simp_all

text \<open>A goroutine that outlives the loss of its lease has registered the key again, without a lease.\<close>

lemma keepAlive_reregisters:
  assumes "etcd_ok E keys expire" "keepAlive E (replicate n Renewed @ [ChannelClosed]) r e = (r', e')" "\<not> r_cancelled r'"
  shows "keys e' (r_key r) = Some (r_val r, None)"
proof -
  have up: "r_cancelled (fst (snd (Registry_Unregister E x y)))" for x y
    using Unregister_cancels by (metis prod.collapse)
  have ka: "keys (snd (etcd_KeepAlive E l y)) = keys y" for l y using assms(1) unfolding etcd_ok_def by blast
  from assms(2,3) up obtain e1 where "keepAlive_loop E [ChannelClosed] r e1 = (r', e')"
    by (auto simp: keepAlive_def keepAlive_renewed split: prod.splits option.splits) (metis fst_conv snd_conv)+
  with assms(3) up obtain r2 e2 where "reRegister E r e1 = (None, r2, e2)" "e' = snd (etcd_KeepAlive E (r_leaseID r2) e2)"
    by (auto split: prod.splits option.splits) (metis fst_conv snd_conv)+
  with reRegister_stores(1) [OF assms(1)] ka show ?thesis by metis
qed

section \<open>Properties\<close>

text \<open>\<open>Unregister\<close> tries every step, and takes the key away when the store deletes it.\<close>

lemma Unregister_removes:
  assumes "etcd_ok E keys expire" "Registry_Unregister E r e = (err, r', e')" "etcd_Delete E (r_key r) e = (None, e1)"
    and "etcd_Revoke E (r_leaseID r) e1 = (None, e2)"
  shows "r_cancelled r'" "keys e' (r_key r) = None"
proof -
  have d: "keys e1 = (keys e)(r_key r := None)" using assms(1,3) unfolding etcd_ok_def by blast
  have v: "keys e2 (r_key r) = (case keys e1 (r_key r) of Some (v, Some l') \<Rightarrow> if l' = r_leaseID r then None else Some (v, Some l') | x \<Rightarrow> x)"
    using assms(1,4) unfolding etcd_ok_def by blast
  have "keys (snd (etcd_Close E e2)) = keys e2" using assms(1) unfolding etcd_ok_def by blast
  with d v assms(2-4) show "r_cancelled r'" "keys e' (r_key r) = None" by (auto simp: Registry_Unregister_def Let_def split: prod.splits)
qed

text \<open>
  \<^bold>\<open>C40\<close>. A service that registers in etcd is stored under the key that discovery looks up for it, with a lease, so that the
  key goes when the lease expires. After the loss of a lease the service is registered again without
  one: from then on the key stays whichever leases expire, also when the process is gone.
\<close>

theorem etcd_lease_lost_on_reregister:
  assumes "etcd_ok E keys expire" "Etcd_RegisterService E addr serviceName serviceAddr metadata ttl e = (Inr r, e1)"
    and "ed_serviceName d = serviceName"
  shows "r_key r = getKey d serviceAddr \<and> take (length (getKeyPrefix d)) (r_key r) = getKeyPrefix d
    \<and> keys e1 (getKey d serviceAddr) = Some (r_val r, Some (r_leaseID r)) \<and> ep_Addr (r_val r) = serviceAddr
    \<and> keys (expire (r_leaseID r) e1) (getKey d serviceAddr) = None
    \<and> (\<forall>e2 n r' e3 ls. keepAlive E (replicate n Renewed @ [ChannelClosed]) r e2 = (r', e3) \<and> \<not> r_cancelled r'
         \<longrightarrow> keys (fold expire ls e3) (getKey d serviceAddr) = Some (r_val r, None))"
proof -
  note st = RegisterService_stores [OF assms(1,2)]
  have k: "r_key r = getKey d serviceAddr" "take (length (getKeyPrefix d)) (getKey d serviceAddr) = getKeyPrefix d"
    using st(1) assms(3) by (simp_all add: getKey_def getKeyPrefix_def)
  have "keys (fold expire ls e3) (getKey d serviceAddr) = Some (r_val r, None)"
    if "keepAlive E (replicate n Renewed @ [ChannelClosed]) r e2 = (r', e3)" "\<not> r_cancelled r'" for e2 n r' e3 ls
    using etcd_expire_no_lease [OF assms(1) keepAlive_reregisters [OF assms(1) that]] k(1) by simp
  moreover have "keys (expire (r_leaseID r) e1) (r_key r) = None" using st(3) by (simp add: etcd_expire [OF assms(1)])
  ultimately show ?thesis using k st(2,3) by auto
qed

text \<open>A store that accepts everything.\<close>

type_synonym sample_store = "(string \<Rightarrow> (endpoint \<times> lease option) option) \<times> int"

definition drop_lease :: "lease \<Rightarrow> sample_store \<Rightarrow> sample_store" where
  "drop_lease l s = ((\<lambda>k. case fst s k of Some (v, Some l') \<Rightarrow> if l' = l then None else Some (v, Some l') | x \<Rightarrow> x), snd s)"

definition sample_etcd :: "sample_store etcd" where
  "sample_etcd = \<lparr>etcd_New = (\<lambda>_ s. (None, s)), etcd_Grant = (\<lambda>_ s. (Inr (snd s), (fst s, snd s + 1))), etcd_NewManager = (\<lambda>_ s. (None, s)),
     etcd_AddEndpoint = (\<lambda>k v l s. (None, ((fst s)(k \<mapsto> (v, l)), snd s))), etcd_KeepAlive = (\<lambda>_ s. (None, s)),
     etcd_Delete = (\<lambda>k s. (None, ((fst s)(k := None), snd s))), etcd_Revoke = (\<lambda>l s. (None, drop_lease l s)), etcd_Close = (\<lambda>s. (None, s))\<rparr>"

lemma sample_etcd_ok: "etcd_ok sample_etcd fst drop_lease"
  by (auto simp: etcd_ok_def sample_etcd_def drop_lease_def)

definition sample_registry :: etcd_Registry where
  "sample_registry = \<lparr>r_cancelled = False, r_leaseID = 7, r_key = ''service/s/h:1'', r_val = \<lparr>ep_Addr = ''h:1'', ep_Metadata = []\<rparr>, r_ttl = 60\<rparr>"

theorem etcd_lease_lost_on_reregister_witness:
  "\<exists>e1 r' e3. Etcd_RegisterService sample_etcd [] ''s'' ''h:1'' [] 0 (Map.empty, 7) = (Inr sample_registry, e1)
    \<and> fst (drop_lease 7 e1) ''service/s/h:1'' = None
    \<and> keepAlive sample_etcd (replicate 2 Renewed @ [ChannelClosed]) sample_registry (drop_lease 7 e1) = (r', e3) \<and> \<not> r_cancelled r'
    \<and> fst (fold drop_lease [7, 8, 9] e3) ''service/s/h:1'' = Some (r_val sample_registry, None)"
proof -
  let ?d = "\<lparr>ed_serviceName = ''s'', ed_servers = [], ed_idx = 0, ed_refreshInterval = 0, ed_lastRefresh = 0\<rparr>"
  define e1 where "e1 = ([''service/s/h:1'' \<mapsto> (r_val sample_registry, Some 7)] :: string \<Rightarrow> (endpoint \<times> lease option) option, 8 :: int)"
  have reg: "Etcd_RegisterService sample_etcd [] ''s'' ''h:1'' [] 0 (Map.empty, 7) = (Inr sample_registry, e1)"
    by (simp add: Etcd_RegisterService_def sample_etcd_def sample_registry_def e1_def Let_def)
  obtain r' e3 where re: "keepAlive sample_etcd (replicate 2 Renewed @ [ChannelClosed]) sample_registry (drop_lease 7 e1) = (r', e3)"
    by (rule prod.exhaust)
  then have "\<not> r_cancelled r'"
    by (auto simp: keepAlive_def reRegister_def sample_etcd_def sample_registry_def Let_def numeral_2_eq_2)
  moreover have k: "getKey ?d ''h:1'' = ''service/s/h:1''" by (simp add: getKey_def)
  moreover have l: "r_leaseID sample_registry = 7" by (simp add: sample_registry_def)
  note * = etcd_lease_lost_on_reregister [OF sample_etcd_ok reg, of ?d, unfolded k l]
  ultimately show ?thesis using reg re * by (metis EtcdDiscovery.select_convs(1))
qed

end
