(* ===== verification/Generator.thy ===== *)
theory Generator
  imports Prelude
begin

text \<open>
  The text that the protoc plugin generates (\<^verbatim>\<open>cmd/protoc-gen-go-zrpc/zrpc.go\<close>): every call of \<open>g.P\<close> prints one
  line, so a printing function is modelled by the list of its lines. What the generated code then does is modelled in
  the theory of the server.

  From the protobuf compiler library come, as the fields of \<open>genv\<close>, the qualified name of an identifier of an
  import path, the printed form of a comment, and the flag of the plugin. Symbol annotations, which do not show in
  the text, are left out. Names are ASCII, so \<open>strconv.Quote\<close> escapes quotes and backslashes only.
\<close>

record goIdent =
  gi_path :: string
  gi_name :: string

record gen_method =
  gm_GoName :: string
  gm_DescName :: string
  gm_Input :: goIdent
  gm_Output :: goIdent
  gm_Leading :: string

record gen_service =
  gs_GoName :: string
  gs_FullName :: string
  gs_Leading :: string
  gs_Methods :: "gen_method list"

record source_loc =
  sl_Detached :: "string list"
  sl_Leading :: string

record gen_file =
  gf_Services :: "gen_service list"
  gf_Prefix :: string
  gf_GoPackageName :: string
  gf_Path :: string
  gf_syntax :: source_loc
  gf_package :: source_loc

record genv =
  QualifiedGoIdent :: "goIdent \<Rightarrow> string"
  comment_text :: "string \<Rightarrow> string"
  requireUnimplemented :: bool
  compilerVersion :: "(nat \<times> nat \<times> nat \<times> string) option"

definition fmt_ident :: "genv \<Rightarrow> string \<Rightarrow> string" where
  "fmt_ident G n = QualifiedGoIdent G \<lparr>gi_path = ''fmt'', gi_name = n\<rparr>"

definition context_ident :: "genv \<Rightarrow> string \<Rightarrow> string" where
  "context_ident G n = QualifiedGoIdent G \<lparr>gi_path = ''context'', gi_name = n\<rparr>"

definition zrpc_ident :: "genv \<Rightarrow> string \<Rightarrow> string" where
  "zrpc_ident G n = QualifiedGoIdent G \<lparr>gi_path = ''github.com/crazyfrankie/zrpc'', gi_name = n\<rparr>"

definition quote_char :: char where
  "quote_char = CHR 0x22"

fun escape :: "string \<Rightarrow> string" where
  "escape [] = []"
| "escape (c # s) = (if c = quote_char \<or> c = CHR 0x5C then [CHR 0x5C, c] else [c]) @ escape s"

definition Quote :: "string \<Rightarrow> string" where
  "Quote s = [quote_char] @ escape s @ [quote_char]"

text \<open>\<open>s[:1]\<close> panics on the empty string only, and the names of services are not empty.\<close>

definition unExport :: "string \<Rightarrow> string" where
  "unExport s = ToLower (take 1 s) @ drop 1 s"

definition formatFullMethodSymbol :: "gen_service \<Rightarrow> gen_method \<Rightarrow> string" where
  "formatFullMethodSymbol service method = gs_GoName service @ ''_'' @ gm_GoName method @ ''_FullMethodName''"

definition genFullMethods :: "gen_service \<Rightarrow> string list" where
  "genFullMethods service =
     (if length (gs_Methods service) = 0 then []
      else [''const (''] @
        map (\<lambda>mtd. formatFullMethodSymbol service mtd @ '' = '' @ [quote_char] @ gs_FullName service @ ''/'' @ gm_GoName mtd @ [quote_char])
          (gs_Methods service) @
        ['')'', []])"

definition generateClientStruct :: "genv \<Rightarrow> string \<Rightarrow> string list" where
  "generateClientStruct G clientName =
     [''type '' @ unExport clientName @ '' struct {'', ''cli '' @ zrpc_ident G ''ClientInterface'', ''}'', []]"

definition generateNewClientDefinitions :: "string \<Rightarrow> string list" where
  "generateNewClientDefinitions clientName = [''return &'' @ unExport clientName @ ''{cc}'']"

definition clientSignature :: "genv \<Rightarrow> gen_method \<Rightarrow> string" where
  "clientSignature G method =
     gm_GoName method @ ''(ctx '' @ context_ident G ''Context''
       @ '', in *'' @ QualifiedGoIdent G (gm_Input method) @ '') ('' @ ''*'' @ QualifiedGoIdent G (gm_Output method) @ '', error)''"

definition serverSignature :: "genv \<Rightarrow> gen_method \<Rightarrow> string" where
  "serverSignature G method =
     gm_GoName method @ ''('' @ context_ident G ''Context''
       @ '', *'' @ QualifiedGoIdent G (gm_Input method) @ '') ('' @ ''*'' @ QualifiedGoIdent G (gm_Output method) @ '', error)''"

definition mustOrShould :: "genv \<Rightarrow> string" where
  "mustOrShould G = (if \<not> requireUnimplemented G then ''should'' else ''must'')"

definition generateUnimplementedServerType :: "genv \<Rightarrow> gen_service \<Rightarrow> string list" where
  "generateUnimplementedServerType G service =
     (let serverType = gs_GoName service @ ''Server'' in
      [''// Unimplemented'' @ serverType @ '' '' @ mustOrShould G @ '' be embedded to have'',
       ''// forward compatible implementations.'',
       ''//'',
       ''// NOTE: this should be embedded by value instead of pointer to avoid a nil'',
       ''// pointer dereference when methods are called.'',
       ''type Unimplemented'' @ serverType @ '' struct {}'',
       []] @
      concat (map (\<lambda>method.
        [''func (Unimplemented'' @ serverType @ '') '' @ serverSignature G method @ ''{'',
         ''return '' @ ''nil,'' @ fmt_ident G ''Errorf'' @ ''('' @ [quote_char] @ ''method '' @ gm_GoName method @ '' not implemented'' @ [quote_char] @ '')'',
         ''}'']) (gs_Methods service)) @
      (if requireUnimplemented G
       then [''func (Unimplemented'' @ serverType @ '') mustEmbedUnimplemented'' @ serverType @ ''() {}''] else []) @
      [''func (Unimplemented'' @ serverType @ '') testEmbeddedByValue() {}'', []])"

definition handlerName :: "gen_service \<Rightarrow> gen_method \<Rightarrow> string" where
  "handlerName service method = ''_'' @ gs_GoName service @ ''_'' @ gm_GoName method @ ''_Handler''"

definition text_genClientMethod :: "genv \<Rightarrow> gen_service \<Rightarrow> gen_method \<Rightarrow> string list" where
  "text_genClientMethod G service method =
     [''func (c *'' @ unExport (gs_GoName service) @ ''Client) '' @ clientSignature G method @ '' {'',
      ''out := new('' @ QualifiedGoIdent G (gm_Output method) @ '')'',
      ''err := c.cli.Invoke(ctx, '' @ formatFullMethodSymbol service method @ '', in, out)'',
      ''if err != nil { return nil, err }'',
      ''return out, nil'',
      ''}'',
      []]"

definition text_genServerMethod :: "genv \<Rightarrow> gen_service \<Rightarrow> gen_method \<Rightarrow> string list" where
  "text_genServerMethod G service method =
     [''func '' @ handlerName service method @ ''(srv interface{}, ctx '' @ context_ident G ''Context''
        @ '', dec func(interface{}) error, middleware '' @ zrpc_ident G ''ServerMiddleware'' @ '') (interface{}, error) {'',
      ''in := new('' @ QualifiedGoIdent G (gm_Input method) @ '')'',
      ''if err := dec(in); err != nil { return nil, err }'',
      ''if middleware == nil { return srv.('' @ gs_GoName service @ ''Server).'' @ gm_GoName method @ ''(ctx, in) }'',
      ''info := &'' @ zrpc_ident G ''ServerInfo'' @ ''{'',
      ''Server: srv,'',
      ''FullMethod: '' @ formatFullMethodSymbol service method @ '','',
      ''}'',
      ''handler := func(ctx '' @ context_ident G ''Context'' @ '', req interface{}) (interface{}, error) {'',
      ''return srv.('' @ gs_GoName service @ ''Server).'' @ gm_GoName method @ ''(ctx, req.(*'' @ QualifiedGoIdent G (gm_Input method) @ ''))'',
      ''}'',
      ''return middleware(ctx, in, info, handler)'',
      ''}'',
      []]"

fun text_methods :: "(gen_method \<times> string) list \<Rightarrow> string list" where
  "text_methods [] = []"
| "text_methods ((mtd, h) # rest) =
     [''{'', ''MethodName: '' @ Quote (gm_DescName mtd) @ '','', ''Handler: '' @ h @ '','', ''},''] @ text_methods rest"

definition text_genServiceDesc :: "genv \<Rightarrow> gen_file \<Rightarrow> string \<Rightarrow> string \<Rightarrow> gen_service \<Rightarrow> string list \<Rightarrow> string list" where
  "text_genServiceDesc G file serviceDescVar serviceName service handlerNames =
     [''// '' @ serviceDescVar @ '' is the '' @ zrpc_ident G ''ServiceDesc'' @ '' for '' @ gs_GoName service @ '' service.'',
      ''// It'' @ [CHR 0x27] @ ''s only intended for direct use with'' @ zrpc_ident G ''RegisterService'' @ '','',
      ''// and not to be introspected or modified (even as a copy)'',
      ''var '' @ serviceDescVar @ '' = '' @ zrpc_ident G ''ServiceDesc'' @ ''{'',
      ''ServiceName:'' @ Quote (gs_FullName service) @ '','',
      ''HandlerType:'' @ ''(*'' @ serviceName @ '')(nil),'',
      ''Methods:'' @ ''[]'' @ zrpc_ident G ''MethodDesc'' @ ''{''] @
     text_methods (zip (gs_Methods service) handlerNames) @
     [''},'',
      ''Metadata: '' @ [quote_char] @ gf_Path file @ [quote_char] @ '','',
      ''}'',
      []]"

definition generateServerFunctions :: "genv \<Rightarrow> gen_file \<Rightarrow> gen_service \<Rightarrow> string \<Rightarrow> string \<Rightarrow> string list" where
  "generateServerFunctions G file service serverName serviceDescVar =
     concat (map (text_genServerMethod G service) (gs_Methods service)) @
     text_genServiceDesc G file serviceDescVar serverName service (map (handlerName service) (gs_Methods service))"

definition is_space :: "char \<Rightarrow> bool" where
  "is_space c \<longleftrightarrow> c \<in> {CHR 0x09, CHR 0x0A, CHR 0x0B, CHR 0x0C, CHR 0x0D, CHR 0x20}"

definition TrimSpace :: "string \<Rightarrow> string" where
  "TrimSpace s = rev (dropWhile is_space (rev (dropWhile is_space s)))"

definition genServiceComments :: "genv \<Rightarrow> gen_service \<Rightarrow> string list" where
  "genServiceComments G service =
     (if gs_Leading service \<noteq> [] then [''//'', TrimSpace (comment_text G (gs_Leading service))] else [])"

definition genLeadingComments :: "genv \<Rightarrow> source_loc \<Rightarrow> string list" where
  "genLeadingComments G loc =
     concat (map (\<lambda>s. [comment_text G s, []]) (sl_Detached loc)) @
     (if sl_Leading loc \<noteq> [] then [comment_text G (sl_Leading loc), []] else [])"

definition protocVersion :: "genv \<Rightarrow> string" where
  "protocVersion G =
     (case compilerVersion G of
        None \<Rightarrow> ''unknown''
      | Some (major, minor, patch, s) \<Rightarrow>
          ''v'' @ FormatInt major @ ''.'' @ FormatInt minor @ ''.'' @ FormatInt patch @ (if s \<noteq> [] then ''-'' @ s else []))"

definition genServices :: "genv \<Rightarrow> gen_file \<Rightarrow> gen_service \<Rightarrow> string list" where
  "genServices G file service =
     (let clientName = gs_GoName service @ ''Client'';
          serverName = gs_GoName service @ ''Server'';
          serviceDescVar = gs_GoName service @ ''_ServiceDesc'' in
      genFullMethods service @
      [''// '' @ clientName @ '' is the API for '' @ gs_GoName service @ '' service.'', []] @
      genServiceComments G service @
      [''type '' @ clientName @ '' interface {''] @
      map (\<lambda>mtd. comment_text G (gm_Leading mtd) @ clientSignature G mtd) (gs_Methods service) @
      [''}'', []] @
      generateClientStruct G clientName @
      [''func New'' @ clientName @ '' (cc '' @ zrpc_ident G ''ClientInterface'' @ '') '' @ clientName @ '' {''] @
      generateNewClientDefinitions clientName @
      [''}'', []] @
      concat (map (text_genClientMethod G service) (gs_Methods service)) @
      [''// '' @ serverName @ '' is the server API for '' @ gs_GoName service @ '' service'',
       ''// All implementations '' @ mustOrShould G @ '' embed Unimplemented'' @ serverName,
       ''// for forward compatibility.''] @
      genServiceComments G service @
      [''type '' @ serverName @ '' interface {''] @
      map (\<lambda>mtd. comment_text G (gm_Leading mtd) @ serverSignature G mtd) (gs_Methods service) @
      (if requireUnimplemented G then [''mustEmbedUnimplemented'' @ serverName @ ''()''] else []) @
      [''}'', []] @
      generateUnimplementedServerType G service @
      [''// Unsafe'' @ serverName @ '' may be embedded to opt out of forward compatibility for this service.'',
       ''// Use of this interface is not recommended, as added methods to '' @ serverName @ '' will'',
       ''// result in compilation errors.'',
       ''type Unsafe'' @ serverName @ '' interface {'',
       ''mustEmbedUnimplemented'' @ serverName @ ''()'',
       ''}'',
       ''func Register'' @ gs_GoName service @ ''Server(s '' @ zrpc_ident G ''ServiceRegistrar'' @ '', srv '' @ serverName @ '') {'',
       ''// If the following call panics, it indicates Unimplemented'' @ serverName @ '' was'',
       ''// embedded by pointer and is nil.  This will cause panics if an'',
       ''// unimplemented method is ever invoked, so we test this at initialization'',
       ''// time to prevent it from happening at runtime later due to I/O.'',
       ''if t, ok := srv.(interface { testEmbeddedByValue() }); ok {'',
       ''t.testEmbeddedByValue()'',
       ''}'',
       ''s.RegisterService(&'' @ serviceDescVar @ '', srv)'',
       ''}'',
       []] @
      generateServerFunctions G file service serverName serviceDescVar)"

definition generateFileContent :: "genv \<Rightarrow> gen_file \<Rightarrow> string list" where
  "generateFileContent G file =
     (if length (gf_Services file) = 0 then [] else concat (map (genServices G file) (gf_Services file)))"

text \<open>The name of the file that is generated and its lines; nothing for a file without services.\<close>

definition generateFiles :: "genv \<Rightarrow> gen_file \<Rightarrow> (string \<times> string list) option" where
  "generateFiles G file =
     (if length (gf_Services file) = 0 then None
      else Some (gf_Prefix file @ ''_zrpc.pb.go'',
        genLeadingComments G (gf_syntax file) @
        [''// Code generated by protoc-gen-go-zrpc. DO NOT EDIT.'',
         ''// versrions:'',
         ''// -protoc-gen-go-zrpc v0.1.0'',
         ''// -protoc             '' @ protocVersion G,
         []] @
        genLeadingComments G (gf_package file) @
        [''package '' @ gf_GoPackageName file, []] @
        generateFileContent G file))"

text \<open>
  The plugin's \<open>main\<close>: the parameters that protoc passes on go to \<open>Set\<close> of the empty \<open>flags\<close>, which knows no flag; the
  flag \<open>require_unimplemented_servers\<close> is registered with the command line's own flag set after that one is parsed,
  so it keeps its default.
\<close>

definition flags_Set :: "string \<Rightarrow> string + unit" where
  "flags_Set name = Inl (''no such flag -'' @ name)"

fun set_params :: "string list \<Rightarrow> string + unit" where
  "set_params [] = Inr ()"
| "set_params (p # ps) = (case flags_Set p of Inl e \<Rightarrow> Inl e | Inr _ \<Rightarrow> set_params ps)"

fun generate_all :: "genv \<Rightarrow> (bool \<times> gen_file) list \<Rightarrow> (string \<times> string list) list" where
  "generate_all G [] = []"
| "generate_all G ((Generate, f) # fs) =
     (if \<not> Generate then generate_all G fs
      else (case generateFiles G f of None \<Rightarrow> [] | Some out \<Rightarrow> [out]) @ generate_all G fs)"

definition plugin_main :: "genv \<Rightarrow> string list \<Rightarrow> (bool \<times> gen_file) list \<Rightarrow> string + (string \<times> string list) list" where
  "plugin_main G params Files =
     (case set_params params of
        Inl e \<Rightarrow> Inl e
      | Inr _ \<Rightarrow> Inr (generate_all (G\<lparr>requireUnimplemented := True\<rparr>) Files))"

section \<open>Bracket structure\<close>

text \<open>
  A run over the text with the stack of the brackets that are open, \<open>None\<close> when a bracket closes that is not the innermost open one.
  Text is balanced when it leaves every stack as it was.
\<close>

definition bracket :: "char \<Rightarrow> string option \<Rightarrow> string option" where
  "bracket c st =
     (case st of
        None \<Rightarrow> None
      | Some s \<Rightarrow>
          if c \<in> {CHR 0x28, CHR 0x5B, CHR 0x7B} then Some (c # s)
          else if c = CHR 0x29 then (case s of [] \<Rightarrow> None | x # r \<Rightarrow> if x = CHR 0x28 then Some r else None)
          else if c = CHR 0x5D then (case s of [] \<Rightarrow> None | x # r \<Rightarrow> if x = CHR 0x5B then Some r else None)
          else if c = CHR 0x7D then (case s of [] \<Rightarrow> None | x # r \<Rightarrow> if x = CHR 0x7B then Some r else None)
          else Some s)"

definition brackets :: "string \<Rightarrow> string option \<Rightarrow> string option" where
  "brackets s st = fold bracket s st"

definition balanced :: "string \<Rightarrow> bool" where
  "balanced s \<longleftrightarrow> (\<forall>st. brackets s (Some st) = Some st)"

definition plain :: "string \<Rightarrow> bool" where
  "plain s \<longleftrightarrow> (\<forall>c \<in> set s. c \<notin> {CHR 0x28, CHR 0x29, CHR 0x5B, CHR 0x5D, CHR 0x7B, CHR 0x7D})"

lemma brackets_append: "brackets (s @ t) st = brackets t (brackets s st)"
  by (simp add: brackets_def)

lemma plain_brackets: "plain s \<Longrightarrow> brackets s (Some st) = Some st"
  by (induction s) (simp_all add: plain_def brackets_def bracket_def)

lemma brackets_simps [simp]:
  "brackets [] x = x"
  "c \<notin> {CHR 0x28, CHR 0x29, CHR 0x5B, CHR 0x5D, CHR 0x7B, CHR 0x7D} \<Longrightarrow> brackets (c # s) (Some st) = brackets s (Some st)"
  "brackets (CHR 0x28 # s) (Some st) = brackets s (Some (CHR 0x28 # st))"
  "brackets (CHR 0x5B # s) (Some st) = brackets s (Some (CHR 0x5B # st))"
  "brackets (CHR 0x7B # s) (Some st) = brackets s (Some (CHR 0x7B # st))"
  "brackets (CHR 0x29 # s) (Some (CHR 0x28 # st)) = brackets s (Some st)"
  "brackets (CHR 0x5D # s) (Some (CHR 0x5B # st)) = brackets s (Some st)"
  "brackets (CHR 0x7D # s) (Some (CHR 0x7B # st)) = brackets s (Some st)"
  by (simp_all add: brackets_def bracket_def)

definition text_of :: "string list \<Rightarrow> string" where
  "text_of ls = concat (map (\<lambda>l. l @ [CHR 0x0A]) ls)"

lemma text_of_simps [simp]: "text_of [] = []" "text_of (l # ls) = l @ CHR 0x0A # text_of ls" "text_of (ls @ ls') = text_of ls @ text_of ls'"
  by (simp_all add: text_of_def)

lemma plain_simps [simp]: "plain []" "plain (s @ t) \<longleftrightarrow> plain s \<and> plain t"
  "plain (c # s) \<longleftrightarrow> c \<notin> {CHR 0x28, CHR 0x29, CHR 0x5B, CHR 0x5D, CHR 0x7B, CHR 0x7D} \<and> plain s"
  by (auto simp: plain_def)

lemma brackets_plain [simp]: "plain s \<Longrightarrow> brackets (s @ t) (Some st) = brackets t (Some st)"
  by (simp add: brackets_append plain_brackets)

lemma brackets_balanced [simp]: "balanced s \<Longrightarrow> brackets (s @ t) (Some st) = brackets t (Some st)"
  by (simp add: brackets_append balanced_def)

lemma plain_balanced: "plain s \<Longrightarrow> balanced s"
  by (simp add: balanced_def plain_brackets)

lemma balanced_append [intro]: "balanced s \<Longrightarrow> balanced t \<Longrightarrow> balanced (s @ t)"
  by (simp add: balanced_def brackets_append)

lemma balanced_text_concat: "(\<And>x. x \<in> set xs \<Longrightarrow> balanced (text_of (f x))) \<Longrightarrow> balanced (text_of (concat (map f xs)))"
proof (induction xs)
  case Nil
  then show ?case by (simp add: balanced_def)
next
  case (Cons x xs)
  then have "balanced (text_of (f x))" "balanced (text_of (concat (map f xs)))" by simp_all
  then show ?case by (auto intro: balanced_append)
qed

lemma balanced_text_map: "(\<And>x. x \<in> set xs \<Longrightarrow> balanced (f x)) \<Longrightarrow> balanced (text_of (map f xs))"
  using balanced_text_concat [of xs "\<lambda>x. [f x]"] by (simp add: balanced_def brackets_append)

lemma bracket_code:
  "c \<in> {CHR 0x28, CHR 0x29, CHR 0x5B, CHR 0x5D, CHR 0x7B, CHR 0x7D} \<longleftrightarrow> (of_char c :: nat) \<in> {40, 41, 91, 93, 123, 125}"
proof -
  have code: "c = d" if "(of_char c :: nat) = of_char d" for d using that by simp
  show ?thesis
    using code [of "CHR 0x28"] code [of "CHR 0x29"] code [of "CHR 0x5B"] code [of "CHR 0x5D"] code [of "CHR 0x7B"] code [of "CHR 0x7D"]
    by auto
qed

lemma plain_ToLower: "plain s \<Longrightarrow> plain (ToLower s)"
  unfolding plain_def bracket_code by (auto simp: ToLower_def lower_char_def Let_def)

lemma plain_unExport [simp]: "plain s \<Longrightarrow> plain (unExport s)"
proof -
  assume s: "plain s"
  then have "plain (take 1 s)" "plain (drop 1 s)" by (auto simp: plain_def dest: in_set_takeD in_set_dropD)
  then show ?thesis unfolding unExport_def by (simp add: plain_ToLower)
qed

lemma brackets_plain_any: "plain t \<Longrightarrow> brackets t x = x"
  by (cases x) (simp_all add: plain_brackets, induction t, simp_all add: brackets_def bracket_def)

lemma plain_spaces: "(\<And>c. c \<in> set t \<Longrightarrow> is_space c) \<Longrightarrow> plain t"
proof -
  have "is_space c \<Longrightarrow> c \<notin> {CHR 0x28, CHR 0x29, CHR 0x5B, CHR 0x5D, CHR 0x7B, CHR 0x7D}" for c
    unfolding is_space_def by (elim insertE emptyE) simp_all
  then show "(\<And>c. c \<in> set t \<Longrightarrow> is_space c) \<Longrightarrow> plain t" unfolding plain_def by blast
qed

lemma balanced_TrimSpace: "balanced s \<Longrightarrow> balanced (TrimSpace s)"
proof -
  have front: "brackets (dropWhile is_space t) (Some st) = brackets t (Some st)" for t st
  proof -
    have "plain (takeWhile is_space t)" by (rule plain_spaces) (rule conjunct2 [OF set_takeWhileD])
    then show ?thesis by (metis brackets_plain takeWhile_dropWhile_id)
  qed
  have rear: "brackets (rev (dropWhile is_space (rev t))) (Some st) = brackets t (Some st)" for t st
  proof -
    have "t = rev (dropWhile is_space (rev t)) @ rev (takeWhile is_space (rev t))"
      by (metis rev_append rev_rev_ident takeWhile_dropWhile_id)
    moreover have "plain (rev (takeWhile is_space (rev t)))" by (rule plain_spaces) (metis set_rev set_takeWhileD)
    ultimately show ?thesis by (metis brackets_append brackets_plain_any)
  qed
  show "balanced s \<Longrightarrow> balanced (TrimSpace s)" by (simp add: balanced_def TrimSpace_def front rear)
qed

lemma plain_Quote [simp]: "plain s \<Longrightarrow> plain (Quote s)"
proof -
  have "plain s \<Longrightarrow> plain (escape s)" by (induction s) (auto simp: quote_char_def)
  then show "plain s \<Longrightarrow> plain (Quote s)" by (simp add: Quote_def quote_char_def)
qed

lemma plain_FormatInt [simp]: "plain (FormatInt n)"
proof (induction n rule: FormatInt.induct)
  case (1 n)
  have "plain [digit k]" if "k < 10" for k unfolding plain_def bracket_code using that by auto
  with 1 show ?case by (subst FormatInt.simps) auto
qed

section \<open>Balanced text of every printing function\<close>

definition idents_ok :: "genv \<Rightarrow> bool" where
  "idents_ok G \<longleftrightarrow> (\<forall>i. plain (gi_name i) \<longrightarrow> plain (QualifiedGoIdent G i))"

definition method_ok :: "genv \<Rightarrow> gen_method \<Rightarrow> bool" where
  "method_ok G m \<longleftrightarrow> plain (gm_GoName m) \<and> plain (gm_DescName m) \<and> plain (gi_name (gm_Input m)) \<and> plain (gi_name (gm_Output m))
     \<and> balanced (comment_text G (gm_Leading m))"

definition service_ok :: "genv \<Rightarrow> gen_service \<Rightarrow> bool" where
  "service_ok G s \<longleftrightarrow> plain (gs_GoName s) \<and> plain (gs_FullName s) \<and> balanced (comment_text G (gs_Leading s))
     \<and> (\<forall>m \<in> set (gs_Methods s). method_ok G m)"

definition loc_ok :: "genv \<Rightarrow> source_loc \<Rightarrow> bool" where
  "loc_ok G l \<longleftrightarrow> (\<forall>c \<in> set (sl_Detached l). balanced (comment_text G c)) \<and> balanced (comment_text G (sl_Leading l))"

definition file_ok :: "genv \<Rightarrow> gen_file \<Rightarrow> bool" where
  "file_ok G f \<longleftrightarrow> (\<forall>s \<in> set (gf_Services f). service_ok G s) \<and> plain (gf_GoPackageName f) \<and> plain (gf_Path f)
     \<and> loc_ok G (gf_syntax f) \<and> loc_ok G (gf_package f) \<and> plain (protocVersion G)"

lemma ident_plain [simp]:
  assumes "idents_ok G"
  shows "plain n \<Longrightarrow> plain (fmt_ident G n)" "plain n \<Longrightarrow> plain (context_ident G n)" "plain n \<Longrightarrow> plain (zrpc_ident G n)"
    "plain (gi_name i) \<Longrightarrow> plain (QualifiedGoIdent G i)"
  using assms by (simp_all add: idents_ok_def fmt_ident_def context_ident_def zrpc_ident_def)

lemma symbol_plain [simp]:
  "plain (gs_GoName s) \<Longrightarrow> plain (gm_GoName m) \<Longrightarrow> plain (formatFullMethodSymbol s m)"
  "plain (gs_GoName s) \<Longrightarrow> plain (gm_GoName m) \<Longrightarrow> plain (handlerName s m)"
  "plain (mustOrShould G)"
  by (simp_all add: formatFullMethodSymbol_def handlerName_def mustOrShould_def)

lemma balanced_signature:
  assumes "idents_ok G" "method_ok G m"
  shows "balanced (clientSignature G m)" "balanced (serverSignature G m)"
  using assms by (simp_all add: balanced_def clientSignature_def serverSignature_def method_ok_def)

lemma balanced_genClientMethod:
  assumes "idents_ok G" "service_ok G s" "method_ok G m"
  shows "balanced (text_of (text_genClientMethod G s m))"
proof -
  have "brackets (clientSignature G m @ t) (Some st) = brackets t (Some st)" for t st
    using balanced_signature(1) [OF assms(1,3)] by simp
  then show ?thesis using assms by (simp add: balanced_def text_genClientMethod_def method_ok_def service_ok_def)
qed

lemma balanced_genServerMethod:
  assumes "idents_ok G" "service_ok G s" "method_ok G m"
  shows "balanced (text_of (text_genServerMethod G s m))"
  using assms by (simp add: balanced_def text_genServerMethod_def method_ok_def service_ok_def)

lemma balanced_genFullMethods:
  assumes "service_ok G s"
  shows "balanced (text_of (genFullMethods s))"
proof -
  let ?line = "\<lambda>mtd. formatFullMethodSymbol s mtd @ '' = '' @ [quote_char] @ gs_FullName s @ ''/'' @ gm_GoName mtd @ [quote_char]"
  have "balanced (?line m)" if "m \<in> set (gs_Methods s)" for m
    using that assms by (intro plain_balanced) (simp add: service_ok_def method_ok_def quote_char_def)
  then have "balanced (text_of (map ?line (gs_Methods s)))" by (rule balanced_text_map)
  then have "brackets (text_of (map ?line (gs_Methods s)) @ t) (Some st) = brackets t (Some st)" for t st by simp
  then show ?thesis by (simp add: balanced_def genFullMethods_def)
qed

lemma balanced_text_methods:
  assumes "\<forall>(m, h) \<in> set mhs. method_ok G m \<and> plain h"
  shows "balanced (text_of (text_methods mhs))"
  using assms
proof (induction mhs rule: text_methods.induct)
  case 1
  then show ?case by (simp add: balanced_def)
next
  case (2 mtd h rest)
  then have "balanced (text_of (text_methods rest))" by simp
  with 2 show ?case by (simp add: balanced_def method_ok_def)
qed

lemma balanced_genServiceDesc:
  assumes G: "idents_ok G" and s: "service_ok G s" and "plain (gf_Path file)" "plain v" "plain n"
  shows "balanced (text_of (text_genServiceDesc G file v n s (map (handlerName s) (gs_Methods s))))"
proof -
  let ?ms = "text_of (text_methods (zip (gs_Methods s) (map (handlerName s) (gs_Methods s))))"
  have "balanced ?ms"
    using s by (intro balanced_text_methods [of _ G]) (auto simp: service_ok_def method_ok_def set_zip)
  then have "brackets (?ms @ t) (Some st) = brackets t (Some st)" for t st by simp
  with assms show ?thesis by (simp add: balanced_def text_genServiceDesc_def service_ok_def quote_char_def)
qed

lemma balanced_generateUnimplementedServerType:
  assumes G: "idents_ok G" and s: "service_ok G s"
  shows "balanced (text_of (generateUnimplementedServerType G s))"
proof -
  let ?f = "\<lambda>method. [''func (Unimplemented'' @ (gs_GoName s @ ''Server'') @ '') '' @ serverSignature G method @ ''{'',
         ''return '' @ ''nil,'' @ fmt_ident G ''Errorf'' @ ''('' @ [quote_char] @ ''method '' @ gm_GoName method @ '' not implemented'' @ [quote_char] @ '')'',
         ''}'']"
  have "balanced (text_of (?f m))" if "m \<in> set (gs_Methods s)" for m
  proof -
    have m: "method_ok G m" using s that by (simp add: service_ok_def)
    have "brackets (serverSignature G m @ t) (Some st) = brackets t (Some st)" for t st
      using balanced_signature(2) [OF G m] by simp
    with G s m show ?thesis by (simp add: balanced_def service_ok_def method_ok_def quote_char_def)
  qed
  then have "balanced (text_of (concat (map ?f (gs_Methods s))))" by (rule balanced_text_concat)
  then have "brackets (text_of (concat (map ?f (gs_Methods s))) @ t) (Some st) = brackets t (Some st)" for t st by simp
  with s show ?thesis by (simp add: balanced_def generateUnimplementedServerType_def Let_def service_ok_def)
qed

lemma balanced_genServiceComments: "service_ok G s \<Longrightarrow> balanced (text_of (genServiceComments G s))"
  using balanced_TrimSpace [of "comment_text G (gs_Leading s)"]
  by (simp add: genServiceComments_def service_ok_def balanced_def brackets_append)

lemma balanced_genLeadingComments:
  assumes "loc_ok G l"
  shows "balanced (text_of (genLeadingComments G l))"
proof -
  let ?f = "\<lambda>s. [comment_text G s, []]"
  have "balanced (text_of (concat (map ?f (sl_Detached l))))"
    using assms by (intro balanced_text_concat) (simp add: loc_ok_def balanced_def brackets_append)
  moreover have "balanced (text_of (if sl_Leading l \<noteq> [] then [comment_text G (sl_Leading l), []] else []))"
    using assms by (simp add: loc_ok_def balanced_def brackets_append)
  ultimately show ?thesis unfolding genLeadingComments_def text_of_simps by (rule balanced_append)
qed

lemma balanced_interface:
  assumes G: "idents_ok G" and s: "service_ok G s"
  shows "balanced (text_of (map (\<lambda>mtd. comment_text G (gm_Leading mtd) @ clientSignature G mtd) (gs_Methods s)))"
    "balanced (text_of (map (\<lambda>mtd. comment_text G (gm_Leading mtd) @ serverSignature G mtd) (gs_Methods s)))"
proof -
  have m: "method_ok G m" if "m \<in> set (gs_Methods s)" for m using s that by (simp add: service_ok_def)
  have "balanced (comment_text G (gm_Leading m))" if "m \<in> set (gs_Methods s)" for m
    using m [OF that] by (simp add: method_ok_def)
  then show "balanced (text_of (map (\<lambda>mtd. comment_text G (gm_Leading mtd) @ clientSignature G mtd) (gs_Methods s)))"
    "balanced (text_of (map (\<lambda>mtd. comment_text G (gm_Leading mtd) @ serverSignature G mtd) (gs_Methods s)))"
    using balanced_signature [OF G m] by (auto intro!: balanced_text_map)
qed

lemma balanced_generateServerFunctions:
  assumes G: "idents_ok G" and s: "service_ok G s" and "plain (gf_Path file)" "plain n" "plain v"
  shows "balanced (text_of (generateServerFunctions G file s n v))"
proof -
  have "balanced (text_of (concat (map (text_genServerMethod G s) (gs_Methods s))))"
    using s by (intro balanced_text_concat balanced_genServerMethod [OF G s]) (simp add: service_ok_def)
  with balanced_genServiceDesc [OF G s] assms show ?thesis
    unfolding generateServerFunctions_def text_of_simps by (intro balanced_append) auto
qed

lemma balanced_genServices:
  assumes G: "idents_ok G" and s: "service_ok G s" and path: "plain (gf_Path file)"
  shows "balanced (text_of (genServices G file s))"
proof -
  have n: "plain (gs_GoName s)" using s by (simp add: service_ok_def)
  have cm: "balanced (text_of (concat (map (text_genClientMethod G s) (gs_Methods s))))"
    using s by (intro balanced_text_concat balanced_genClientMethod [OF G s]) (simp add: service_ok_def)
  have sf: "balanced (text_of (generateServerFunctions G file s (gs_GoName s @ ''Server'') (gs_GoName s @ ''_ServiceDesc'')))"
    using n by (intro balanced_generateServerFunctions [OF G s path]) simp_all
  note parts = balanced_genFullMethods [OF s] balanced_genServiceComments [OF s] balanced_interface [OF G s] cm
    balanced_generateUnimplementedServerType [OF G s] sf
  note steps = parts [THEN brackets_balanced]
  have sf': "brackets (text_of (generateServerFunctions G file s (gs_GoName s @ ''Server'') (gs_GoName s @ ''_ServiceDesc''))) (Some st) = Some st" for st
    using sf by (simp add: balanced_def)
  show ?thesis using n G unfolding balanced_def genServices_def Let_def generateClientStruct_def generateNewClientDefinitions_def
    by (simp add: steps sf')
qed

lemma balanced_generateFiles:
  assumes G: "idents_ok G" and f: "file_ok G file" and out: "generateFiles G file = Some (fn, ls)"
  shows "balanced (text_of ls)"
proof -
  have "balanced (text_of (generateFileContent G file))"
    using f unfolding generateFileContent_def
    by (auto simp: balanced_def [of "[]"] file_ok_def intro!: balanced_text_concat balanced_genServices [OF G])
  then have 1: "brackets (text_of (generateFileContent G file)) (Some st) = Some st" for st by (simp add: balanced_def)
  have "loc_ok G (gf_syntax file)" "loc_ok G (gf_package file)" using f by (simp_all add: file_ok_def)
  note 2 = this [THEN balanced_genLeadingComments, THEN brackets_balanced]
  from out have "ls = genLeadingComments G (gf_syntax file) @
        [''// Code generated by protoc-gen-go-zrpc. DO NOT EDIT.'', ''// versrions:'', ''// -protoc-gen-go-zrpc v0.1.0'',
         ''// -protoc             '' @ protocVersion G, []] @
        genLeadingComments G (gf_package file) @ [''package '' @ gf_GoPackageName file, []] @ generateFileContent G file"
    by (simp add: generateFiles_def split: if_splits)
  with f 1 2 show ?thesis by (simp add: balanced_def file_ok_def)
qed

lemma generate_all_files:
  assumes "idents_ok G" and "\<forall>(Generate, f) \<in> set Files. file_ok G f"
  shows "map fst (generate_all G Files) = map (\<lambda>(Generate, f). gf_Prefix f @ ''_zrpc.pb.go'') (filter (\<lambda>(Generate, f). Generate \<and> gf_Services f \<noteq> []) Files)
    \<and> (\<forall>(fn, ls) \<in> set (generate_all G Files). balanced (text_of ls))"
  using assms(2)
proof (induction Files)
  case Nil
  then show ?case by simp
next
  case (Cons p Files)
  obtain g f where p: "p = (g, f)" by fastforce
  have "file_ok G f" using Cons.prems by (simp add: p)
  then have "\<And>fn ls. generateFiles G f = Some (fn, ls) \<Longrightarrow> balanced (text_of ls)" by (rule balanced_generateFiles [OF assms(1)])
  moreover have "map fst (case generateFiles G f of None \<Rightarrow> [] | Some out \<Rightarrow> [out]) = (if gf_Services f \<noteq> [] then [gf_Prefix f @ ''_zrpc.pb.go''] else [])"
    by (simp add: generateFiles_def)
  ultimately show ?case using Cons by (auto simp: p split: option.splits if_splits)
qed

text \<open>
  \<^bold>\<open>C38\<close>: the plugin generates, without parameters, one file for every file to generate that has a service, in order, and the
  brackets of every generated file are balanced and properly nested, for names without brackets and comments whose
  brackets are balanced, whatever the services, methods and the compiler's version are.
\<close>

theorem generated_text_balanced:
  assumes "idents_ok G" and "\<forall>(Generate, f) \<in> set Files. file_ok G f"
  shows "\<exists>outs. plugin_main G [] Files = Inr outs
    \<and> map fst outs = map (\<lambda>(Generate, f). gf_Prefix f @ ''_zrpc.pb.go'') (filter (\<lambda>(Generate, f). Generate \<and> gf_Services f \<noteq> []) Files)
    \<and> (\<forall>(fn, ls) \<in> set outs. balanced (text_of ls))"
proof -
  let ?G = "G\<lparr>requireUnimplemented := True\<rparr>"
  have "idents_ok ?G" using assms(1) by (simp add: idents_ok_def)
  moreover have "file_ok ?G f = file_ok G f" for f
    by (simp add: file_ok_def service_ok_def method_ok_def loc_ok_def protocVersion_def)
  ultimately show ?thesis using generate_all_files [of ?G Files] assms(2) by (simp add: plugin_main_def)
qed

definition demo_genv :: genv where
  "demo_genv = \<lparr>QualifiedGoIdent = gi_name, comment_text = (\<lambda>c. ''//'' @ c), requireUnimplemented = False,
     compilerVersion = Some (5, 29, 0, ''rc1'')\<rparr>"

definition demo_file :: gen_file where
  "demo_file = \<lparr>gf_Services = [\<lparr>gs_GoName = ''Greeter'', gs_FullName = ''demo.Greeter'', gs_Leading = '' says (hello)'',
       gs_Methods = [\<lparr>gm_GoName = ''SayHello'', gm_DescName = ''say_hello'',
         gm_Input = \<lparr>gi_path = ''demo'', gi_name = ''Req''\<rparr>, gm_Output = \<lparr>gi_path = ''demo'', gi_name = ''Resp''\<rparr>, gm_Leading = []\<rparr>]\<rparr>],
     gf_Prefix = ''demo'', gf_GoPackageName = ''demo'', gf_Path = ''demo.proto'',
     gf_syntax = \<lparr>sl_Detached = [], sl_Leading = []\<rparr>, gf_package = \<lparr>sl_Detached = [], sl_Leading = []\<rparr>\<rparr>"

theorem generated_text_balanced_witness:
  "\<exists>ls. plugin_main demo_genv [] [(True, demo_file), (False, demo_file)] = Inr [(''demo_zrpc.pb.go'', ls)] \<and> balanced (text_of ls)"
proof -
  have "idents_ok demo_genv" by (simp add: idents_ok_def demo_genv_def)
  moreover have "file_ok demo_genv demo_file"
    by (simp add: file_ok_def demo_genv_def demo_file_def service_ok_def method_ok_def loc_ok_def balanced_def protocVersion_def)
  ultimately show ?thesis
    using generated_text_balanced [of demo_genv "[(True, demo_file), (False, demo_file)]"]
    by (auto simp: demo_file_def)
qed

text \<open>A parameter of the plugin is refused, so \<open>require_unimplemented_servers\<close> cannot be turned off.\<close>

lemma plugin_params_rejected:
  "plugin_main G (''require_unimplemented_servers'' # ps) Files = Inl ''no such flag -require_unimplemented_servers''"
  by (simp add: plugin_main_def flags_Set_def)

text \<open>Two different methods of one package can get the same handler function, which Go then refuses to compile.\<close>

lemma handlerName_collision:
  "handlerName (s\<lparr>gs_GoName := ''A_B''\<rparr>) (m\<lparr>gm_GoName := ''C''\<rparr>) = handlerName (s\<lparr>gs_GoName := ''A''\<rparr>) (m\<lparr>gm_GoName := ''B_C''\<rparr>)"
  by (simp add: handlerName_def)

text \<open>Within a service, different methods have different handlers and constants.\<close>

lemma handlerName_inj: "handlerName s m = handlerName s m' \<longleftrightarrow> gm_GoName m = gm_GoName m'"
  by (simp add: handlerName_def)

end
