(* ===== verification/Spec2Isabelle.thy ===== *)
theory Spec2Isabelle
  imports Client_Props Server_Props ServerStop_Props Buffer_Safety Tracing EtcdRegistry Generator
begin

text \<open>
  Verification of zRPC, an RPC framework in Go: a client with pooled connections, a server with
  a pool of workers, the wire protocol between them, service registries and discovery, and
  what surrounds them (metadata, compression, buffers, tracing, the protoc plugin).

  \<^bold>\<open>How the program works.\<close> A generated client method calls \<open>Invoke\<close> (\<^verbatim>\<open>call.go\<close>). It runs
  the chain of middlewares around \<open>invoke\<close>, which tags the context with the stats handlers and
  then tries up to \<open>maxRetries + 1\<close> times: it asks discovery for an address, borrows a
  connection from the pool of that address, marshals the request, stamps it with a sequence
  number, stores the call as pending, writes one frame and reads one frame back. The server
  (\<^verbatim>\<open>server.go\<close>) reads frames from a connection one after the other, authenticates each request, and
  runs it directly or through the worker pool; the handler decodes its argument, runs the
  server's middlewares and the method, and the server writes one response frame. Servers announce
  themselves to a registry, over TCP or in etcd, where discovery finds them.

  \<^bold>\<open>The theories.\<close>

  \<^item> \<open>Prelude\<close>: bytes and little-endian words, Go errors (\<open>goerr\<close>), \<open>outcome\<close> (a value, an error or
    a panic), decimal printing and parsing, lower case, association lists for Go maps, and
    \<open>reach\<close> with the locale \<open>invariant_system\<close>, which every interleaving argument below instantiates.
  \<^item> \<open>Metadata\<close> (\<^verbatim>\<open>metadata/metadata.go\<close>): \<open>MD\<close>, its operations and the context slots. Locale
    \<open>header_store\<close> has the lookup laws.
  \<^item> \<open>Timeout\<close> (\<^verbatim>\<open>protocol/timeout.go\<close>): the timeout header on 64-bit durations.
  \<^item> \<open>Wire_Header\<close>, \<open>Compress\<close>, \<open>Wire_Message\<close> (\<^verbatim>\<open>protocol/message.go\<close>, \<^verbatim>\<open>protocol/compress.go\<close>,
    \<^verbatim>\<open>protocol/util.go\<close>): header bits, compressors, \<open>Encode\<close> at a running offset in a recycled buffer, \<open>Decode\<close> on
    a stream of bytes. \<open>Wire_Codec\<close> proves the encoder equal to a reference layout and the
    decoder inverse to it; \<open>Wire_Safety\<close> treats arbitrary bytes, truncated frames and streams of
    frames (locale \<open>framing\<close>).
  \<^item> \<open>Registry\<close>, \<open>TcpRegistry\<close> (\<^verbatim>\<open>registry/\<close>): the registry, refined to a flat directory
    (locale \<open>service_directory\<close>), and its TCP server and client.
  \<^item> \<open>Discovery\<close> (\<^verbatim>\<open>discovery/\<close>): the three implementations, sharing the locale \<open>round_robin\<close>;
    \<open>EtcdRegistry\<close> (\<^verbatim>\<open>discovery/etcd/registry.go\<close>): registration in etcd and its lease.
  \<^item> \<open>ConnPool\<close> (\<^verbatim>\<open>clientconn.go\<close>): connections and the pool with its hot and cold queues.
  \<^item> \<open>Middleware\<close> (\<^verbatim>\<open>client.go\<close>, \<^verbatim>\<open>call.go\<close>, \<^verbatim>\<open>server.go\<close>, \<^verbatim>\<open>middleware.go\<close>): both chains.
  \<^item> \<open>Codec\<close> (\<^verbatim>\<open>codec/codec.go\<close>): marshalling over the protobuf library.
  \<^item> \<open>ClientOption\<close>, \<open>Client_Call\<close> (\<^verbatim>\<open>client_option.go\<close>, \<^verbatim>\<open>client.go\<close>, \<^verbatim>\<open>call.go\<close>), with
    properties in \<open>Client_Props\<close>: the record \<open>Client\<close> has the fields of the struct, the bytes that arrive on
    and were written to each connection, and the log of stats events.
  \<^item> \<open>WorkerPool\<close>, \<open>ServerOption\<close>, \<open>Server\<close> (\<^verbatim>\<open>server.go\<close>, \<^verbatim>\<open>server_option.go\<close>, \<^verbatim>\<open>service.go\<close>,
    \<^verbatim>\<open>listener.go\<close>), with properties in \<open>Server_Props\<close>. \<open>Server\<close> also models what generated
    handlers, method names and service descriptions do.
  \<^item> \<open>ServerStop\<close> (\<^verbatim>\<open>server.go\<close>: \<open>serveListener\<close>, \<open>serveConn\<close>, \<open>removeConn\<close>, \<open>stop\<close>), with properties in
    \<open>ServerStop_Props\<close>: the same functions with their goroutines interleaved, each waiting for the mutex, the wait
    group, the condition variable, a channel or a timer.
  \<^item> \<open>BufferPool\<close>, \<open>Buffers\<close> (\<^verbatim>\<open>mem/\<close>): a store \<open>mem\<close> with arrays, buffer objects, reference
    counters and their recycling pools. \<open>Buffers_Inv\<close> has the invariant \<open>rc\<close>, which ties every counter to the
    references users hold; \<open>Buffers_Props\<close> and \<open>Buffers_Copy\<close> show what each
    operation does under it; \<open>Buffer_Safety\<close> has the step relation and the properties.
  \<^item> \<open>Tracing\<close> (\<^verbatim>\<open>contrib/tracing/\<close>): configuration, filters, the metadata carrier and the stats
    handlers, whose calls to OpenTelemetry are a list.
  \<^item> \<open>Generator\<close> (\<^verbatim>\<open>cmd/protoc-gen-go-zrpc/\<close>): the lines of text that the plugin prints.
  \<^item> This theory: a call that goes through client, wire and server.

  \<^bold>\<open>What is shown.\<close> The main results carry a number where they stand.

  \<^item> Wire: round trips of one frame and of a stream, soundness of the decoder on any bytes, exact
    errors for truncated frames, independence of the header's bit fields, round trip and bounds of timeouts,
    round trip of metadata through a context.
  \<^item> Registry: refinement of the directory, a registration is kept while its lease runs and goes
    when it is silent, visibility over TCP.
  \<^item> Connections: the pool's invariant under any interleaving, what \<open>Close\<close> leaves, and the slots that failed
    sends use up for good.
  \<^item> Client: the frame and the lengths that \<open>sendMsg\<close> writes and reports, delivery by \<open>recvMsg\<close>, the pending
    table under any interleaving, the bound on attempts, the late reply of an abandoned call that the
    next call receives, closing.
  \<^item> Server: one response per handled request, isolation of requests and of panics,
    authentication, unknown targets, the queue of the workers; shutdown ends with every connection
    closed as long as no timer fires, and never ends after the timer of \<open>removeConn\<close> has fired at a bad moment.
  \<^item> Buffers: exclusive use of what the pool hands out, safety of reference counting, the slice reader as
    a reader on the concatenated bytes, copies, and \<open>ReadAll\<close>, which returns for every reader
    that ends.
  \<^item> Tracing and generator: the trace context that the server extracts is the one that the client injected;
    balanced text of every generated file, and agreement of the generated names.

  Further theorems without a number show, among others, the byte layout that \<open>Encode\<close> writes, fairness of
  round robin, the metadata value count that wraps at 256, heartbeats that are never sent,
  exact counts of the tracing handlers, a closed client that returns no reply, options shared between servers, worker pools that are too small to start a worker, and the counter
  of workers running ahead.

  \<^bold>\<open>Parameters.\<close> Code outside the repository is an argument: gzip (\<open>gzip_lib\<close> with hypothesis \<open>gzip_ok\<close>: what is
  compressed decompresses to itself), protobuf (\<open>proto_lib\<close>, \<open>proto_ok\<close>), JSON, the etcd client (\<open>etcd_ok\<close>: puts, deletes
  and leases act on a map of keys), OpenTelemetry (\<open>span_ok\<close>: an ended span is not recording), the
  protobuf compiler's names (\<open>idents_ok\<close>), \<open>sync.Pool\<close> (any object it holds, or a new one), clocks, random
  numbers, dialling and the peer's answers. Concrete instances (a run-length compressor, a raw codec, a map of keys)
  satisfy the hypotheses in the witnesses.

  \<^bold>\<open>Loops and bounds.\<close> Loops over lists are structural. \<open>serve_stream\<close> ends because every frame shortens the stream,
  \<open>decode_meta\<close>, the chain functions, \<open>read_loop\<close> and \<open>clear_empty\<close> have measures. \<open>retry_loop\<close> counts the
  \<open>maxRetries + 1\<close> attempts and \<open>get_wait\<close> the five polls of the code. \<open>read_frames\<close>, which only states what a stream
  of frames is, takes the number of frames as fuel. \<open>ReadAll_loop\<close> may run forever on a reader that never
  ends, so it is a partial function, and its theorem shows that it returns. Sequence numbers, lengths,
  header bytes and durations have their machine width; counters such as reference counts and workers are
  unbounded, which their invariants justify or the number of objects in memory does.

  \<^bold>\<open>Concurrency.\<close> Operations that hold a mutex are atomic. The registries, the connection pool, the client's table, the
  worker queue, the buffer store and the shutdown are step relations over all interleavings of these operations. A request
  is processed as one step, because it only shares its connection's mutex and the log with others.

  \<^bold>\<open>Not modelled.\<close> \<^verbatim>\<open>reflection/server.go\<close> (an empty function); \<^verbatim>\<open>share/context.go\<close> (a context value holding a
  connection, an explicit argument here); log output; TLS and dialling; a second call
  of \<open>stop\<close>; the cancellation of the request context when \<open>serveRequest\<close> returns, of
  which only the deadline is kept; fields of \<open>PoolMetrics\<close> that nothing reads; times and addresses in
  stats events; symbol annotations and formatting of
  generated files; races between accesses without a lock.
\<close>

section \<open>A call from end to end\<close>

text \<open>
  The server as the peer of a client: the bytes of one frame arrive on connection \<open>sconn\<close>,
  and what the server writes there comes back.
\<close>

definition server_peer ::
  "'v proto_lib \<Rightarrow> gzip_lib \<Rightarrow> (nat \<Rightarrow> bytes) \<Rightarrow> ('h \<Rightarrow> string \<Rightarrow> ctx \<Rightarrow> ctx) \<Rightarrow> bool \<Rightarrow> time \<Rightarrow> ctx \<Rightarrow> nat \<Rightarrow> ('v, 'h) Server \<Rightarrow> peer" where
  "server_peer lib gz bufs tagRPC cas now scx sconn s buf =
     Inr (drop (length (outbox s sconn))
            (outbox (snd (serve_stream lib gz bufs tagRPC True cas now scx sconn buf s)) sconn))"

text \<open>The result of a handler does not depend on the events it causes.\<close>

primrec handler_result :: "('v \<Rightarrow> goerr + 'v) \<Rightarrow> 'v hprog \<Rightarrow> 'v method_result" where
  "handler_result df (Done r) = r"
| "handler_result df (Dec v k) = handler_result df (k (df v))"

lemma run_handler_result: "fst (run_handler df ev h s) = handler_result df h"
proof (induction h arbitrary: s)
  case (Dec v k)
  show ?case using Dec.IH [OF rangeI [of k "df v"]] by (cases "df v") auto
qed simp

lemma decode_request_payload: "Payload req = Payload req' \<Longrightarrow> decode_request lib bufs req = decode_request lib bufs req'"
  by (simp add: decode_request_def fun_eq_iff)

lemma prepared_view:
  assumes "prepareMessage lib bufs now cx call = Ok req"
  shows "f_type (header_view (Hdr req)) = Request" "f_status (header_view (Hdr req)) = Normal"
    "\<not> f_heartbeat (header_view (Hdr req))"
proof -
  have b: "is_bit Request" "is_bit Gzip" by (simp_all add: is_bit_def Request_def Gzip_def)
  have n: "header_view NewHeader = \<lparr>f_magic = 0x26, f_version = 0, f_type = 0, f_status = 0, f_heartbeat = False,
      f_compress = 0, f_seq = 0\<rparr>" by code_simp
  note v1 = view_SetMessageType [OF header_ok_NewHeader b(1)]
  have "header_ok (SetMessageType NewHeader Request)" by simp
  note v2 = view_SetCompressType [OF this b(2)]
  have "Hdr req = SetMessageType NewHeader Request \<or> Hdr req = SetCompressType (SetMessageType NewHeader Request) Gzip"
    using assms by (auto simp: prepareMessage_def NewMessage_def Let_def split: sum.splits outcome.splits if_splits)
  then show "f_type (header_view (Hdr req)) = Request" "f_status (header_view (Hdr req)) = Normal"
    "\<not> f_heartbeat (header_view (Hdr req))"
    by (auto simp: v1 v2 n Normal_def simp del: header_view_sel)
qed

lemma stamped_view:
  assumes "header_ok (Hdr req)" "ServiceName req \<noteq> []"
  shows "header_view (Hdr (stamped sq req)) = (header_view (Hdr req))\<lparr>f_seq := sq\<rparr>"
  using assms by (simp add: stamped_def view_SetSeq del: header_view_sel)

text \<open>The payload of the response is the encoding of the reply.\<close>

lemma response_payload:
  assumes "Marshal lib bufs w = Inr [bs]" "Payload res = []"
  shows "Payload (response_message lib bufs o1 oe req res (Some w)) = bs"
    "\<exists>h. Hdr (response_message lib bufs o1 oe req res (Some w)) = h \<and> (h = Hdr res \<or> h = SetCompressType (Hdr res) (GetCompressType (Hdr req)))"
  using assms by (auto simp: response_message_def Let_def slice_Len_def Materialize_concat)

lemma reply_head_payload: "Payload (reply_head o1 req None mds) = []"
proof -
  have "Payload (fold (\<lambda>md r. SetMeta r md) mds res) = Payload res" for res
    by (induction mds arbitrary: res) (simp_all add: SetMeta_def)
  then show ?thesis by (simp add: reply_head_def Let_def Clone_def NewMessage_def)
qed

lemma reply_head_view:
  assumes "header_ok (Hdr req)"
  shows "header_view (Hdr (reply_head o1 req None mds)) = (header_view (Hdr req))\<lparr>f_compress := None_compress, f_type := Response\<rparr>"
proof -
  have b: "is_bit None_compress" "is_bit Response" by (simp_all add: is_bit_def None_compress_def Response_def)
  have h: "header_ok (SetCompressType (Hdr req) None_compress)" using assms by simp
  show ?thesis
    by (simp add: reply_head_def Let_def SetMeta_fold_Hdr Clone_def view_SetMessageType [OF h b(2)]
        view_SetCompressType [OF assms b(1)] del: header_view_sel)
qed

lemma response_view:
  assumes "header_ok (Hdr rq)" "Marshal lib bufs w = Inr [bs]" "GetMessageStatusType (Hdr rq) = Normal"
    and r_def: "r = response_message lib bufs o1 None rq (reply_head o1 rq None mds) (Some w)"
  shows "GetMessageType (Hdr r) = Response" "GetMessageStatusType (Hdr r) = Normal" "GetSeq (Hdr r) = GetSeq (Hdr rq)"
    "Payload r = bs"
proof -
  note rp = response_payload [OF assms(2) reply_head_payload, of o1 None rq o1 rq mds, folded r_def]
  have h: "header_ok (Hdr (reply_head o1 rq None mds))" using assms(1) by (rule reply_head_ok)
  note v = reply_head_view [OF assms(1), of o1 mds]
  have "f_type (header_view (Hdr (reply_head o1 rq None mds))) = Response"
    "f_status (header_view (Hdr (reply_head o1 rq None mds))) = f_status (header_view (Hdr rq))"
    "f_seq (header_view (Hdr (reply_head o1 rq None mds))) = f_seq (header_view (Hdr rq))"
    by (simp_all add: v del: header_view_sel)
  then show "GetMessageType (Hdr r) = Response" "GetMessageStatusType (Hdr r) = Normal" "GetSeq (Hdr r) = GetSeq (Hdr rq)"
    using rp(2) assms(3) compress_other_fields [OF h is_bit_getters(3)] by auto
  show "Payload r = bs" by (rule rp(1))
qed

lemma serve_stream_frame:
  assumes "sendable gz bufs (so_maxReceiveMessageSize (s_opt s)) m" "\<not> IsHeartBeat (Hdr m)" "\<not> inShutdown s"
    and srv: "s_pool s = None" "AuthFunc (s_opt s) = None" "map_of (serviceMap s) (ServiceName m) = Some ms"
      "map_of ms (ServiceMethod m) = Some h"
    and res: "\<And>cx. handler_result (decode_request lib bufs m) (h cx (srvMiddleware (s_opt s))) = Returns rep None mds"
  shows "\<exists>rq. received_as m rq \<and> header_ok (Hdr rq) \<and>
    server_peer lib gz bufs tagRPC cas now scx sconn s (frame_of gz bufs m) =
      Inr (frame_of gz bufs (response_message lib bufs (s_opt s) None rq (reply_head (s_opt s) rq None mds) rep))"
proof -
  from wire.dec_enc [OF assms(1), of "[]"] obtain rq where rq: "received_as m rq"
    and d: "Decode gz (so_maxReceiveMessageSize (s_opt s)) (frame_of gz bufs m) NewMessage = (None, rq, [])" by auto
  from rq obtain ct where ct: "is_bit ct" "rq = m\<lparr>Hdr := SetCompressType (Hdr m) ct, Metadata := Some (entries m)\<rparr>"
    by (auto simp: received_as_def)
  have hm: "header_ok (Hdr m)" using assms(1) by (simp add: sendable_def wire_ok_def)
  then have ok: "header_ok (Hdr rq)" by (simp add: ct)
  have "f_heartbeat (header_view (Hdr rq)) = f_heartbeat (header_view (Hdr m))"
    by (simp add: ct view_SetCompressType [OF hm ct(1)] del: header_view_sel)
  then have hb: "\<not> IsHeartBeat (Hdr rq)" using assms(2) by simp
  have f: "ServiceName rq = ServiceName m" "ServiceMethod rq = ServiceMethod m" "Payload rq = Payload m" by (simp_all add: ct)
  obtain cx2 s1 where s1: "s_opt s1 = s_opt s" "outbox s1 = outbox s" "s_pool s1 = s_pool s" "serviceMap s1 = serviceMap s"
    and sr: "serveRequest lib gz bufs tagRPC True cas now scx rq sconn s =
      (case auth (s_opt s) cx2 rq of
         Panic \<Rightarrow> (Panic, s1) | Fail e \<Rightarrow> (Fail e, s1)
       | Ok (Some err) \<Rightarrow>
           (case srv_sendResponse lib gz bufs True sconn (Some err) rq (reply_head (s_opt s) rq (Some err) []) None s1 of
              None \<Rightarrow> (Panic, s1) | Some s \<Rightarrow> (Ok (), s))
       | Ok None \<Rightarrow> dispatch_request lib gz bufs True cas (cx2, rq, sconn) s1)"
    by (rule serveRequest_eq [OF hb])
  let ?s2 = "processOneRequest lib gz bufs True (cx2, rq, sconn) s1"
  have sr2: "serveRequest lib gz bufs tagRPC True cas now scx rq sconn s = (Ok (), ?s2)"
    using sr srv(1,2) s1 by (simp add: auth_def dispatch_request_def)
  have rd: "readRequest gz (s_opt s) (frame_of gz bufs m) = (Inr rq, [])" by (simp add: readRequest_def d)
  have rd0: "readRequest gz o1 [] = (Inl EOF, [])" for o1 :: "(ctx, 'a, 'a method_result, 'b) serverOption"
    by (simp add: readRequest_def Decode_def ReadFull_def)
  have "serve_stream lib gz bufs tagRPC True cas now scx sconn (frame_of gz bufs m) s =
      serve_stream lib gz bufs tagRPC True cas now scx sconn [] ?s2"
    using assms(3) rd sr2 by (subst serve_stream.simps) simp
  also have "\<dots> = (Ok (), ?s2)" using rd0 by (subst serve_stream.simps) simp
  finally have ss: "serve_stream lib gz bufs tagRPC True cas now scx sconn (frame_of gz bufs m) s = (Ok (), ?s2)" .
  have dq: "decode_request lib bufs rq = decode_request lib bufs m" by (rule decode_request_payload [OF f(3)])
  have "sized bufs" using assms(1) by (simp add: sendable_def)
  moreover have "fst (run_handler (decode_request lib bufs rq) (in_event gz rq) (h cx2 (srvMiddleware (s_opt s1))) s0) = Returns rep None mds"
    for s0 :: "('a, 'b) Server"
    using res s1(1) by (simp add: run_handler_result dq)
  ultimately have "outbox ?s2 sconn = outbox s1 sconn
      @ frame_of gz bufs (response_message lib bufs (s_opt s1) None rq (reply_head (s_opt s1) rq None mds) rep)"
    using ok hb srv(3,4) f s1(4) by (intro processOneRequest_outbox) simp_all
  with rq ok ss s1 show ?thesis by (auto simp: server_peer_def)
qed

text \<open>
  One exchange: the client's request, marshalled, framed and stamped, is
  decoded by the server and handed to the method's handler; the reply the handler returns
  is marshalled, framed, and decoded by the client as the result of this very call, which
  leaves the pending table as it was.
\<close>

lemma exchange_end_to_end:
  assumes "\<not> closing c" and "\<not> shutdown c" and "inbox c conn = []"
    and "map_of (pending c) (sequence c + 1) = None"
    and "prepareMessage lib bufs (at_now a) cx call = Ok req" and "Call_ServiceName call \<noteq> []"
    and "at_peer a = server_peer lib gz bufs tagRPC cas now scx sconn s"
    and "pool_put (fst (at_put a)) (snd (at_put a)) (snd conn) p = Ok p'"
    and "sendable gz bufs (so_maxReceiveMessageSize (s_opt s)) (stamped (sequence c + 1) req)"
    and "\<forall>rq. received_as (stamped (sequence c + 1) req) rq \<longrightarrow> sendable gz bufs (co_maxReceiveMessageSize (opt c))
           (response_message lib bufs (s_opt s) None rq (reply_head (s_opt s) rq None mds) (Some w))"
    and "\<not> inShutdown s" and "s_pool s = None" and "AuthFunc (s_opt s) = None"
    and "map_of (serviceMap s) (Call_ServiceName call) = Some ms" and "map_of ms (Call_ServiceMethod call) = Some h"
    and "\<forall>hcx. handler_result (decode_request lib bufs req) (h hcx (srvMiddleware (s_opt s))) = Returns (Some w) None mds"
    and "proto_ok lib w" and "messageV2Of lib v0"
  shows "\<exists>c'. exchange lib gz bufs a cx conn p call v0 c = (Ok (Inr w), c')
    \<and> (\<forall>sq. map_of (pending c') sq = map_of (pending c) sq) \<and> inbox c' conn = []"
proof -
  let ?m = "stamped (sequence c + 1) req"
  note pf = prepareMessage_fields [OF assms(5)]
  have sz: "sized bufs" using assms(9) by (simp add: sendable_def)
  have sn: "ServiceName req \<noteq> []" using pf(2) assms(6) by simp
  note mv = stamped_view [OF pf(1) sn, of "sequence c + 1"] and pv = prepared_view [OF assms(5)]
  have hm: "header_ok (Hdr ?m)" using pf(1) by (rule stamped_ok)
  have "\<not> f_heartbeat (header_view (Hdr ?m))" using mv pv by (simp del: header_view_sel)
  then have hb: "\<not> IsHeartBeat (Hdr ?m)" by simp
  have dq: "decode_request lib bufs ?m = decode_request lib bufs req" by (rule decode_request_payload) simp
  obtain rq where rq: "received_as ?m rq" "header_ok (Hdr rq)"
    and peer: "at_peer a (frame_of gz bufs ?m) =
      Inr (frame_of gz bufs (response_message lib bufs (s_opt s) None rq (reply_head (s_opt s) rq None mds) (Some w)))"
    using serve_stream_frame [OF assms(9) hb assms(11-13), of ms h lib "Some w" mds tagRPC cas now scx sconn]
      assms(7,14-16) pf(2,3) dq by auto
  define r where "r = response_message lib bufs (s_opt s) None rq (reply_head (s_opt s) rq None mds) (Some w)"
  obtain bs where bs: "Marshal lib bufs w = Inr [bs]" "proto_Unmarshal lib bs = Inr w" using codec_bytes [OF sz assms(17)] by blast
  from rq(1) obtain ct where ct: "is_bit ct" "Hdr rq = SetCompressType (Hdr ?m) ct" by (auto simp: received_as_def)
  have "f_status (header_view (Hdr ?m)) = Normal" "f_seq (header_view (Hdr ?m)) = sequence c + 1"
    using mv pv by (simp_all del: header_view_sel)
  then have st: "GetMessageStatusType (Hdr rq) = Normal" "GetSeq (Hdr rq) = sequence c + 1"
    using compress_other_fields [OF hm ct(1)] ct(2) by simp_all
  note rv = response_view [OF rq(2) bs(1) st(1) r_def, unfolded st(2)]
  obtain m' q where ch: "choose_payload gz ?m = (m', q)" by fastforce
  from Encode_layout [OF sz hm ch] have fr: "frame_of gz bufs ?m = layout m' q" by (simp add: frame_of_def)
  note send = sendMsg_ok [OF sz assms(5,1,2) ch, of "at_peer a" "frame_of gz bufs r" conn]
  define c1 where "c1 = snd (sendMsg lib gz bufs (at_now a) (at_peer a) cx conn call c)"
  have c1: "sendMsg lib gz bufs (at_now a) (at_peer a) cx conn call c = (Ok (), c1)" "opt c1 = opt c"
    "inbox c1 conn = frame_of gz bufs r @ []"
    "pending c1 = AList.update (sequence c + 1) (call\<lparr>Call_Seq := sequence c + 1\<rparr>) (pending c)"
    using send peer fr assms(3) by (simp_all add: c1_def r_def)
  have "sendable gz bufs (co_maxReceiveMessageSize (opt c1)) r" using assms(10) rq(1) c1(2) by (simp add: r_def)
  moreover have "map_of (pending c1) (GetSeq (Hdr r)) = Some (call\<lparr>Call_Seq := sequence c + 1\<rparr>)" using c1(4) rv(3) by (simp add: update_conv')
  moreover have "Unmarshal lib bufs [Payload r] v0 = Inr w"
    using rv(4) bs(2) assms(18) sz by (simp add: Unmarshal_def MaterializeToBuffer_concat)
  ultimately obtain n where recv: "recvMsg lib gz bufs conn v0 c1 =
      (Inr w, c1\<lparr>inbox := (inbox c1)(conn := []), pending := AList.delete (GetSeq (Hdr r)) (pending c1),
         rpc_log := rpc_log c1 @ replicate (length (co_statsHandlers (opt c1))) (InPayload w (Payload r) (length (Payload r)) n (n + 11))\<rparr>)"
    using recvMsg_ok [OF _ c1(3), of "call\<lparr>Call_Seq := sequence c + 1\<rparr>" lib v0 w] rv by auto
  have "map_of (AList.delete (sequence c + 1) (pending c1)) sq = map_of (pending c) sq" for sq
    using c1(4) assms(4) by (auto simp: update_conv' delete_conv')
  with c1(1) recv assms(8) rv(3) show ?thesis by (simp add: exchange_def give_back_def)
qed

text \<open>
  The client after \<open>k\<close> rounds from round \<open>retry\<close> on which all failed in a way that is tried again, if they did.
\<close>

fun failed_rounds ::
  "'v proto_lib \<Rightarrow> gzip_lib \<Rightarrow> (nat \<Rightarrow> bytes) \<Rightarrow> (nat \<Rightarrow> attempt) \<Rightarrow> ctx \<Rightarrow> string \<Rightarrow> 'v \<Rightarrow> 'v \<Rightarrow> nat \<Rightarrow> nat
   \<Rightarrow> ('v, 'm, 'h) Client \<Rightarrow> ('v, 'm, 'h) Client option" where
  "failed_rounds lib gz bufs atts cx method x v0 retry 0 c = Some c"
| "failed_rounds lib gz bufs atts cx method x v0 retry (Suc k) c =
     (if ctx_stops (opt c) (atts retry) retry \<noteq> None then None
      else case attempt_round lib gz bufs (atts retry) cx method x v0 (notify Begin c) of
             (Ok (Inl _), c) \<Rightarrow> failed_rounds lib gz bufs atts cx method x v0 (Suc retry) k c
           | _ \<Rightarrow> None)"

lemma failed_rounds_loop:
  assumes "failed_rounds lib gz bufs atts cx method x v0 retry k c = Some ck" "k \<le> n"
  shows "\<exists>e. retry_loop lib gz bufs atts cx method x v0 retry n le c = retry_loop lib gz bufs atts cx method x v0 (retry + k) (n - k) e ck"
    and "same_client c ck"
proof -
  have "(\<exists>e. retry_loop lib gz bufs atts cx method x v0 retry n le c = retry_loop lib gz bufs atts cx method x v0 (retry + k) (n - k) e ck)
    \<and> same_client c ck"
    using assms
  proof (induction k arbitrary: retry n le c)
    case 0
    then show ?case by auto
  next
    case (Suc k)
    then obtain n' where n: "n = Suc n'" "k \<le> n'" by (cases n) auto
    obtain r c1 where a: "attempt_round lib gz bufs (atts retry) cx method x v0 (notify Begin c) = (r, c1)" by fastforce
    with Suc.prems(1) obtain e where r: "ctx_stops (opt c) (atts retry) retry = None" "r = Ok (Inl e)"
      "failed_rounds lib gz bufs atts cx method x v0 (Suc retry) k c1 = Some ck"
      by (auto split: if_splits outcome.splits sum.splits)
    have "same_client c c1" using attempt_round_ended [OF a] r(2) by (simp add: ended_def same_client_def)
    with Suc.IH [OF r(3) n(2), of "Some e"] show ?case using a r n(1) by (auto simp: same_client_def)
  qed
  then show "\<exists>e. retry_loop lib gz bufs atts cx method x v0 retry n le c = retry_loop lib gz bufs atts cx method x v0 (retry + k) (n - k) e ck"
    "same_client c ck" by simp_all
qed


definition echo_attempt :: attempt where
  "echo_attempt = quiet_attempt\<lparr>at_peer := server_peer raw_proto run_length_gz zeros (\<lambda>_ _ cx. cx) True 0 sample_ctx 0 echo_server\<rparr>"

text \<open>The first write fails; the second round reaches the server.\<close>

definition retry_atts :: "nat \<Rightarrow> attempt" where
  "retry_atts i = (if i = 0 then quiet_attempt\<lparr>at_peer := (\<lambda>_. Inl (PlainError EOF))\<rparr> else echo_attempt)"

definition retry_client :: "(bytes, unit, unit) Client" where
  "retry_client = sample_client\<lparr>pools := [(''h:1'', sample_pool\<lparr>size := 2, hotQueue := [0]\<rparr>)]\<rparr>"

definition broken_pool :: connPool where
  "broken_pool = conn_Close 0 (markInUse 0 (sample_pool\<lparr>size := 2\<rparr>))"

definition echo_call :: "bytes Call" where
  "echo_call = zero_Call\<lparr>Call_ServiceName := ''s'', Call_ServiceMethod := ''m'', Call_req := Some [1, 2], Call_Done := Some 0\<rparr>"

lemma echo_newCall: "newCall ''s/m'' (Some [1, 2]) = Inr echo_call"
  using newCall_simple [of "''m''" "''s''" "Some [1, 2]"] by (simp add: echo_call_def)

lemma echo_prepare: "prepareMessage raw_proto zeros 0 sample_ctx echo_call = Ok sample_req"
  by code_simp

lemma retry_get: "pool_get (at_get (retry_atts 0)) (sample_pool\<lparr>size := 2, hotQueue := [0]\<rparr>) = (Inr 0, markInUse 0 (sample_pool\<lparr>size := 2\<rparr>))"
  by (simp add: pool_get_def get_fast_def try_hot_def checkout_def orelse_def quiet_attempt_def sample_pool_def retry_atts_def
      isClosed_def isHealthy_def duration_units)

lemma echo_discovery:
  "Discovery_Get (at_disc (retry_atts i)) (balancerMode (opt retry_client)) (disc retry_client) = (Inr ''h:1'', disc retry_client)"
  by (simp add: retry_atts_def echo_attempt_def quiet_attempt_def retry_client_def sample_client_def defaultClientOption_def MultiServerRegistry_Get_def)

lemma broken_send:
  assumes "opt c = opt retry_client" "\<not> closing c" "\<not> shutdown c" "pending c = []" "sequence c = 0"
  shows "\<exists>c'. sendMsg raw_proto run_length_gz zeros 0 (\<lambda>_. Inl (PlainError EOF)) sample_ctx conn echo_call c = (Fail EOF, c')
    \<and> disc c' = disc c \<and> pools c' = pools c \<and> pending c' = [] \<and> sequence c' = 1 \<and> inbox c' = inbox c \<and> opt c' = opt c"
proof -
  have sn: "ServiceName sample_req = ''s''" "header_ok (Hdr sample_req)" by code_simp+
  then have st: "stamped 1 sample_req = sample_req\<lparr>Hdr := SetSeq (Hdr sample_req) 1\<rparr>" by (simp add: stamped_def)
  obtain m b where "Encode run_length_gz zeros (sample_req\<lparr>Hdr := SetSeq (Hdr sample_req) 1\<rparr>) = Some (m, b)"
    using Encode_layout [OF sized_zeros stamped_ok [OF sn(2)] sample_choose] by (simp add: st)
  with assms echo_prepare show ?thesis
    by (simp add: sendMsg_def transmit_def Let_def sn)
qed

lemma retry_failed_round:
  "\<exists>ck. failed_rounds raw_proto run_length_gz zeros retry_atts sample_ctx ''s/m'' [1, 2] [] 0 1 retry_client = Some ck
    \<and> disc ck = disc retry_client \<and> map_of (pools ck) ''h:1'' = Some broken_pool \<and> pending ck = [] \<and> sequence ck = 1
    \<and> inbox ck = (\<lambda>_. []) \<and> opt ck = opt retry_client"
proof -
  let ?c = "set_pool ''h:1'' (markInUse 0 (sample_pool\<lparr>size := 2\<rparr>)) (notify Begin retry_client)"
  have f: "pools (notify Begin retry_client) = [(''h:1'', sample_pool\<lparr>size := 2, hotQueue := [0]\<rparr>)]" "opt ?c = opt retry_client"
    "\<not> closing ?c" "\<not> shutdown ?c" "pending ?c = []" "sequence ?c = 0" "inbox ?c = (\<lambda>_. [])"
    by (simp_all add: retry_client_def sample_client_def)
  obtain c' where s: "sendMsg raw_proto run_length_gz zeros 0 (\<lambda>_. Inl (PlainError EOF)) sample_ctx (''h:1'', 0) echo_call ?c = (Fail EOF, c')"
    "disc c' = disc ?c" "pools c' = pools ?c" "pending c' = []" "sequence c' = 1" "inbox c' = inbox ?c" "opt c' = opt ?c"
    using broken_send [OF f(2-6), of "(''h:1'', 0)"] by blast
  have a: "at_now (retry_atts 0) = 0" "at_peer (retry_atts 0) = (\<lambda>_. Inl (PlainError EOF))"
    by (simp_all add: retry_atts_def quiet_attempt_def)
  have d: "(notify Begin retry_client)\<lparr>disc := disc retry_client\<rparr> = notify Begin retry_client" "retry_client\<lparr>disc := disc retry_client\<rparr> = retry_client"
    by (simp_all add: notify_def)
  have "attempt_round raw_proto run_length_gz zeros (retry_atts 0) sample_ctx ''s/m'' [1, 2] [] (notify Begin retry_client)
      = (Ok (Inl EOF), notify (End (Some EOF)) (set_pool ''h:1'' broken_pool c'))"
    using echo_discovery [of 0] retry_get echo_newCall s(1) f a
    by (simp add: attempt_round_def pool_for_def exchange_def broken_pool_def d)
  with s f show ?thesis by (simp add: ctx_stops_def set_pool_def update_conv')
qed

lemma retry_second_get: "\<exists>p p'. pool_get (at_get (retry_atts 1)) broken_pool = (Inr 1, p) \<and> pool_put 0 0 1 p = Ok p'"
  by (simp add: pool_get_def get_fast_def try_hot_def try_create_def createNewConn_def newClientConn_def orelse_def quiet_attempt_def
      sample_pool_def retry_atts_def echo_attempt_def broken_pool_def conn_Close_def markInUse_def isClosed_def pool_put_def markIdle_def Let_def)

lemma echo_request_sendable: "sendable run_length_gz zeros 5242880 (stamped 2 sample_req)"
proof -
  have "wire_ok (stamped 2 sample_req)" by code_simp
  moreover have "length (data_bytes (stamped 2 sample_req) (Payload (stamped 2 sample_req))) = 49" by code_simp
  ultimately show ?thesis by (simp add: sendable_def run_length_gz_ok sized_zeros)
qed

definition echo_response :: "byte \<Rightarrow> Message" where
  "echo_response ct =
     (let rq = (stamped 2 sample_req)\<lparr>Hdr := SetCompressType (Hdr (stamped 2 sample_req)) ct,
          Metadata := Some (entries (stamped 2 sample_req))\<rparr>
      in response_message raw_proto zeros (defaultServerOption :: (ctx, bytes, bytes method_result, unit) serverOption)
           None rq (reply_head (defaultServerOption :: (ctx, bytes, bytes method_result, unit) serverOption) rq None []) (Some [9, 1, 2]))"

lemma echo_response_sendable: "is_bit ct \<Longrightarrow> sendable run_length_gz zeros 5242880 (echo_response ct)"
proof -
  assume "is_bit ct"
  then consider "ct = 0" | "ct = 1" by (auto simp: is_bit_def)
  moreover have "wire_ok (echo_response 0)" "wire_ok (echo_response 1)" by code_simp+
  moreover have "length (data_bytes (echo_response 0) (Payload (echo_response 0))) = 21"
    "length (data_bytes (echo_response 1) (Payload (echo_response 1))) = 21" by code_simp+
  ultimately show ?thesis by cases (simp_all add: sendable_def run_length_gz_ok sized_zeros)
qed

lemma echo_server_fields:
  "so_maxReceiveMessageSize (s_opt echo_server) = 5242880" "\<not> inShutdown echo_server" "s_pool echo_server = None"
  "AuthFunc (s_opt echo_server) = None" "s_opt echo_server = defaultServerOption"
  "map_of (serviceMap echo_server) (Call_ServiceName echo_call) = Some [(''m'', genServerMethod ''s'' echo_method)]"
  "map_of [(''m'', genServerMethod ''s'' echo_method)] (Call_ServiceMethod echo_call) = Some (genServerMethod ''s'' echo_method)"
  by (simp_all add: echo_server_def defaultServerOption_def defaultServerMaxReceiveMessageSize_def echo_call_def)

lemma echo_handler:
  "handler_result (decode_request raw_proto zeros sample_req) (genServerMethod ''s'' echo_method hcx (srvMiddleware (s_opt echo_server)))
    = Returns (Some [9, 1, 2]) None []"
proof -
  have "decode_request raw_proto zeros sample_req [] = Inr [1, 2]" by code_simp
  then show ?thesis by (simp add: genServerMethod_def echo_method_def echo_server_def defaultServerOption_def)
qed

lemma echo_reply_sendable:
  "received_as (stamped 2 sample_req) rq \<Longrightarrow> sendable run_length_gz zeros 5242880
     (response_message raw_proto zeros (s_opt echo_server) None rq (reply_head (s_opt echo_server) rq None []) (Some [9, 1, 2]))"
  using echo_response_sendable echo_server_fields(5) by (auto simp: received_as_def echo_response_def Let_def)


end
